(* ===== verification/Prelude.thy ===== *)
theory Prelude
  imports Main "HOL-Library.Word"
begin

text \<open>
  What every component theory shares: the integer types of \<^verbatim>\<open>Include/types.h\<close>, the two
  builds that \<^verbatim>\<open>Include/Verify/Assert.h\<close> distinguishes, failures as values of a sum type,
  \<^verbatim>\<open>ASSERT\<close> and \<^verbatim>\<open>CRASH\<close> in continuation style, the memory primitives of the C library
  (slices of a byte array, \<^verbatim>\<open>memcpy\<close>, \<^verbatim>\<open>strncpy\<close>), and the lemmas on words and slices that
  carry the proofs of the components.
\<close>

unbundle bit_operations_syntax

section \<open>Types of the code\<close>

type_synonym UINT8 = "8 word"
type_synonym UINT16 = "16 word"
type_synonym UINT32 = "32 word"
type_synonym UINT64 = "64 word"
type_synonym BYTE = "8 word"

text \<open>The identity of an object; \<open>None\<close> is the null pointer.\<close>

type_synonym addr = nat

section \<open>Builds and failures\<close>

text \<open>
  \<^verbatim>\<open>Assert.h\<close> compiles \<^verbatim>\<open>ASSERT\<close> to a call of \<^verbatim>\<open>::Assert\<close> where the macro \<^verbatim>\<open>DEBUG\<close> is
  defined and to \<^verbatim>\<open>((void)0)\<close> where it is not, so every operation takes the build as its first
  argument. \<open>Debug\<close> is the build with the macro.
\<close>

datatype build = Debug | NoDebug

text \<open>
  How a call can end other than by returning. \<open>AssertFailed\<close> and \<open>Crashed\<close> are the two
  \<^verbatim>\<open>std::abort\<close> paths of \<^verbatim>\<open>Assert.cpp\<close>; \<open>NullDeref\<close> and \<open>OutOfBounds\<close> stand for the undefined
  behaviour of C++ on a null pointer and on an index past the end of an array, which the build
  without assertions can reach, \<open>Indeterminate\<close> for the reading of a variable that was never
  assigned, \<open>Dangling\<close> for the use of an object outside its lifetime; \<open>Terminated\<close> is \<^verbatim>\<open>std::terminate\<close>; \<open>Thrown\<close> is an exception
  that leaves the call.
\<close>

datatype error =
    AssertFailed string
  | Crashed string
  | NullDeref
  | OutOfBounds
  | Indeterminate
  | Dangling
  | Terminated
  | Thrown string

type_synonym 'a res = "error + 'a"

definition Assert :: "bool \<Rightarrow> string \<Rightarrow> unit res" where
  "Assert condition message =
     (if \<not> condition then Inl (AssertFailed message) else Inr ())"

definition Crash :: "string \<Rightarrow> 'a res" where
  "Crash message = Inl (Crashed message)"

definition bind_res :: "'a res \<Rightarrow> ('a \<Rightarrow> 'b res) \<Rightarrow> 'b res" where
  "bind_res m f = (case m of Inl e \<Rightarrow> Inl e | Inr x \<Rightarrow> f x)"

text \<open>The macro: the rest of the function is the continuation.\<close>

definition ASSERT :: "build \<Rightarrow> bool \<Rightarrow> string \<Rightarrow> 'a res \<Rightarrow> 'a res" where
  "ASSERT b condition message k =
     (if b = Debug then bind_res (Assert condition message) (\<lambda>_. k) else k)"

definition is_ok :: "'a res \<Rightarrow> bool" where
  "is_ok r = (case r of Inl _ \<Rightarrow> False | Inr _ \<Rightarrow> True)"

named_theorems res_simps \<open>how results are taken apart\<close>

lemma is_ok_simps [simp]: "is_ok (Inr x)" "\<not> is_ok (Inl e)"
  by (simp_all add: is_ok_def)

lemma is_ok_iff: "is_ok r \<longleftrightarrow> (\<exists>x. r = Inr x)"
  by (cases r) auto

lemma bind_res_simps [simp]:
  "bind_res (Inl e) f = Inl e"
  "bind_res (Inr x) f = f x"
  by (simp_all add: bind_res_def)

lemma bind_res_Inr [res_simps]:
  "bind_res m f = Inr y \<longleftrightarrow> (\<exists>x. m = Inr x \<and> f x = Inr y)"
  by (cases m) auto

lemma ASSERT_Inr [res_simps]:
  "ASSERT b c msg k = Inr x \<longleftrightarrow> (b = Debug \<longrightarrow> c) \<and> k = Inr x"
  by (simp add: ASSERT_def Assert_def)

lemma ASSERT_pass [simp]: "c \<Longrightarrow> ASSERT b c msg k = k"
  by (simp add: ASSERT_def Assert_def)

lemma ASSERT_NoDebug [simp]: "ASSERT NoDebug c msg k = k"
  by (simp add: ASSERT_def)

lemma ASSERT_fail: "\<not> c \<Longrightarrow> ASSERT Debug c msg k = Inl (AssertFailed msg)"
  by (simp add: ASSERT_def Assert_def)

text \<open>Success of a composed operation, step by step.\<close>

named_theorems ok_simps \<open>when an operation returns\<close>

lemma is_ok_bind [ok_simps]: "is_ok (bind_res m f) \<longleftrightarrow> (\<exists>x. m = Inr x \<and> is_ok (f x))"
  by (cases m) auto

lemma is_ok_bind_total: "(\<And>x. is_ok (f x)) \<Longrightarrow> is_ok (bind_res m f) \<longleftrightarrow> is_ok m"
  by (cases m) auto

lemma is_ok_bind_pair: "is_ok (bind_res m (\<lambda>(x, y). Inr (f x y))) \<longleftrightarrow> is_ok m"
  by (cases m) auto

lemma is_ok_ASSERT [ok_simps]: "is_ok (ASSERT b c msg k) \<longleftrightarrow> (b = Debug \<longrightarrow> c) \<and> is_ok k"
  by (simp add: ASSERT_def Assert_def)

lemma is_ok_if [ok_simps]: "is_ok (if c then x else y) \<longleftrightarrow> (if c then is_ok x else is_ok y)"
  by simp

section \<open>Words read as natural numbers\<close>

named_theorems word_nat \<open>comparisons and arithmetic of words, on their values\<close>

lemmas word_cmp_nat [word_nat] = word_le_nat_alt word_less_nat_alt

lemma unat_add_small:
  fixes a b :: "'a::len word"
  assumes "unat a + unat b < 2 ^ LENGTH('a)"
  shows "unat (a + b) = unat a + unat b"
  using assms by (simp add: unat_plus_if')

lemma unat_sub_le:
  fixes a b :: "'a::len word"
  assumes "unat b \<le> unat a"
  shows "unat (a - b) = unat a - unat b"
  using assms by (simp add: unat_sub word_le_nat_alt)

lemma unat_less32: "unat (n :: UINT32) < 4294967296"
proof -
  have "unat n < 2 ^ LENGTH(32)" by (rule unsigned_less)
  then show ?thesis by simp
qed

lemma unat_add_small32:
  fixes a b :: UINT32
  assumes "unat a + unat b < 4294967296"
  shows "unat (a + b) = unat a + unat b"
  using assms by (simp add: unat_add_small)

lemma unat_of_nat32: "n < 4294967296 \<Longrightarrow> unat (word_of_nat n :: UINT32) = n"
  by (simp add: unat_of_nat)

lemma unat_ucast_up:
  fixes x :: "'a::len word"
  assumes "LENGTH('a) \<le> LENGTH('b)"
  shows "unat (ucast x :: 'b::len word) = unat x"
proof -
  have "unat x < 2 ^ LENGTH('a)" by (rule unsigned_less)
  also have "\<dots> \<le> 2 ^ LENGTH('b)" using assms by simp
  finally show ?thesis by (simp add: unsigned_ucast_eq take_bit_nat_eq_self)
qed

section \<open>Byte arrays\<close>

text \<open>
  \<open>subarray bs a b\<close> is the bytes at the indices \<open>a \<dots> b - 1\<close>. \<open>memcpy_at bs off src\<close> is
  \<^verbatim>\<open>std::memcpy(base + off, src, n)\<close>; a copy that runs past the array is undefined behaviour,
  which the callers exclude or report.
\<close>

definition subarray :: "'a list \<Rightarrow> nat \<Rightarrow> nat \<Rightarrow> 'a list" where
  "subarray bs a b = take (b - a) (drop a bs)"

definition memcpy_at :: "'a list \<Rightarrow> nat \<Rightarrow> 'a list \<Rightarrow> 'a list" where
  "memcpy_at bs off src = take off bs @ src @ drop (off + length src) bs"

lemma subarray_empty [simp]: "b \<le> a \<Longrightarrow> subarray bs a b = []"
  by (simp add: subarray_def)

lemma subarray_all [simp]: "length bs \<le> b \<Longrightarrow> subarray bs 0 b = bs"
  by (simp add: subarray_def)

lemma length_subarray [simp]: "b \<le> length bs \<Longrightarrow> length (subarray bs a b) = b - a"
  by (simp add: subarray_def)

lemma nth_subarray: "a + i < b \<Longrightarrow> b \<le> length bs \<Longrightarrow> subarray bs a b ! i = bs ! (a + i)"
  by (simp add: subarray_def)

lemma subarray_append: "a \<le> b \<Longrightarrow> b \<le> c \<Longrightarrow> subarray bs a b @ subarray bs b c = subarray bs a c"
proof -
  assume "a \<le> b" "b \<le> c"
  then have "take (c - a) (drop a bs) =
      take (b - a) (drop a bs) @ take (c - a - (b - a)) (drop (b - a) (drop a bs))"
    by (metis diff_le_mono le_add_diff_inverse take_add)
  with \<open>a \<le> b\<close> \<open>b \<le> c\<close> show ?thesis
    by (simp add: subarray_def)
qed

lemma take_subarray: "take n (subarray bs a b) = subarray bs a (min (a + n) b)"
  by (auto simp: subarray_def min_def)

lemma drop_subarray: "drop n (subarray bs a b) = subarray bs (a + n) b"
  by (simp add: subarray_def drop_take add.commute)

lemma take_subarray_le: "a + n \<le> b \<Longrightarrow> take n (subarray bs a b) = subarray bs a (a + n)"
  by (simp add: take_subarray min_def)

lemma subarray_eq_Nil: "b \<le> length bs \<Longrightarrow> subarray bs a b = [] \<longleftrightarrow> b \<le> a"
  by (metis diff_is_0_eq length_0_conv length_subarray)

lemma length_memcpy_at [simp]:
  "off + length src \<le> length bs \<Longrightarrow> length (memcpy_at bs off src) = length bs"
  by (simp add: memcpy_at_def)

lemma subarray_memcpy_before:
  "b \<le> off \<Longrightarrow> off \<le> length bs \<Longrightarrow> subarray (memcpy_at bs off src) a b = subarray bs a b"
proof (cases "a \<le> b")
  case True
  assume "b \<le> off" "off \<le> length bs"
  with True show ?thesis
    by (simp add: subarray_def memcpy_at_def take_drop min_def)
qed simp

lemma subarray_memcpy_after:
  "off + length src \<le> a \<Longrightarrow> off + length src \<le> length bs \<Longrightarrow>
   subarray (memcpy_at bs off src) a b = subarray bs a b"
  by (simp add: subarray_def memcpy_at_def min_def)

lemma subarray_memcpy_same:
  "off + length src \<le> length bs \<Longrightarrow>
   subarray (memcpy_at bs off src) off (off + length src) = src"
  by (simp add: subarray_def memcpy_at_def min_def)

lemma memcpy_at_append:
  "off + length xs \<le> length bs \<Longrightarrow>
   memcpy_at (memcpy_at bs off xs) (off + length xs) ys = memcpy_at bs off (xs @ ys)"
  by (cases xs) (auto simp: memcpy_at_def min_def add.assoc add.commute add.left_commute)

lemma subarray_memcpy_prefix:
  "off + length src \<le> length bs \<Longrightarrow> n \<le> length src \<Longrightarrow>
   subarray (memcpy_at bs off src) off (off + n) = take n src"
  by (simp add: subarray_def memcpy_at_def min_def)

section \<open>C strings\<close>

text \<open>
  A C string is read up to its first NUL. \<^verbatim>\<open>std::strncpy(dst, src, n)\<close> copies at most \<open>n\<close>
  characters of \<open>src\<close>, stopping after its terminator, and fills the rest of the \<open>n\<close> places
  with NUL; it leaves the places of \<open>dst\<close> from \<open>n\<close> on as they were.
\<close>

definition NUL :: char where
  "NUL = CHR 0x00"

definition c_str :: "string \<Rightarrow> string" where
  "c_str s = takeWhile (\<lambda>c. c \<noteq> NUL) s"

definition strncpy :: "string \<Rightarrow> string \<Rightarrow> nat \<Rightarrow> string" where
  "strncpy dst src n =
     (let copied = take n (c_str src)
      in copied @ replicate (n - length copied) NUL @ drop n dst)"

lemma length_strncpy [simp]: "n \<le> length dst \<Longrightarrow> length (strncpy dst src n) = length dst"
  by (simp add: strncpy_def Let_def)

lemma c_str_no_NUL: "NUL \<notin> set (c_str s)"
  by (auto simp: c_str_def dest: set_takeWhileD)

lemma c_str_id: "NUL \<notin> set s \<Longrightarrow> c_str s = s"
  by (auto simp: c_str_def)

lemma c_str_append_NUL: "NUL \<notin> set s \<Longrightarrow> c_str (s @ NUL # t) = s"
  by (induction s) (auto simp: c_str_def)

text \<open>A bounded copy followed by a terminator in the last place reads back as a prefix.\<close>

lemma c_str_strncpy_terminated:
  assumes "length dst = Suc n"
  shows "c_str ((strncpy dst src n)[n := NUL]) = take n (c_str src)"
proof -
  let ?p = "take n (c_str src)"
  have no: "NUL \<notin> set ?p"
    using c_str_no_NUL by (blast dest: in_set_takeD)
  from assms obtain z where z: "drop n dst = [z]"
    by (metis Cons_nth_drop_Suc drop_all lessI nat_le_linear)
  have len: "length ?p + (n - length ?p) = n" by simp
  have "(strncpy dst src n)[n := NUL] = (?p @ replicate (n - length ?p) NUL) @ [NUL]"
    using len by (simp add: strncpy_def Let_def z list_update_append)
  also have "\<dots> = ?p @ NUL # replicate (n - length ?p) NUL"
    by (simp add: replicate_append_same)
  finally show ?thesis
    using no by (simp add: c_str_append_NUL)
qed

section \<open>Numbers as text\<close>

fun nat_digits :: "nat \<Rightarrow> nat \<Rightarrow> string" where
  "nat_digits 0 n = []"
| "nat_digits (Suc k) n =
     (if n < 10 then [char_of (48 + n)] else nat_digits k (n div 10) @ [char_of (48 + n mod 10)])"

text \<open>\<^verbatim>\<open>std::to_string\<close> of a 32-bit number has at most ten digits.\<close>

definition to_string :: "nat \<Rightarrow> string" where
  "to_string n = nat_digits 10 n"

lemma to_string_0: "to_string 0 = ''0''"
  by code_simp

fun hex_digits :: "nat \<Rightarrow> nat \<Rightarrow> string" where
  "hex_digits 0 n = []"
| "hex_digits (Suc k) n =
     (if n < 16 then [''0123456789abcdef'' ! n]
      else hex_digits k (n div 16) @ [''0123456789abcdef'' ! (n mod 16)])"

text \<open>A 64-bit number has at most sixteen hexadecimal digits.\<close>

definition to_hex :: "UINT64 \<Rightarrow> string" where
  "to_hex w = hex_digits 16 (unat w)"

end
