(* ===== verification/Contracts.thy ===== *)
theory Contracts
  imports Prelude "HOL-Library.Multiset"
begin

text \<open>
  The interfaces the components meet each other through, each a locale: a transition system
  with an invariant, a simulation between two such systems, a first-in first-out byte buffer, a
  pool of elements under a lock and its two orders (queue and stack). The runs of operations
  they talk about are defined here at the top level; the providers (\<open>Ring_Buffer\<close>, \<open>Recv_Buffer\<close>, \<open>Lock_Queue\<close>, \<open>Lock_Stack\<close>, the
  sessions and the acceptor) interpret them on their own operations.
\<close>

section \<open>Transition systems\<close>

inductive reach :: "('s \<Rightarrow> bool) \<Rightarrow> ('s \<Rightarrow> 's \<Rightarrow> bool) \<Rightarrow> 's \<Rightarrow> bool"
  for init :: "'s \<Rightarrow> bool" and step :: "'s \<Rightarrow> 's \<Rightarrow> bool" where
  reach_init: "init s \<Longrightarrow> reach init step s"
| reach_step: "reach init step s \<Longrightarrow> step s t \<Longrightarrow> reach init step t"

lemma reach_trans: "reach init step a \<Longrightarrow> reach (\<lambda>x. x = a) step t \<Longrightarrow> reach init step t"
  by (rotate_tac 1, induction rule: reach.induct) (auto intro: reach.intros)

locale invariant_system =
  fixes init :: "'s \<Rightarrow> bool"
    and step :: "'s \<Rightarrow> 's \<Rightarrow> bool"
    and inv :: "'s \<Rightarrow> bool"
  assumes init_inv: "init s \<Longrightarrow> inv s"
    and step_inv: "inv s \<Longrightarrow> step s t \<Longrightarrow> inv t"
begin

lemma reach_inv: "reach init step s \<Longrightarrow> inv s"
  by (induction rule: reach.induct) (auto intro: init_inv step_inv)

text \<open>A property that holds at the start and that every step from a good state keeps.\<close>

lemma reach_keeps:
  assumes "reach init step s"
    and "\<And>s. init s \<Longrightarrow> P s"
    and "\<And>s t. inv s \<Longrightarrow> P s \<Longrightarrow> step s t \<Longrightarrow> P t"
  shows "P s"
  using assms(1) by (induction rule: reach.induct) (auto intro: assms reach_inv)

end

text \<open>
  One system does what another does: every step of the first is matched by a step of the second,
  or by none, and the matching states are related.
\<close>

locale simulation =
  fixes init :: "'s \<Rightarrow> bool"
    and step :: "'s \<Rightarrow> 's \<Rightarrow> bool"
    and abs_init :: "'a \<Rightarrow> bool"
    and abs_step :: "'a \<Rightarrow> 'a \<Rightarrow> bool"
    and rel :: "'s \<Rightarrow> 'a \<Rightarrow> bool"
  assumes init_sim: "init s \<Longrightarrow> \<exists>a. abs_init a \<and> rel s a"
    and step_sim: "step s t \<Longrightarrow> rel s a \<Longrightarrow> \<exists>b. (b = a \<or> abs_step a b) \<and> rel t b"
begin

lemma reach_sim: "reach init step s \<Longrightarrow> \<exists>a. reach abs_init abs_step a \<and> rel s a"
proof (induction rule: reach.induct)
  case (reach_init s)
  with init_sim show ?case by (meson reach.reach_init)
next
  case (reach_step s t)
  then obtain a where a: "reach abs_init abs_step a" "rel s a" by blast
  from step_sim[OF reach_step.hyps(2) a(2)] obtain b where "b = a \<or> abs_step a b" "rel t b" by blast
  with a(1) show ?case by (metis reach.reach_step)
qed

end

section \<open>First-in first-out byte buffers\<close>

text \<open>
  One use of a buffer is to put a block of bytes, which the buffer may refuse, or to take at
  most \<open>n\<close> bytes off its front.
\<close>

datatype byte_op = Put "BYTE list" | Get nat

fun byte_run :: "('s \<Rightarrow> BYTE list \<Rightarrow> 's option) \<Rightarrow> ('s \<Rightarrow> nat \<Rightarrow> BYTE list \<times> 's) \<Rightarrow>
    's \<Rightarrow> byte_op list \<Rightarrow> BYTE list \<times> BYTE list \<times> 's" where
  "byte_run put get s [] = ([], [], s)"
| "byte_run put get s (Put bs # ops) =
     (case put s bs of
        None \<Rightarrow> byte_run put get s ops
      | Some s' \<Rightarrow>
          (case byte_run put get s' ops of (ins, outs, t) \<Rightarrow> (bs @ ins, outs, t)))"
| "byte_run put get s (Get n # ops) =
     (case get s n of (bs, s') \<Rightarrow>
        (case byte_run put get s' ops of (ins, outs, t) \<Rightarrow> (ins, bs @ outs, t)))"

fun byte_drain :: "('s \<Rightarrow> nat \<Rightarrow> BYTE list \<times> 's) \<Rightarrow> nat \<Rightarrow> nat \<Rightarrow> 's \<Rightarrow> BYTE list \<times> 's" where
  "byte_drain get n 0 s = ([], s)"
| "byte_drain get n (Suc k) s =
     (case get s n of (bs, s') \<Rightarrow>
        (case byte_drain get n k s' of (cs, t) \<Rightarrow> (bs @ cs, t)))"

locale byte_fifo =
  fixes inv :: "'s \<Rightarrow> bool"
    and contents :: "'s \<Rightarrow> BYTE list"
    and put :: "'s \<Rightarrow> BYTE list \<Rightarrow> 's option"
    and get :: "'s \<Rightarrow> nat \<Rightarrow> BYTE list \<times> 's"
  assumes put_law: "inv s \<Longrightarrow> put s bs = Some s' \<Longrightarrow> inv s' \<and> contents s' = contents s @ bs"
    and get_law: "inv s \<Longrightarrow> get s n = (bs, s') \<Longrightarrow>
      inv s' \<and> bs @ contents s' = contents s \<and> length bs \<le> n"
    and get_progress: "inv s \<Longrightarrow> contents s \<noteq> [] \<Longrightarrow> 0 < n \<Longrightarrow> get s n = (bs, s') \<Longrightarrow> bs \<noteq> []"
begin

text \<open>Nothing is lost, duplicated or reordered, whatever the interleaving.\<close>

lemma run_conserves:
  "inv s \<Longrightarrow> byte_run put get s ops = (ins, outs, t) \<Longrightarrow>
   inv t \<and> outs @ contents t = contents s @ ins"
proof (induction ops arbitrary: s ins outs t)
  case (Cons op ops)
  show ?case
  proof (cases op)
    case (Put bs)
    show ?thesis
    proof (cases "put s bs")
      case None
      with Cons Put show ?thesis by simp
    next
      case (Some s')
      with put_law Cons.prems have "inv s'" "contents s' = contents s @ bs" by auto
      with Cons Put Some show ?thesis
        by (auto split: prod.splits)
    qed
  next
    case (Get n)
    obtain bs s' where g: "get s n = (bs, s')" by force
    with get_law Cons.prems have "inv s'" "bs @ contents s' = contents s" by auto
    with Cons Get g show ?thesis
      by (fastforce split: prod.splits)
  qed
qed simp

text \<open>Taking blocks of any positive size empties the buffer within as many steps as it has bytes.\<close>

lemma drain_empties:
  "inv s \<Longrightarrow> 0 < n \<Longrightarrow> length (contents s) \<le> k \<Longrightarrow>
   \<exists>t. byte_drain get n k s = (contents s, t) \<and> inv t \<and> contents t = []"
proof (induction k arbitrary: s)
  case (Suc k)
  obtain bs s' where g: "get s n = (bs, s')" by force
  with get_law Suc.prems have s': "inv s'" "bs @ contents s' = contents s" by auto
  have "length (contents s') \<le> k"
  proof (cases "contents s = []")
    case False
    with get_progress g Suc.prems have "bs \<noteq> []" by blast
    then have "0 < length bs" by simp
    moreover have "length bs + length (contents s') = length (contents s)"
      using arg_cong[OF s'(2), of length] by simp
    ultimately show ?thesis using Suc.prems(3) by linarith
  next
    case True
    with s'(2) show ?thesis by simp
  qed
  with Suc.IH Suc.prems s' obtain t where
    "byte_drain get n k s' = (contents s', t)" "inv t" "contents t = []" by blast
  with g s' show ?case by simp
qed simp

end

section \<open>Pools of elements under a lock\<close>

text \<open>
  The two containers of \<^verbatim>\<open>DataStruct/\<close> take their mutex for the whole of every operation, so
  any concurrent use is some sequence of whole operations, as \<open>Mutex_Model\<close> shows. \<open>TryPop\<close> writes its reference
  parameter only when it returns true; the model passes the old value in and the new one out.
\<close>

datatype 'a pool_op = Push_op 'a | TryPop_op

fun pool_run :: "('q \<Rightarrow> 'a \<Rightarrow> 'q res) \<Rightarrow> ('q \<Rightarrow> 'a \<Rightarrow> bool \<times> 'a \<times> 'q) \<Rightarrow>
    'a \<Rightarrow> 'q \<Rightarrow> 'a pool_op list \<Rightarrow> ('a list \<times> 'q) res" where
  "pool_run push try_pop d q [] = Inr ([], q)"
| "pool_run push try_pop d q (Push_op x # ops) =
     bind_res (push q x) (\<lambda>q'. pool_run push try_pop d q' ops)"
| "pool_run push try_pop d q (TryPop_op # ops) =
     (case try_pop q d of (found, x, q') \<Rightarrow>
        bind_res (pool_run push try_pop d q' ops)
          (\<lambda>(xs, t). Inr (if found then x # xs else xs, t)))"

fun pushed :: "'a pool_op list \<Rightarrow> 'a list" where
  "pushed [] = []"
| "pushed (Push_op x # ops) = x # pushed ops"
| "pushed (TryPop_op # ops) = pushed ops"

locale lock_pool =
  fixes inv :: "'q \<Rightarrow> bool"
    and elems :: "'q \<Rightarrow> 'a list"
    and push :: "'q \<Rightarrow> 'a \<Rightarrow> 'q res"
    and try_pop :: "'q \<Rightarrow> 'a \<Rightarrow> bool \<times> 'a \<times> 'q"
  assumes push_law: "inv q \<Longrightarrow> push q x = Inr q' \<Longrightarrow>
      inv q' \<and> mset (elems q') = add_mset x (mset (elems q))"
    and try_pop_law: "inv q \<Longrightarrow> try_pop q d = (found, x, q') \<Longrightarrow>
      inv q' \<and> (found \<longleftrightarrow> elems q \<noteq> []) \<and>
      mset (elems q) = (if found then add_mset x (mset (elems q')) else mset (elems q'))"
begin

lemma run_conserves_elems:
  "inv q \<Longrightarrow> pool_run push try_pop d q ops = Inr (xs, t) \<Longrightarrow>
   inv t \<and> mset xs + mset (elems t) = mset (elems q) + mset (pushed ops)"
proof (induction ops arbitrary: q xs t)
  case (Cons op ops)
  show ?case
  proof (cases op)
    case (Push_op x)
    with Cons.prems obtain q' where q': "push q x = Inr q'"
      "pool_run push try_pop d q' ops = Inr (xs, t)" by (auto simp: res_simps)
    with push_law Cons.prems have "inv q'" "mset (elems q') = add_mset x (mset (elems q))"
      by auto
    with Cons.IH q' Push_op show ?thesis by fastforce
  next
    case TryPop_op
    obtain found x q' where p: "try_pop q d = (found, x, q')" by (metis prod_cases3)
    with Cons.prems TryPop_op obtain ys where ys:
      "pool_run push try_pop d q' ops = Inr (ys, t)" "xs = (if found then x # ys else ys)"
      by (auto simp: res_simps)
    from try_pop_law p Cons.prems have "inv q'"
      "mset (elems q) = (if found then add_mset x (mset (elems q')) else mset (elems q'))"
      by blast+
    with Cons.IH ys TryPop_op show ?thesis by auto
  qed
qed simp

end

text \<open>A queue: push at the back, pop at the front.\<close>

locale fifo_pool =
  fixes inv :: "'q \<Rightarrow> bool"
    and elems :: "'q \<Rightarrow> 'a list"
    and push :: "'q \<Rightarrow> 'a \<Rightarrow> 'q res"
    and try_pop :: "'q \<Rightarrow> 'a \<Rightarrow> bool \<times> 'a \<times> 'q"
  assumes push_back: "inv q \<Longrightarrow> push q x = Inr q' \<Longrightarrow> inv q' \<and> elems q' = elems q @ [x]"
    and pop_empty: "inv q \<Longrightarrow> elems q = [] \<Longrightarrow> try_pop q d = (False, d, q)"
    and pop_front: "inv q \<Longrightarrow> elems q = x # xs \<Longrightarrow>
      \<exists>q'. try_pop q d = (True, x, q') \<and> inv q' \<and> elems q' = xs"
begin

lemma pop_cases:
  assumes "inv q" "try_pop q d = (found, x, q')"
  shows "inv q' \<and> (found \<longleftrightarrow> elems q \<noteq> []) \<and>
    elems q = (if found then x # elems q' else elems q')"
proof (cases "elems q")
  case Nil
  with assms(2) pop_empty[OF assms(1) Nil, of d] show ?thesis
    using assms(1) by auto
next
  case (Cons y ys)
  with assms(2) pop_front[OF assms(1) Cons, of d] show ?thesis by auto
qed

lemma run_in_order:
  "inv q \<Longrightarrow> pool_run push try_pop d q ops = Inr (xs, t) \<Longrightarrow>
   inv t \<and> xs @ elems t = elems q @ pushed ops"
proof (induction ops arbitrary: q xs t)
  case (Cons op ops)
  show ?case
  proof (cases op)
    case (Push_op x)
    with Cons.prems obtain q' where q': "push q x = Inr q'"
      "pool_run push try_pop d q' ops = Inr (xs, t)" by (auto simp: res_simps)
    with push_back Cons.prems have "inv q'" "elems q' = elems q @ [x]" by auto
    with Cons.IH q' Push_op show ?thesis by fastforce
  next
    case TryPop_op
    obtain found x q' where p: "try_pop q d = (found, x, q')" by (metis prod_cases3)
    with Cons.prems TryPop_op obtain ys where ys:
      "pool_run push try_pop d q' ops = Inr (ys, t)" "xs = (if found then x # ys else ys)"
      by (auto simp: res_simps)
    from pop_cases p Cons.prems have "inv q'"
      "elems q = (if found then x # elems q' else elems q')" by blast+
    with Cons.IH ys TryPop_op show ?thesis by auto
  qed
qed simp

end

sublocale fifo_pool \<subseteq> lock_pool inv elems push try_pop
  by unfold_locales (auto dest: push_back pop_cases split: if_splits)

text \<open>A stack: push and pop at the top, the last element of the list.\<close>

locale lifo_pool =
  fixes inv :: "'q \<Rightarrow> bool"
    and elems :: "'q \<Rightarrow> 'a list"
    and push :: "'q \<Rightarrow> 'a \<Rightarrow> 'q res"
    and try_pop :: "'q \<Rightarrow> 'a \<Rightarrow> bool \<times> 'a \<times> 'q"
  assumes push_top: "inv q \<Longrightarrow> push q x = Inr q' \<Longrightarrow> inv q' \<and> elems q' = elems q @ [x]"
    and pop_none: "inv q \<Longrightarrow> elems q = [] \<Longrightarrow> try_pop q d = (False, d, q)"
    and pop_top: "inv q \<Longrightarrow> elems q = xs @ [x] \<Longrightarrow>
      \<exists>q'. try_pop q d = (True, x, q') \<and> inv q' \<and> elems q' = xs"
begin

lemma top_cases:
  assumes "inv q" "try_pop q d = (found, x, q')"
  shows "inv q' \<and> (found \<longleftrightarrow> elems q \<noteq> []) \<and>
    elems q = (if found then elems q' @ [x] else elems q')"
proof (cases "elems q" rule: rev_cases)
  case Nil
  with assms(2) pop_none[OF assms(1) Nil, of d] show ?thesis
    using assms(1) by auto
next
  case (snoc ys y)
  with assms(2) pop_top[OF assms(1) snoc, of d] show ?thesis by auto
qed

lemma push_then_pop:
  assumes "inv q" "push q x = Inr q'"
  shows "\<exists>q''. try_pop q' d = (True, x, q'') \<and> inv q'' \<and> elems q'' = elems q"
  using push_top[OF assms] pop_top by auto

end

sublocale lifo_pool \<subseteq> lock_pool inv elems push try_pop
  by unfold_locales (auto dest: push_top top_cases split: if_splits)

end
