(* ===== verification/Ring_Buffer.thy ===== *)
theory Ring_Buffer
  imports Contracts
begin

text \<open>
  \<^verbatim>\<open>DataStruct/RingBuffer\<close>: the fixed-size circular buffer with tail skip and its two RAII
  handles. A handle's \<open>m_ptr\<close> points into the owner's \<open>m_buffer\<close>, so it is kept as an index
  of that array, \<open>None\<close> for the null pointer; \<open>m_owner\<close> is the owner's address. An operation
  that goes through a handle takes the buffer the handle's owner points to, and returns it
  updated. The cursors are 32-bit words, as in the code.
\<close>

section \<open>State\<close>

definition kCapacity :: UINT32 where
  "kCapacity = 1024 * 16"

record RingBufferReader =
  rd_owner :: "addr option"
  rd_ptr :: "UINT32 option"
  rd_size :: UINT32

record RingBufferWriter =
  wr_owner :: "addr option"
  wr_ptr :: "UINT32 option"
  wr_size :: UINT32

record RingBuffer =
  m_this :: addr
  m_isActiveWriter :: bool
  m_isActiveReader :: bool
  m_isFull :: bool
  m_ring :: "BYTE list"
  m_readCursor :: UINT32
  m_writeCursor :: UINT32
  m_tailCursor :: UINT32

section \<open>The handles\<close>

subsection \<open>Reader\<close>

definition RingBufferReader_null :: RingBufferReader where
  "RingBufferReader_null = \<lparr>rd_owner = None, rd_ptr = None, rd_size = 0\<rparr>"

definition RingBufferReader_IsValid :: "RingBufferReader \<Rightarrow> bool" where
  "RingBufferReader_IsValid h \<longleftrightarrow> rd_owner h \<noteq> None \<and> rd_ptr h \<noteq> None \<and> 0 < rd_size h"

definition RingBufferReader_make ::
    "build \<Rightarrow> addr option \<Rightarrow> UINT32 option \<Rightarrow> UINT32 \<Rightarrow> RingBufferReader res" where
  "RingBufferReader_make b owner ptr sz =
     (let h = \<lparr>rd_owner = owner, rd_ptr = ptr, rd_size = sz\<rparr>
      in ASSERT b (RingBufferReader_IsValid h) ''Ring Buffer Reader is invalid'' (Inr h))"

definition RingBufferReader_Clear :: "RingBufferReader \<Rightarrow> RingBufferReader" where
  "RingBufferReader_Clear h = h\<lparr>rd_owner := None, rd_ptr := None, rd_size := 0\<rparr>"

text \<open>The move constructor: the new handle and what is left of the old one.\<close>

definition RingBufferReader_move ::
    "build \<Rightarrow> RingBufferReader \<Rightarrow> (RingBufferReader \<times> RingBufferReader) res" where
  "RingBufferReader_move b other =
     (let h = \<lparr>rd_owner = rd_owner other, rd_ptr = rd_ptr other, rd_size = rd_size other\<rparr>
      in ASSERT b (RingBufferReader_IsValid h) ''Reader is invalid''
           (Inr (h, RingBufferReader_Clear other)))"

text \<open>Move assignment from another object: the assigned handle and what is left of the source.\<close>

definition RingBufferReader_move_assign ::
    "build \<Rightarrow> RingBufferReader \<Rightarrow> RingBufferReader \<Rightarrow> (RingBufferReader \<times> RingBufferReader) res" where
  "RingBufferReader_move_assign b h other =
     ASSERT b (RingBufferReader_IsValid other) ''Reader is invalid'' (
     ASSERT b (rd_owner h = rd_owner other) ''Cannot move reader from different buffer'' (
     Inr (h\<lparr>rd_owner := rd_owner other, rd_ptr := rd_ptr other, rd_size := rd_size other\<rparr>,
          RingBufferReader_Clear other)))"

text \<open>\<^verbatim>\<open>GetPtr(offset)\<close>: an index of the owner's array; on a null \<open>m_ptr\<close> it is no index of it.\<close>

definition RingBufferReader_GetPtr :: "build \<Rightarrow> RingBufferReader \<Rightarrow> UINT32 \<Rightarrow> UINT32 option res" where
  "RingBufferReader_GetPtr b h offset =
     ASSERT b (offset \<le> rd_size h) ''Offset out of bounds''
       (Inr (map_option (\<lambda>p. p + offset) (rd_ptr h)))"

text \<open>\<^verbatim>\<open>As<T>()\<close>: where the object it refers to starts. The size of \<open>T\<close> is not looked at.\<close>

definition RingBufferReader_As :: "build \<Rightarrow> RingBufferReader \<Rightarrow> UINT32 res" where
  "RingBufferReader_As b h =
     ASSERT b (RingBufferReader_IsValid h) ''Reader is invalid''
       (case rd_ptr h of None \<Rightarrow> Inl NullDeref | Some p \<Rightarrow> Inr p)"

definition RingBufferReader_GetSize :: "RingBufferReader \<Rightarrow> UINT32" where
  "RingBufferReader_GetSize h = rd_size h"

subsection \<open>Writer\<close>

definition RingBufferWriter_null :: RingBufferWriter where
  "RingBufferWriter_null = \<lparr>wr_owner = None, wr_ptr = None, wr_size = 0\<rparr>"

definition RingBufferWriter_IsValid :: "RingBufferWriter \<Rightarrow> bool" where
  "RingBufferWriter_IsValid h \<longleftrightarrow> wr_owner h \<noteq> None \<and> wr_ptr h \<noteq> None \<and> 0 < wr_size h"

definition RingBufferWriter_make ::
    "build \<Rightarrow> addr option \<Rightarrow> UINT32 option \<Rightarrow> UINT32 \<Rightarrow> RingBufferWriter res" where
  "RingBufferWriter_make b owner ptr sz =
     (let h = \<lparr>wr_owner = owner, wr_ptr = ptr, wr_size = sz\<rparr>
      in ASSERT b (RingBufferWriter_IsValid h) ''Ring Buffer Writer is invalid'' (Inr h))"

definition RingBufferWriter_Clear :: "RingBufferWriter \<Rightarrow> RingBufferWriter" where
  "RingBufferWriter_Clear h = h\<lparr>wr_owner := None, wr_ptr := None, wr_size := 0\<rparr>"

definition RingBufferWriter_move ::
    "build \<Rightarrow> RingBufferWriter \<Rightarrow> (RingBufferWriter \<times> RingBufferWriter) res" where
  "RingBufferWriter_move b other =
     (let h = \<lparr>wr_owner = wr_owner other, wr_ptr = wr_ptr other, wr_size = wr_size other\<rparr>
      in ASSERT b (RingBufferWriter_IsValid h) ''Writer is invalid''
           (Inr (h, RingBufferWriter_Clear other)))"

definition RingBufferWriter_move_assign ::
    "build \<Rightarrow> RingBufferWriter \<Rightarrow> RingBufferWriter \<Rightarrow> (RingBufferWriter \<times> RingBufferWriter) res" where
  "RingBufferWriter_move_assign b h other =
     ASSERT b (RingBufferWriter_IsValid other) ''Writer is invalid'' (
     ASSERT b (wr_owner h = wr_owner other) ''Cannot move writer from different buffer'' (
     Inr (h\<lparr>wr_owner := wr_owner other, wr_ptr := wr_ptr other, wr_size := wr_size other\<rparr>,
          RingBufferWriter_Clear other)))"

definition RingBufferWriter_GetPtr :: "build \<Rightarrow> RingBufferWriter \<Rightarrow> UINT32 \<Rightarrow> UINT32 option res" where
  "RingBufferWriter_GetPtr b h offset =
     ASSERT b (offset \<le> wr_size h) ''Offset out of bounds''
       (Inr (map_option (\<lambda>p. p + offset) (wr_ptr h)))"

definition RingBufferWriter_As :: "build \<Rightarrow> RingBufferWriter \<Rightarrow> UINT32 res" where
  "RingBufferWriter_As b h =
     ASSERT b (RingBufferWriter_IsValid h) ''Writer is invalid''
       (case wr_ptr h of None \<Rightarrow> Inl NullDeref | Some p \<Rightarrow> Inr p)"

definition RingBufferWriter_GetSize :: "RingBufferWriter \<Rightarrow> UINT32" where
  "RingBufferWriter_GetSize h = wr_size h"

section \<open>The buffer\<close>

definition RingBuffer_new :: "addr \<Rightarrow> BYTE list \<Rightarrow> RingBuffer" where
  \<comment> \<open>\<open>m_buffer\<close> has no initialiser, so its first contents are whatever the memory holds\<close>
  "RingBuffer_new this memory =
     \<lparr>m_this = this, m_isActiveWriter = False, m_isActiveReader = False, m_isFull = False,
      m_ring = memory, m_readCursor = 0, m_writeCursor = 0, m_tailCursor = kCapacity\<rparr>"

definition RingBuffer_IsEmpty :: "RingBuffer \<Rightarrow> bool" where
  "RingBuffer_IsEmpty rb \<longleftrightarrow> \<not> m_isFull rb \<and> m_writeCursor rb = m_readCursor rb"

definition RingBuffer_delete :: "build \<Rightarrow> RingBuffer \<Rightarrow> unit res" where
  "RingBuffer_delete b rb =
     ASSERT b (\<not> m_isActiveWriter rb) ''Writer is still active'' (
     ASSERT b (\<not> m_isActiveReader rb) ''Reader is still active'' (
     ASSERT b (RingBuffer_IsEmpty rb) ''Buffer is not empty yet'' (Inr ())))"

definition RingBuffer_CreateWriter ::
    "build \<Rightarrow> RingBuffer \<Rightarrow> UINT32 \<Rightarrow> (RingBufferWriter \<times> RingBuffer) res" where
  "RingBuffer_CreateWriter b rb writeSize =
     ASSERT b (0 < writeSize) ''Write size is 0'' (
     ASSERT b (\<not> m_isActiveWriter rb) ''Writer is already active'' (
     if m_isFull rb then Inr (RingBufferWriter_null, rb)
     else if m_readCursor rb \<le> m_writeCursor rb then
       (if writeSize \<le> kCapacity - m_writeCursor rb then
          (let rb = rb\<lparr>m_isActiveWriter := True\<rparr>
           in bind_res (RingBufferWriter_make b (Some (m_this rb)) (Some (m_writeCursor rb)) writeSize)
                (\<lambda>w. Inr (w, rb)))
        else if writeSize \<le> m_readCursor rb then
          (let rb = rb\<lparr>m_tailCursor := m_writeCursor rb, m_writeCursor := 0, m_isActiveWriter := True\<rparr>
           in bind_res (RingBufferWriter_make b (Some (m_this rb)) (Some 0) writeSize)
                (\<lambda>w. Inr (w, rb)))
        else Inr (RingBufferWriter_null, rb))
     else
       (let kRemainSize = m_readCursor rb - m_writeCursor rb
        in if writeSize \<le> kRemainSize then
             (let rb = rb\<lparr>m_isActiveWriter := True\<rparr>
              in bind_res (RingBufferWriter_make b (Some (m_this rb)) (Some (m_writeCursor rb)) writeSize)
                   (\<lambda>w. Inr (w, rb)))
           else Inr (RingBufferWriter_null, rb))))"

definition RingBuffer_CreateReader ::
    "build \<Rightarrow> RingBuffer \<Rightarrow> UINT32 \<Rightarrow> (RingBufferReader \<times> RingBuffer) res" where
  "RingBuffer_CreateReader b rb readSize =
     ASSERT b (0 < readSize) ''Read size is 0'' (
     ASSERT b (\<not> m_isActiveReader rb) ''Reader is already active'' (
     let rb = (if m_readCursor rb = m_tailCursor rb
               then rb\<lparr>m_readCursor := 0, m_tailCursor := kCapacity\<rparr> else rb)
     in if RingBuffer_IsEmpty rb then Inr (RingBufferReader_null, rb)
        else
          (let contiguousSize = (if m_readCursor rb < m_writeCursor rb
                                 then m_writeCursor rb - m_readCursor rb
                                 else m_tailCursor rb - m_readCursor rb);
               readSize = min readSize contiguousSize
           in if readSize = 0 then Inr (RingBufferReader_null, rb)
              else
                (let rb = rb\<lparr>m_isActiveReader := True\<rparr>
                 in bind_res (RingBufferReader_make b (Some (m_this rb)) (Some (m_readCursor rb)) readSize)
                      (\<lambda>r. Inr (r, rb))))))"

definition RingBuffer_CreateAllWriter ::
    "build \<Rightarrow> RingBuffer \<Rightarrow> (RingBufferWriter \<times> RingBuffer) res" where
  "RingBuffer_CreateAllWriter b rb =
     ASSERT b (\<not> m_isActiveWriter rb) ''Writer is already active'' (
     if m_isFull rb then Inr (RingBufferWriter_null, rb)
     else
       (let contiguousSize = (if m_readCursor rb \<le> m_writeCursor rb
                              then kCapacity - m_writeCursor rb
                              else m_readCursor rb - m_writeCursor rb)
        in if contiguousSize = 0 then Inr (RingBufferWriter_null, rb)
           else
             (let rb = rb\<lparr>m_isActiveWriter := True\<rparr>
              in bind_res (RingBufferWriter_make b (Some (m_this rb)) (Some (m_writeCursor rb)) contiguousSize)
                   (\<lambda>w. Inr (w, rb)))))"

definition RingBuffer_CreateAllReader ::
    "build \<Rightarrow> RingBuffer \<Rightarrow> (RingBufferReader \<times> RingBuffer) res" where
  "RingBuffer_CreateAllReader b rb =
     ASSERT b (\<not> m_isActiveReader rb) ''Reader is already active'' (
     let rb = (if m_readCursor rb = m_tailCursor rb
               then rb\<lparr>m_readCursor := 0, m_tailCursor := kCapacity\<rparr> else rb)
     in if RingBuffer_IsEmpty rb then Inr (RingBufferReader_null, rb)
        else
          (let contiguousSize = (if m_readCursor rb < m_writeCursor rb
                                 then m_writeCursor rb - m_readCursor rb
                                 else m_tailCursor rb - m_readCursor rb)
           in if contiguousSize = 0 then Inr (RingBufferReader_null, rb)
              else
                (let rb = rb\<lparr>m_isActiveReader := True\<rparr>
                 in bind_res (RingBufferReader_make b (Some (m_this rb)) (Some (m_readCursor rb)) contiguousSize)
                      (\<lambda>r. Inr (r, rb)))))"

definition RingBuffer_GiveUpWriter ::
    "build \<Rightarrow> RingBuffer \<Rightarrow> RingBufferWriter \<Rightarrow> (RingBufferWriter \<times> RingBuffer) res" where
  "RingBuffer_GiveUpWriter b rb h =
     ASSERT b (RingBufferWriter_IsValid h) ''Writer is invalid'' (
     ASSERT b (m_isActiveWriter rb) ''No active writer'' (
     Inr (RingBufferWriter_Clear h, rb\<lparr>m_isActiveWriter := False\<rparr>)))"

definition RingBuffer_GiveUpReader ::
    "build \<Rightarrow> RingBuffer \<Rightarrow> RingBufferReader \<Rightarrow> (RingBufferReader \<times> RingBuffer) res" where
  "RingBuffer_GiveUpReader b rb h =
     ASSERT b (RingBufferReader_IsValid h) ''Reader is invalid'' (
     ASSERT b (m_isActiveReader rb) ''No active reader'' (
     Inr (RingBufferReader_Clear h, rb\<lparr>m_isActiveReader := False\<rparr>)))"

definition RingBuffer_CommitWrite ::
    "build \<Rightarrow> RingBuffer \<Rightarrow> RingBufferWriter \<Rightarrow> UINT32 \<Rightarrow> (RingBufferWriter \<times> RingBuffer) res" where
  "RingBuffer_CommitWrite b rb h writeSize =
     ASSERT b (RingBufferWriter_IsValid h) ''Writer is invalid'' (
     ASSERT b (m_isActiveWriter rb) ''No active writer'' (
     let writeSize = (if 0 = writeSize then RingBufferWriter_GetSize h else writeSize)
     in ASSERT b (writeSize \<le> RingBufferWriter_GetSize h) ''Write size exceeds reserved size'' (
        ASSERT b (m_writeCursor rb + writeSize \<le> kCapacity) ''Write cursor overflow'' (
        let rb = rb\<lparr>m_writeCursor := (m_writeCursor rb + writeSize) mod kCapacity\<rparr>;
            rb = rb\<lparr>m_isFull := (m_writeCursor rb = m_readCursor rb)\<rparr>;
            rb = rb\<lparr>m_isActiveWriter := False\<rparr>
        in Inr (RingBufferWriter_Clear h, rb)))))"

definition RingBuffer_Clear :: "build \<Rightarrow> RingBuffer \<Rightarrow> RingBuffer res" where
  "RingBuffer_Clear b rb =
     ASSERT b (\<not> m_isActiveWriter rb) ''Writer is still active'' (
     ASSERT b (\<not> m_isActiveReader rb) ''Reader is still active'' (
     Inr (rb\<lparr>m_writeCursor := 0, m_readCursor := 0, m_tailCursor := kCapacity, m_isFull := False\<rparr>)))"

definition RingBuffer_CommitRead ::
    "build \<Rightarrow> RingBuffer \<Rightarrow> RingBufferReader \<Rightarrow> UINT32 \<Rightarrow> (RingBufferReader \<times> RingBuffer) res" where
  "RingBuffer_CommitRead b rb h readSize =
     ASSERT b (RingBufferReader_IsValid h) ''Reader is invalid'' (
     ASSERT b (m_isActiveReader rb) ''No active reader'' (
     let readSize = (if 0 = readSize then RingBufferReader_GetSize h else readSize)
     in ASSERT b (readSize \<le> RingBufferReader_GetSize h) ''Read size exceeds reserved size'' (
        let rb = rb\<lparr>m_readCursor := m_readCursor rb + readSize\<rparr>
        in ASSERT b (m_readCursor rb \<le> m_tailCursor rb) ''Read cursor overflow'' (
           let rb = (if m_readCursor rb = m_tailCursor rb
                     then rb\<lparr>m_readCursor := 0, m_tailCursor := kCapacity\<rparr> else rb);
               rb = rb\<lparr>m_isFull := False, m_isActiveReader := False\<rparr>
           in bind_res (if \<not> m_isActiveWriter rb \<and> m_readCursor rb = m_writeCursor rb
                        then RingBuffer_Clear b rb else Inr rb)
                (\<lambda>rb. Inr (RingBufferReader_Clear h, rb))))))"

section \<open>Handle operations that go through the owner\<close>

text \<open>\<open>rb\<close> is the buffer at \<open>m_owner\<close>; a null owner is dereferenced in the build without assertions.\<close>

definition RingBufferReader_Commit ::
    "build \<Rightarrow> RingBuffer \<Rightarrow> RingBufferReader \<Rightarrow> UINT32 \<Rightarrow> (RingBufferReader \<times> RingBuffer) res" where
  "RingBufferReader_Commit b rb h readSize =
     ASSERT b (RingBufferReader_IsValid h) ''Reader is invalid'' (
     if rd_owner h = None then Inl NullDeref
     else bind_res (RingBuffer_CommitRead b rb h readSize)
            (\<lambda>(h, rb). Inr (RingBufferReader_Clear h, rb)))"

definition RingBufferReader_GiveUp ::
    "build \<Rightarrow> RingBuffer \<Rightarrow> RingBufferReader \<Rightarrow> (RingBufferReader \<times> RingBuffer) res" where
  "RingBufferReader_GiveUp b rb h =
     ASSERT b (RingBufferReader_IsValid h) ''Reader is invalid'' (
     if rd_owner h = None then Inl NullDeref
     else bind_res (RingBuffer_GiveUpReader b rb h)
            (\<lambda>(h, rb). Inr (RingBufferReader_Clear h, rb)))"

definition RingBufferReader_delete :: "build \<Rightarrow> RingBuffer \<Rightarrow> RingBufferReader \<Rightarrow> RingBuffer res" where
  "RingBufferReader_delete b rb h =
     (if RingBufferReader_IsValid h
      then bind_res (RingBuffer_CommitRead b rb h 0) (\<lambda>(h, rb). Inr rb)
      else Inr rb)"

definition RingBufferWriter_Commit ::
    "build \<Rightarrow> RingBuffer \<Rightarrow> RingBufferWriter \<Rightarrow> UINT32 \<Rightarrow> (RingBufferWriter \<times> RingBuffer) res" where
  "RingBufferWriter_Commit b rb h writeSize =
     ASSERT b (RingBufferWriter_IsValid h) ''Writer is invalid'' (
     if wr_owner h = None then Inl NullDeref
     else bind_res (RingBuffer_CommitWrite b rb h writeSize)
            (\<lambda>(h, rb). Inr (RingBufferWriter_Clear h, rb)))"

definition RingBufferWriter_GiveUp ::
    "build \<Rightarrow> RingBuffer \<Rightarrow> RingBufferWriter \<Rightarrow> (RingBufferWriter \<times> RingBuffer) res" where
  "RingBufferWriter_GiveUp b rb h =
     ASSERT b (RingBufferWriter_IsValid h) ''Writer is invalid'' (
     if wr_owner h = None then Inl NullDeref
     else bind_res (RingBuffer_GiveUpWriter b rb h)
            (\<lambda>(h, rb). Inr (RingBufferWriter_Clear h, rb)))"

definition RingBufferWriter_delete :: "build \<Rightarrow> RingBuffer \<Rightarrow> RingBufferWriter \<Rightarrow> RingBuffer res" where
  "RingBufferWriter_delete b rb h =
     (if RingBufferWriter_IsValid h
      then bind_res (RingBufferWriter_Commit b rb h 0) (\<lambda>(h, rb). Inr rb)
      else Inr rb)"

text \<open>Client access to the memory behind a handle: stores and loads through \<^verbatim>\<open>GetPtr(offset)\<close>.\<close>

definition RingBufferWriter_store ::
    "build \<Rightarrow> RingBuffer \<Rightarrow> RingBufferWriter \<Rightarrow> UINT32 \<Rightarrow> BYTE list \<Rightarrow> RingBuffer res" where
  "RingBufferWriter_store b rb h offset bs =
     bind_res (RingBufferWriter_GetPtr b h offset)
       (\<lambda>ptr. case ptr of
          None \<Rightarrow> Inl NullDeref
        | Some p \<Rightarrow>
            if unat p + length bs \<le> length (m_ring rb)
            then Inr (rb\<lparr>m_ring := memcpy_at (m_ring rb) (unat p) bs\<rparr>)
            else Inl OutOfBounds)"

definition RingBufferReader_load :: "RingBuffer \<Rightarrow> RingBufferReader \<Rightarrow> UINT32 \<Rightarrow> BYTE list" where
  "RingBufferReader_load rb h n =
     (case rd_ptr h of
        None \<Rightarrow> []
      | Some p \<Rightarrow> subarray (m_ring rb) (unat p) (unat p + unat n))"

end
