(* ===== verification/Ring_Buffer_Inv.thy ===== *)
theory Ring_Buffer_Inv
  imports Ring_Buffer
begin

text \<open>
  The invariant of the ring buffer and of its two live handles, and the bytes it holds. Every
  operation keeps the invariant, from which follows where a handle's region lies: a writer's
  region never touches an unread byte, a reader's region is always a prefix of the unread bytes.
\<close>

section \<open>The invariant\<close>

abbreviation cap :: nat where "cap \<equiv> 16384"

lemma unat_kCapacity [simp]: "unat kCapacity = cap"
  by (simp add: kCapacity_def)

lemma kCapacity_pos [simp]: "0 < kCapacity" "kCapacity \<noteq> 0"
  by (simp_all add: kCapacity_def)

definition rN :: "RingBuffer \<Rightarrow> nat" where "rN rb = unat (m_readCursor rb)"
definition wN :: "RingBuffer \<Rightarrow> nat" where "wN rb = unat (m_writeCursor rb)"
definition tN :: "RingBuffer \<Rightarrow> nat" where "tN rb = unat (m_tailCursor rb)"

named_theorems rb_simps \<open>the cursors of a ring buffer and the results of its operations\<close>

lemmas cursor_defs [rb_simps] = rN_def wN_def tN_def

text \<open>
  Between operations: the cursors are inside the array, \<open>m_tailCursor\<close> bounds the data only
  while the writer is behind the reader, a full buffer has no writer, and \<open>m_isFull\<close> holds
  with different cursors only when the reader has jumped to the start.
\<close>

definition rb_wf :: "RingBuffer \<Rightarrow> bool" where
  "rb_wf rb \<longleftrightarrow>
     length (m_ring rb) = cap \<and> rN rb < cap \<and> wN rb < cap \<and> rN rb \<le> tN rb \<and> tN rb \<le> cap \<and>
     (rN rb < wN rb \<longrightarrow> tN rb = cap) \<and>
     (rN rb = wN rb \<and> \<not> m_isFull rb \<longrightarrow> tN rb = cap) \<and>
     (rN rb = 0 \<longrightarrow> tN rb = cap) \<and>
     (wN rb < rN rb \<longrightarrow> \<not> m_isFull rb) \<and>
     (m_isFull rb \<longrightarrow> \<not> m_isActiveWriter rb \<and> (rN rb = wN rb \<or> rN rb = 0))"

text \<open>How many bytes can be read, and written, in one piece at the cursors.\<close>

definition read_room :: "RingBuffer \<Rightarrow> nat" where
  "read_room rb =
     (if rN rb < wN rb then wN rb - rN rb
      else if rN rb = wN rb \<and> \<not> m_isFull rb then 0
      else tN rb - rN rb)"

definition write_room :: "RingBuffer \<Rightarrow> nat" where
  "write_room rb =
     (if m_isFull rb then 0
      else if rN rb \<le> wN rb then cap - wN rb
      else rN rb - wN rb)"

text \<open>A live handle covers a region at its cursor, within the room there is.\<close>

definition wr_ok :: "RingBuffer \<Rightarrow> RingBufferWriter \<Rightarrow> bool" where
  "wr_ok rb h \<longleftrightarrow>
     (if m_isActiveWriter rb
      then wr_owner h = Some (m_this rb) \<and> wr_ptr h = Some (m_writeCursor rb) \<and>
           0 < unat (wr_size h) \<and> unat (wr_size h) \<le> write_room rb
      else h = RingBufferWriter_null)"

definition rd_ok :: "RingBuffer \<Rightarrow> RingBufferReader \<Rightarrow> bool" where
  "rd_ok rb h \<longleftrightarrow>
     (if m_isActiveReader rb
      then rd_owner h = Some (m_this rb) \<and> rd_ptr h = Some (m_readCursor rb) \<and>
           0 < unat (rd_size h) \<and> unat (rd_size h) \<le> read_room rb
      else h = RingBufferReader_null)"

text \<open>The unread bytes, oldest first.\<close>

definition rb_contents :: "RingBuffer \<Rightarrow> BYTE list" where
  "rb_contents rb =
     (if rN rb < wN rb then subarray (m_ring rb) (rN rb) (wN rb)
      else if rN rb = wN rb \<and> \<not> m_isFull rb then []
      else subarray (m_ring rb) (rN rb) (tN rb) @ subarray (m_ring rb) 0 (wN rb))"

section \<open>Handles\<close>

lemma Clear_null [simp]:
  "RingBufferWriter_Clear w = RingBufferWriter_null"
  "RingBufferReader_Clear r = RingBufferReader_null"
  by (simp_all add: RingBufferWriter_Clear_def RingBufferWriter_null_def
      RingBufferReader_Clear_def RingBufferReader_null_def)

lemma IsValid_null [simp]:
  "\<not> RingBufferWriter_IsValid RingBufferWriter_null"
  "\<not> RingBufferReader_IsValid RingBufferReader_null"
  by (simp_all add: RingBufferWriter_IsValid_def RingBufferWriter_null_def
      RingBufferReader_IsValid_def RingBufferReader_null_def)

lemma cursor_eq:
  "m_readCursor rb = m_writeCursor rb \<longleftrightarrow> rN rb = wN rb"
  "m_writeCursor rb = m_readCursor rb \<longleftrightarrow> rN rb = wN rb"
  "m_readCursor rb = m_tailCursor rb \<longleftrightarrow> rN rb = tN rb"
  by (auto simp: cursor_defs word_unat_eq_iff)

lemma make_Inr [res_simps]:
  "RingBufferWriter_make b own p n = Inr w \<longleftrightarrow>
     w = \<lparr>wr_owner = own, wr_ptr = p, wr_size = n\<rparr> \<and>
     (b = Debug \<longrightarrow> RingBufferWriter_IsValid w)"
  "RingBufferReader_make b own p n = Inr r \<longleftrightarrow>
     r = \<lparr>rd_owner = own, rd_ptr = p, rd_size = n\<rparr> \<and>
     (b = Debug \<longrightarrow> RingBufferReader_IsValid r)"
  by (auto simp: RingBufferWriter_make_def RingBufferReader_make_def Let_def res_simps)

lemma wr_ok_valid: "wr_ok rb w \<Longrightarrow> RingBufferWriter_IsValid w \<longleftrightarrow> m_isActiveWriter rb"
  by (auto simp: wr_ok_def RingBufferWriter_IsValid_def RingBufferWriter_null_def word_gt_0
      split: if_splits)

lemma rd_ok_valid: "rd_ok rb r \<Longrightarrow> RingBufferReader_IsValid r \<longleftrightarrow> m_isActiveReader rb"
  by (auto simp: rd_ok_def RingBufferReader_IsValid_def RingBufferReader_null_def word_gt_0
      split: if_splits)

section \<open>The room and the contents\<close>

lemma length_rb_contents:
  "rb_wf rb \<Longrightarrow> length (rb_contents rb) =
     read_room rb + (if wN rb < rN rb \<or> (rN rb = wN rb \<and> m_isFull rb) then wN rb else 0)"
  by (auto simp: rb_wf_def rb_contents_def read_room_def)

lemma contents_Nil_iff:
  "rb_wf rb \<Longrightarrow> rb_contents rb = [] \<longleftrightarrow>
     RingBuffer_IsEmpty rb \<or> (rN rb = tN rb \<and> wN rb = 0)"
  by (auto simp: rb_wf_def rb_contents_def RingBuffer_IsEmpty_def cursor_eq subarray_eq_Nil)

text \<open>What a reader at the cursor sees is a prefix of the contents.\<close>

lemma read_prefix:
  assumes "rb_wf rb" "n \<le> read_room rb"
  shows "subarray (m_ring rb) (rN rb) (rN rb + n) = take n (rb_contents rb)"
  using assms
  by (auto simp: rb_wf_def rb_contents_def read_room_def take_subarray_le split: if_splits)

text \<open>Stores into the writer's region do not change the contents.\<close>

lemma store_keeps_contents:
  assumes "rb_wf rb" "\<not> m_isFull rb" "off + length bs \<le> wN rb + write_room rb" "wN rb \<le> off"
  shows "rb_contents (rb\<lparr>m_ring := memcpy_at (m_ring rb) off bs\<rparr>) = rb_contents rb"
    and "rb_wf (rb\<lparr>m_ring := memcpy_at (m_ring rb) off bs\<rparr>)"
  using assms
  by (auto simp: rb_wf_def rb_contents_def write_room_def cursor_defs
      subarray_memcpy_before subarray_memcpy_after split: if_splits)

section \<open>What each operation does\<close>

text \<open>A writer is refused, reserved in place, or reserved at the start after a tail skip.\<close>

lemma CreateWriter_elim:
  assumes "rb_wf rb" "RingBuffer_CreateWriter b rb n = Inr (w, rb')"
  obtains
    (refused) "w = RingBufferWriter_null" "rb' = rb"
      "write_room rb < unat n \<or> m_isFull rb"
      "m_isFull rb \<or> wN rb < rN rb \<or> rN rb < unat n"
  | (in_place) "\<not> m_isFull rb" "unat n \<le> write_room rb"
      "w = \<lparr>wr_owner = Some (m_this rb), wr_ptr = Some (m_writeCursor rb), wr_size = n\<rparr>"
      "rb' = rb\<lparr>m_isActiveWriter := True\<rparr>"
  | (tail_skip) "\<not> m_isFull rb" "rN rb \<le> wN rb" "unat n \<le> rN rb" "write_room rb < unat n"
      "w = \<lparr>wr_owner = Some (m_this rb), wr_ptr = Some 0, wr_size = n\<rparr>"
      "rb' = rb\<lparr>m_tailCursor := m_writeCursor rb, m_writeCursor := 0, m_isActiveWriter := True\<rparr>"
proof -
  have room: "unat (kCapacity - m_writeCursor rb) = cap - wN rb" if "rN rb \<le> wN rb"
    using assms(1) by (simp add: unat_sub_le rb_wf_def cursor_defs)
  have gap: "unat (m_readCursor rb - m_writeCursor rb) = rN rb - wN rb" if "wN rb < rN rb"
    using that by (simp add: unat_sub_le cursor_defs)
  show thesis
  proof (cases "m_isFull rb")
    case True
    with assms(2) show thesis
      by (intro refused) (simp_all add: RingBuffer_CreateWriter_def res_simps)
  next
    case notfull: False
    show thesis
    proof (cases "rN rb \<le> wN rb")
      case True
      note le = this
      show thesis
      proof (cases "unat n \<le> cap - wN rb")
        case True
        with assms(2) notfull le room show thesis
          by (intro in_place) (simp_all add: RingBuffer_CreateWriter_def res_simps word_nat
              write_room_def cursor_defs)
      next
        case far: False
        show thesis
        proof (cases "unat n \<le> rN rb")
          case True
          with assms(2) notfull le room far show thesis
            by (intro tail_skip) (simp_all add: RingBuffer_CreateWriter_def res_simps word_nat
                write_room_def cursor_defs)
        next
          case False
          with assms(2) notfull le room far show thesis
            by (intro refused) (simp_all add: RingBuffer_CreateWriter_def res_simps word_nat
                write_room_def cursor_defs)
        qed
      qed
    next
      case behind: False
      show thesis
      proof (cases "unat n \<le> rN rb - wN rb")
        case True
        with assms(2) notfull gap behind show thesis
          by (intro in_place) (simp_all add: RingBuffer_CreateWriter_def res_simps word_nat
              write_room_def cursor_defs)
      next
        case False
        with assms(2) notfull gap behind show thesis
          by (intro refused) (simp_all add: RingBuffer_CreateWriter_def res_simps word_nat
              write_room_def cursor_defs)
      qed
    qed
  qed
qed

lemma CreateAllWriter_elim:
  assumes "rb_wf rb" "RingBuffer_CreateAllWriter b rb = Inr (w, rb')"
  obtains
    (refused) "m_isFull rb" "w = RingBufferWriter_null" "rb' = rb"
  | (in_place) n where "\<not> m_isFull rb" "unat n = write_room rb" "0 < write_room rb"
      "w = \<lparr>wr_owner = Some (m_this rb), wr_ptr = Some (m_writeCursor rb), wr_size = n\<rparr>"
      "rb' = rb\<lparr>m_isActiveWriter := True\<rparr>"
proof -
  let ?n = "if m_readCursor rb \<le> m_writeCursor rb then kCapacity - m_writeCursor rb
            else m_readCursor rb - m_writeCursor rb"
  have n: "\<not> m_isFull rb \<Longrightarrow> unat ?n = write_room rb" and pos: "\<not> m_isFull rb \<Longrightarrow> 0 < write_room rb"
    using assms(1) by (auto simp: rb_wf_def write_room_def cursor_defs word_nat unat_sub_le)
  show thesis
  proof (cases "m_isFull rb")
    case True
    with assms(2) show thesis
      by (intro refused) (simp_all add: RingBuffer_CreateAllWriter_def res_simps)
  next
    case False
    have "?n \<noteq> 0"
    proof
      assume "?n = 0"
      then have "unat ?n = unat (0 :: UINT32)" by (rule arg_cong)
      with n[OF False] pos[OF False] show False by simp
    qed
    with False assms(2) have "w = \<lparr>wr_owner = Some (m_this rb), wr_ptr = Some (m_writeCursor rb), wr_size = ?n\<rparr>
        \<and> rb' = rb\<lparr>m_isActiveWriter := True\<rparr>"
      unfolding RingBuffer_CreateAllWriter_def Let_def by (simp only: res_simps) (auto simp: res_simps)
    with False n pos show thesis
      by (intro in_place [of ?n]) blast+
  qed
qed

text \<open>Before it reads, a reader at the tail cursor jumps to the start.\<close>

definition reader_jump :: "RingBuffer \<Rightarrow> RingBuffer" where
  "reader_jump rb =
     (if m_readCursor rb = m_tailCursor rb
      then rb\<lparr>m_readCursor := 0, m_tailCursor := kCapacity\<rparr> else rb)"

lemma reader_jump_frame [simp]:
  "m_this (reader_jump rb) = m_this rb" "m_isActiveWriter (reader_jump rb) = m_isActiveWriter rb"
  "m_isActiveReader (reader_jump rb) = m_isActiveReader rb" "m_isFull (reader_jump rb) = m_isFull rb"
  "m_ring (reader_jump rb) = m_ring rb" "m_writeCursor (reader_jump rb) = m_writeCursor rb"
  "wN (reader_jump rb) = wN rb"
  by (simp_all add: reader_jump_def wN_def)

lemma rN_reader_jump:
  "rN (reader_jump rb) = (if rN rb = tN rb then 0 else rN rb)"
  "tN (reader_jump rb) = (if rN rb = tN rb then cap else tN rb)"
  using cursor_eq(3) [of rb] by (simp_all add: reader_jump_def rN_def tN_def)

lemma read_room_0_iff:
  "rb_wf rb \<Longrightarrow> rN rb < tN rb \<Longrightarrow> read_room rb = 0 \<longleftrightarrow> RingBuffer_IsEmpty rb"
  unfolding RingBuffer_IsEmpty_def cursor_eq by (auto simp: read_room_def)

lemma reader_jump_wf:
  assumes "rb_wf rb"
  shows "rb_wf (reader_jump rb)" "rb_contents (reader_jump rb) = rb_contents rb"
    "\<not> m_isFull rb \<Longrightarrow> rN rb \<le> wN rb \<Longrightarrow> reader_jump rb = rb"
    "read_room (reader_jump rb) = 0 \<longleftrightarrow> RingBuffer_IsEmpty (reader_jump rb)"
    "rN (reader_jump rb) < tN (reader_jump rb)"
    "read_room rb \<noteq> 0 \<Longrightarrow> rN rb \<noteq> tN rb"
proof -
  show "rb_wf (reader_jump rb)"
  proof (cases "rN rb = tN rb")
    case True
    then have "rN (reader_jump rb) = 0" "tN (reader_jump rb) = cap"
      by (simp_all add: rN_reader_jump)
    with assms show ?thesis unfolding rb_wf_def by simp
  next
    case False
    then have "reader_jump rb = rb" by (simp add: reader_jump_def cursor_eq)
    with assms show ?thesis by simp
  qed
  show "rb_contents (reader_jump rb) = rb_contents rb"
  proof (cases "rN rb = tN rb")
    case True
    with assms have "\<not> rN rb < wN rb" "\<not> (rN rb = wN rb \<and> \<not> m_isFull rb)"
      by (auto simp: rb_wf_def)
    with True have "rb_contents rb = subarray (m_ring rb) 0 (wN rb)"
      unfolding rb_contents_def by auto
    moreover have "wN rb = 0 \<Longrightarrow> \<not> m_isFull rb"
      using assms True by (auto simp: rb_wf_def)
    ultimately show ?thesis
      using True by (simp add: rb_contents_def rN_reader_jump)
  next
    case False
    then show ?thesis by (simp add: reader_jump_def cursor_eq)
  qed
  show "reader_jump rb = rb" if "\<not> m_isFull rb" "rN rb \<le> wN rb"
  proof -
    from assms that have "rN rb \<noteq> tN rb" unfolding rb_wf_def by linarith
    then show ?thesis by (simp add: reader_jump_def cursor_eq)
  qed
  from assms have le: "rN rb \<le> tN rb" "rN rb < wN rb \<longrightarrow> rN rb \<noteq> tN rb"
    unfolding rb_wf_def by linarith+
  then show lt: "rN (reader_jump rb) < tN (reader_jump rb)"
    by (simp add: rN_reader_jump)
  from le show "read_room rb \<noteq> 0 \<Longrightarrow> rN rb \<noteq> tN rb"
    by (simp add: read_room_def split: if_splits)
  show "read_room (reader_jump rb) = 0 \<longleftrightarrow> RingBuffer_IsEmpty (reader_jump rb)"
    using \<open>rb_wf (reader_jump rb)\<close> lt by (rule read_room_0_iff)
qed

text \<open>A reader is refused on an empty buffer, else clamped to what is contiguous.\<close>

lemma contiguous_size:
  assumes "rb_wf rb" "\<not> RingBuffer_IsEmpty rb"
  shows "unat (if m_readCursor rb < m_writeCursor rb then m_writeCursor rb - m_readCursor rb
               else m_tailCursor rb - m_readCursor rb) = read_room rb"
  using assms unfolding RingBuffer_IsEmpty_def cursor_eq
  by (auto simp: rb_wf_def read_room_def word_nat cursor_defs unat_sub_le)

lemma unat_min32: "unat (min (x :: UINT32) y) = min (unat x) (unat y)"
  by (simp add: min_def word_nat)

lemma unat_pos_neq: "0 < unat (x :: UINT32) \<Longrightarrow> x \<noteq> 0"
  by auto

lemma CreateReader_elim:
  assumes "rb_wf rb" "0 < unat n" "RingBuffer_CreateReader b rb n = Inr (h, rb')"
  obtains
    (refused) "RingBuffer_IsEmpty (reader_jump rb)" "h = RingBufferReader_null" "rb' = reader_jump rb"
  | (reserved) k where "0 < unat k" "unat k = min (unat n) (read_room (reader_jump rb))"
      "h = \<lparr>rd_owner = Some (m_this rb), rd_ptr = Some (m_readCursor (reader_jump rb)), rd_size = k\<rparr>"
      "rb' = (reader_jump rb)\<lparr>m_isActiveReader := True\<rparr>"
proof (cases "RingBuffer_IsEmpty (reader_jump rb)")
  case True
  with assms(3) show thesis
    by (intro refused) (simp_all add: RingBuffer_CreateReader_def Let_def res_simps
        flip: reader_jump_def)
next
  case False
  let ?j = "reader_jump rb"
  let ?k = "min n (if m_readCursor ?j < m_writeCursor ?j then m_writeCursor ?j - m_readCursor ?j
                   else m_tailCursor ?j - m_readCursor ?j)"
  have k: "unat ?k = min (unat n) (read_room ?j)"
    using contiguous_size [OF reader_jump_wf(1) [OF assms(1)] False] by (simp only: unat_min32)
  have "0 < read_room ?j"
    using reader_jump_wf(4) [OF assms(1)] False by simp
  with k assms(2) have pos: "0 < unat ?k" by linarith
  have "h = \<lparr>rd_owner = Some (m_this rb), rd_ptr = Some (m_readCursor ?j), rd_size = ?k\<rparr>
      \<and> rb' = ?j\<lparr>m_isActiveReader := True\<rparr>"
    using assms(3) False unat_pos_neq [OF pos]
    unfolding RingBuffer_CreateReader_def Let_def reader_jump_def [symmetric]
    by (simp only: res_simps) (auto simp: res_simps)
  with k pos show thesis
    by (intro reserved [of ?k]) blast+
qed

lemma CreateAllReader_elim:
  assumes "rb_wf rb" "RingBuffer_CreateAllReader b rb = Inr (h, rb')"
  obtains
    (refused) "RingBuffer_IsEmpty (reader_jump rb)" "h = RingBufferReader_null" "rb' = reader_jump rb"
  | (reserved) k where "0 < unat k" "unat k = read_room (reader_jump rb)"
      "h = \<lparr>rd_owner = Some (m_this rb), rd_ptr = Some (m_readCursor (reader_jump rb)), rd_size = k\<rparr>"
      "rb' = (reader_jump rb)\<lparr>m_isActiveReader := True\<rparr>"
proof (cases "RingBuffer_IsEmpty (reader_jump rb)")
  case True
  with assms(2) show thesis
    by (intro refused) (simp_all add: RingBuffer_CreateAllReader_def Let_def res_simps
        flip: reader_jump_def)
next
  case False
  let ?j = "reader_jump rb"
  let ?k = "if m_readCursor ?j < m_writeCursor ?j then m_writeCursor ?j - m_readCursor ?j
            else m_tailCursor ?j - m_readCursor ?j"
  have k: "unat ?k = read_room ?j"
    by (rule contiguous_size [OF reader_jump_wf(1) [OF assms(1)] False])
  have pos: "0 < unat ?k"
    using k reader_jump_wf(4) [OF assms(1)] False by linarith
  have "h = \<lparr>rd_owner = Some (m_this rb), rd_ptr = Some (m_readCursor ?j), rd_size = ?k\<rparr>
      \<and> rb' = ?j\<lparr>m_isActiveReader := True\<rparr>"
    using assms(2) False unat_pos_neq [OF pos]
    unfolding RingBuffer_CreateAllReader_def Let_def reader_jump_def [symmetric]
    by (simp only: res_simps) (auto simp: res_simps)
  with k pos show thesis
    by (intro reserved [of ?k]) blast+
qed

text \<open>The state a successful commit leaves.\<close>

definition commit_size :: "UINT32 \<Rightarrow> UINT32 \<Rightarrow> nat" where
  "commit_size reserved n = (if n = 0 then unat reserved else unat n)"

lemma CommitWrite_effect:
  assumes "rb_wf rb" "wr_ok rb h" "m_isActiveWriter rb"
    and "RingBuffer_CommitWrite Debug rb h n = Inr (h', rb')"
  shows "h' = RingBufferWriter_null"
    "0 < commit_size (wr_size h) n" "commit_size (wr_size h) n \<le> unat (wr_size h)"
    "wN rb' = (wN rb + commit_size (wr_size h) n) mod cap"
    "rN rb' = rN rb" "tN rb' = tN rb" "m_isFull rb' = (wN rb' = rN rb)"
    "\<not> m_isActiveWriter rb'" "m_isActiveReader rb' = m_isActiveReader rb"
    "m_this rb' = m_this rb" "m_ring rb' = m_ring rb" "m_readCursor rb' = m_readCursor rb"
proof -
  let ?n = "if 0 = n then wr_size h else n"
  have un: "unat ?n = commit_size (wr_size h) n" by (simp add: commit_size_def)
  have le: "unat ?n \<le> unat (wr_size h)" and rb':
    "rb' = rb\<lparr>m_writeCursor := (m_writeCursor rb + ?n) mod kCapacity,
       m_isFull := ((m_writeCursor rb + ?n) mod kCapacity = m_readCursor rb),
       m_isActiveWriter := False\<rparr>" and "h' = RingBufferWriter_null"
    using assms(4)
    unfolding RingBuffer_CommitWrite_def Let_def RingBufferWriter_GetSize_def
    by (simp_all only: res_simps word_nat) (auto simp: res_simps)
  have "unat (wr_size h) \<le> cap" "0 < unat (wr_size h)" "wN rb < cap"
    using assms(1-3) by (auto simp: wr_ok_def write_room_def rb_wf_def split: if_splits)
  with le have sum: "unat (m_writeCursor rb + ?n) = wN rb + unat ?n"
    by (simp add: unat_add_small32 wN_def)
  show "h' = RingBufferWriter_null" by fact
  show "0 < commit_size (wr_size h) n"
    using \<open>0 < unat (wr_size h)\<close> by (auto simp: commit_size_def unat_gt_0)
  show "commit_size (wr_size h) n \<le> unat (wr_size h)" using le un by simp
  show "wN rb' = (wN rb + commit_size (wr_size h) n) mod cap"
    unfolding rb' un [symmetric] wN_def [of "_\<lparr>m_isActiveWriter := _\<rparr>"]
    using sum by (simp add: unat_mod_distrib)
  then show "m_isFull rb' = (wN rb' = rN rb)"
    unfolding rb' by (simp add: wN_def rN_def word_unat_eq_iff)
  show "rN rb' = rN rb" "tN rb' = tN rb"
    "\<not> m_isActiveWriter rb'" "m_isActiveReader rb' = m_isActiveReader rb"
    "m_this rb' = m_this rb" "m_ring rb' = m_ring rb" "m_readCursor rb' = m_readCursor rb"
    unfolding rb' by (simp_all add: cursor_defs)
qed

lemma CommitRead_effect:
  assumes "rb_wf rb" "rd_ok rb h" "m_isActiveReader rb"
    and "RingBuffer_CommitRead Debug rb h n = Inr (h', rb')"
  shows "h' = RingBufferReader_null"
    and "0 < commit_size (rd_size h) n" "commit_size (rd_size h) n \<le> unat (rd_size h)"
    and "\<not> m_isActiveReader rb'" "m_isActiveWriter rb' = m_isActiveWriter rb"
    "m_this rb' = m_this rb" "m_ring rb' = m_ring rb" "\<not> m_isFull rb'"
    and "\<exists>r t. (r, t) = (if rN rb + commit_size (rd_size h) n = tN rb then (0, cap)
                     else (rN rb + commit_size (rd_size h) n, tN rb)) \<and>
         (if \<not> m_isActiveWriter rb \<and> r = wN rb then rN rb' = 0 \<and> wN rb' = 0 \<and> tN rb' = cap
          else rN rb' = r \<and> m_writeCursor rb' = m_writeCursor rb \<and> tN rb' = t)"
proof -
  let ?n = "if 0 = n then rd_size h else n"
  have un: "unat ?n = commit_size (rd_size h) n" by (simp add: commit_size_def)
  let ?c = "if m_readCursor rb + ?n = m_tailCursor rb then 0 else m_readCursor rb + ?n"
  let ?t = "if m_readCursor rb + ?n = m_tailCursor rb then kCapacity else m_tailCursor rb"
  let ?m = "rb\<lparr>m_readCursor := ?c, m_tailCursor := ?t, m_isFull := False, m_isActiveReader := False\<rparr>"
  have ok: "unat ?n \<le> unat (rd_size h) \<and> h' = RingBufferReader_null \<and>
    rb' = (if \<not> m_isActiveWriter rb \<and> ?c = m_writeCursor rb
           then ?m\<lparr>m_writeCursor := 0, m_readCursor := 0, m_tailCursor := kCapacity, m_isFull := False\<rparr>
           else ?m)"
    using assms(4)
    unfolding RingBuffer_CommitRead_def Let_def RingBufferReader_GetSize_def RingBuffer_Clear_def
    by (simp only: res_simps word_nat)
      (auto simp: res_simps split: if_splits)
  have "unat (rd_size h) \<le> cap" "0 < unat (rd_size h)" "rN rb < cap" "tN rb \<le> cap"
    using assms(1-3) by (auto simp: rd_ok_def read_room_def rb_wf_def split: if_splits)
  with ok have sum: "unat (m_readCursor rb + ?n) = rN rb + unat ?n"
    by (simp add: unat_add_small32 rN_def)
  then have eq: "m_readCursor rb + ?n = m_tailCursor rb \<longleftrightarrow>
      rN rb + commit_size (rd_size h) n = tN rb"
    by (simp only: un tN_def word_unat_eq_iff [of "m_readCursor rb + ?n" "m_tailCursor rb"])
  show "h' = RingBufferReader_null" "commit_size (rd_size h) n \<le> unat (rd_size h)"
    using ok un by simp_all
  show "0 < commit_size (rd_size h) n"
    using \<open>0 < unat (rd_size h)\<close> by (auto simp: commit_size_def unat_gt_0)
  show "\<not> m_isActiveReader rb'" "m_isActiveWriter rb' = m_isActiveWriter rb"
    "m_this rb' = m_this rb" "m_ring rb' = m_ring rb" "\<not> m_isFull rb'"
    using ok by simp_all
  have uc: "unat ?c = (if rN rb + commit_size (rd_size h) n = tN rb then 0
                       else rN rb + commit_size (rd_size h) n)"
    using eq sum un by simp
  have ut: "unat ?t = (if rN rb + commit_size (rd_size h) n = tN rb then cap else tN rb)"
    using eq by (simp add: tN_def)
  have "?c = m_writeCursor rb \<longleftrightarrow> unat ?c = wN rb"
    by (simp only: word_unat_eq_iff wN_def)
  then have "if \<not> m_isActiveWriter rb \<and> unat ?c = wN rb
      then rN rb' = 0 \<and> wN rb' = 0 \<and> tN rb' = cap
      else rN rb' = unat ?c \<and> m_writeCursor rb' = m_writeCursor rb \<and> tN rb' = unat ?t"
    using ok by (simp add: rN_def wN_def tN_def)
  then show "\<exists>r t. (r, t) = (if rN rb + commit_size (rd_size h) n = tN rb then (0, cap)
                     else (rN rb + commit_size (rd_size h) n, tN rb)) \<and>
         (if \<not> m_isActiveWriter rb \<and> r = wN rb then rN rb' = 0 \<and> wN rb' = 0 \<and> tN rb' = cap
          else rN rb' = r \<and> m_writeCursor rb' = m_writeCursor rb \<and> tN rb' = t)"
    unfolding uc ut by (intro exI [of _ "unat ?c"] exI [of _ "unat ?t"]) (simp only: uc ut split: if_split, simp)
qed

section \<open>Every operation keeps the invariant\<close>

lemma rd_ok_mono:
  assumes "rd_ok rb h" "m_isActiveReader rb' = m_isActiveReader rb" "m_this rb' = m_this rb"
    "m_isActiveReader rb \<Longrightarrow> m_readCursor rb' = m_readCursor rb"
    "m_isActiveReader rb \<Longrightarrow> read_room rb \<le> read_room rb'"
  shows "rd_ok rb' h"
  using assms by (auto simp: rd_ok_def split: if_splits)

lemma wr_ok_mono:
  assumes "wr_ok rb h" "m_isActiveWriter rb' = m_isActiveWriter rb" "m_this rb' = m_this rb"
    "m_isActiveWriter rb \<Longrightarrow> m_writeCursor rb' = m_writeCursor rb"
    "m_isActiveWriter rb \<Longrightarrow> write_room rb \<le> write_room rb'"
  shows "wr_ok rb' h"
  using assms by (auto simp: wr_ok_def split: if_splits)

text \<open>Reserving in place, and skipping the tail.\<close>

lemma activate_writer [simp]:
  "rN (rb\<lparr>m_isActiveWriter := x\<rparr>) = rN rb" "wN (rb\<lparr>m_isActiveWriter := x\<rparr>) = wN rb"
  "tN (rb\<lparr>m_isActiveWriter := x\<rparr>) = tN rb"
  "read_room (rb\<lparr>m_isActiveWriter := x\<rparr>) = read_room rb"
  "write_room (rb\<lparr>m_isActiveWriter := x\<rparr>) = write_room rb"
  "rb_contents (rb\<lparr>m_isActiveWriter := x\<rparr>) = rb_contents rb"
  by (simp_all add: rN_def wN_def tN_def read_room_def write_room_def rb_contents_def)

lemma activate_reader [simp]:
  "rN (rb\<lparr>m_isActiveReader := x\<rparr>) = rN rb" "wN (rb\<lparr>m_isActiveReader := x\<rparr>) = wN rb"
  "tN (rb\<lparr>m_isActiveReader := x\<rparr>) = tN rb"
  "read_room (rb\<lparr>m_isActiveReader := x\<rparr>) = read_room rb"
  "write_room (rb\<lparr>m_isActiveReader := x\<rparr>) = write_room rb"
  "rb_contents (rb\<lparr>m_isActiveReader := x\<rparr>) = rb_contents rb"
  "rb_wf (rb\<lparr>m_isActiveReader := x\<rparr>) = rb_wf rb"
  by (simp_all add: rN_def wN_def tN_def read_room_def write_room_def rb_contents_def rb_wf_def)

lemma activate_writer_wf:
  "rb_wf rb \<Longrightarrow> \<not> m_isFull rb \<or> \<not> x \<Longrightarrow> rb_wf (rb\<lparr>m_isActiveWriter := x\<rparr>)"
  by (auto simp: rb_wf_def)

definition skip_tail :: "RingBuffer \<Rightarrow> RingBuffer" where
  "skip_tail rb = rb\<lparr>m_tailCursor := m_writeCursor rb, m_writeCursor := 0, m_isActiveWriter := True\<rparr>"

lemma skip_tail_fields [simp]:
  "rN (skip_tail rb) = rN rb" "wN (skip_tail rb) = 0" "tN (skip_tail rb) = wN rb"
  "m_isFull (skip_tail rb) = m_isFull rb" "m_isActiveWriter (skip_tail rb)"
  "m_isActiveReader (skip_tail rb) = m_isActiveReader rb" "m_this (skip_tail rb) = m_this rb"
  "m_ring (skip_tail rb) = m_ring rb" "m_readCursor (skip_tail rb) = m_readCursor rb"
  "m_writeCursor (skip_tail rb) = 0"
  by (simp_all add: skip_tail_def rN_def wN_def tN_def)

lemma skip_tail_wf:
  assumes "rb_wf rb" "\<not> m_isFull rb" "rN rb \<le> wN rb" "0 < rN rb"
  shows "rb_wf (skip_tail rb)" "read_room (skip_tail rb) = read_room rb"
    "rb_contents (skip_tail rb) = rb_contents rb" "write_room (skip_tail rb) = rN rb"
  using assms by (auto simp: rb_wf_def read_room_def rb_contents_def write_room_def)

lemma CreateWriter_inv:
  assumes "rb_wf rb" "rd_ok rb r" "wr_ok rb w0" "\<not> m_isActiveWriter rb" "0 < unat n"
    and "RingBuffer_CreateWriter b rb n = Inr (w, rb')"
  shows "rb_wf rb' \<and> rd_ok rb' r \<and> wr_ok rb' w \<and> rb_contents rb' = rb_contents rb"
  using assms(1,6)
proof (cases rule: CreateWriter_elim)
  case refused
  with assms show ?thesis by (simp add: wr_ok_def)
next
  case in_place
  with assms have "rd_ok rb' r" by (intro rd_ok_mono [OF assms(2)]) simp_all
  with in_place assms show ?thesis by (simp add: activate_writer_wf wr_ok_def)
next
  case tail_skip
  then have rb': "rb' = skip_tail rb" by (simp add: skip_tail_def)
  have "0 < rN rb" using tail_skip assms(5) by linarith
  note skip = skip_tail_wf [OF assms(1) tail_skip(1,2) this]
  have "rd_ok rb' r" unfolding rb' by (intro rd_ok_mono [OF assms(2)]) (simp_all add: skip)
  with tail_skip assms skip show ?thesis unfolding rb' by (simp add: wr_ok_def)
qed

lemma CreateAllWriter_inv:
  assumes "rb_wf rb" "rd_ok rb r" "wr_ok rb w0" "\<not> m_isActiveWriter rb"
    and "RingBuffer_CreateAllWriter b rb = Inr (w, rb')"
  shows "rb_wf rb' \<and> rd_ok rb' r \<and> wr_ok rb' w \<and> rb_contents rb' = rb_contents rb"
  using assms(1,5)
proof (cases rule: CreateAllWriter_elim)
  case refused
  with assms show ?thesis by (simp add: wr_ok_def)
next
  case in_place
  with assms have "rd_ok rb' r" by (intro rd_ok_mono [OF assms(2)]) simp_all
  with in_place assms show ?thesis by (simp add: activate_writer_wf wr_ok_def)
qed

lemma reader_jump_wr_ok:
  assumes "rb_wf rb" "wr_ok rb w"
  shows "wr_ok (reader_jump rb) w"
proof -
  have "write_room rb \<le> write_room (reader_jump rb)"
    using assms(1) by (cases "rN rb = tN rb") (auto simp: rb_wf_def write_room_def rN_reader_jump)
  then show ?thesis by (intro wr_ok_mono [OF assms(2)]) simp_all
qed

lemma CreateReader_inv_aux:
  assumes "rb_wf rb" "wr_ok rb w" "\<not> m_isActiveReader rb"
    and "0 < unat k" "unat k \<le> read_room (reader_jump rb)"
  shows "rb_wf (reader_jump rb)" "wr_ok (reader_jump rb) w"
    "rd_ok ((reader_jump rb)\<lparr>m_isActiveReader := True\<rparr>)
       \<lparr>rd_owner = Some (m_this rb), rd_ptr = Some (m_readCursor (reader_jump rb)), rd_size = k\<rparr>"
    "wr_ok ((reader_jump rb)\<lparr>m_isActiveReader := True\<rparr>) w"
proof -
  note jump = reader_jump_wf [OF assms(1)]
  show "rb_wf (reader_jump rb)" by (rule jump)
  show wr: "wr_ok (reader_jump rb) w" using assms(1,2) by (rule reader_jump_wr_ok)
  then show "wr_ok ((reader_jump rb)\<lparr>m_isActiveReader := True\<rparr>) w"
    by (intro wr_ok_mono [OF wr]) simp_all
  show "rd_ok ((reader_jump rb)\<lparr>m_isActiveReader := True\<rparr>)
       \<lparr>rd_owner = Some (m_this rb), rd_ptr = Some (m_readCursor (reader_jump rb)), rd_size = k\<rparr>"
    using assms by (simp add: rd_ok_def)
qed

lemma CreateReader_inv:
  assumes "rb_wf rb" "wr_ok rb w" "rd_ok rb r0" "\<not> m_isActiveReader rb" "0 < unat n"
    and "RingBuffer_CreateReader b rb n = Inr (r, rb')"
  shows "rb_wf rb' \<and> rd_ok rb' r \<and> wr_ok rb' w \<and> rb_contents rb' = rb_contents rb"
  using assms(1,5,6)
proof (cases rule: CreateReader_elim)
  case refused
  have "wr_ok (reader_jump rb) w" using assms(1,2) by (rule reader_jump_wr_ok)
  with refused assms reader_jump_wf [OF assms(1)] show ?thesis by (simp add: rd_ok_def)
next
  case (reserved k)
  with CreateReader_inv_aux [OF assms(1,2,4), of k] reader_jump_wf [OF assms(1)]
  show ?thesis by simp
qed

lemma CreateAllReader_inv:
  assumes "rb_wf rb" "wr_ok rb w" "rd_ok rb r0" "\<not> m_isActiveReader rb"
    and "RingBuffer_CreateAllReader b rb = Inr (r, rb')"
  shows "rb_wf rb' \<and> rd_ok rb' r \<and> wr_ok rb' w \<and> rb_contents rb' = rb_contents rb"
  using assms(1,5)
proof (cases rule: CreateAllReader_elim)
  case refused
  have "wr_ok (reader_jump rb) w" using assms(1,2) by (rule reader_jump_wr_ok)
  with refused assms reader_jump_wf [OF assms(1)] show ?thesis by (simp add: rd_ok_def)
next
  case (reserved k)
  with CreateReader_inv_aux [OF assms(1,2,4), of k] reader_jump_wf [OF assms(1)]
  show ?thesis by simp
qed

text \<open>Commits: the writer's bytes join the contents, the reader's leave them.\<close>

lemma CommitWrite_inv:
  assumes "rb_wf rb" "wr_ok rb w" "rd_ok rb r" "m_isActiveWriter rb"
    and "RingBuffer_CommitWrite Debug rb w n = Inr (w', rb')"
  shows "rb_wf rb' \<and> rd_ok rb' r \<and> wr_ok rb' w' \<and>
    rb_contents rb' = rb_contents rb @
      subarray (m_ring rb) (wN rb) (wN rb + commit_size (wr_size w) n)"
proof -
  let ?n = "commit_size (wr_size w) n"
  note e = CommitWrite_effect [OF assms(1,2,4,5)]
  from assms(1,4) have wf: "\<not> m_isFull rb" "length (m_ring rb) = cap" "rN rb < cap" "wN rb < cap"
    "rN rb \<le> tN rb" "tN rb \<le> cap" "rN rb \<le> wN rb \<Longrightarrow> tN rb = cap" "rN rb = 0 \<Longrightarrow> tN rb = cap"
    by (auto simp: rb_wf_def)
  from assms(2,4) wf e(3) have room: "wN rb + ?n \<le> (if rN rb \<le> wN rb then cap else rN rb)"
    by (auto simp: wr_ok_def write_room_def split: if_splits)
  consider (at_end) "rN rb \<le> wN rb" "wN rb + ?n = cap" "wN rb' = 0"
    | (ahead) "rN rb \<le> wN rb" "wN rb + ?n < cap" "wN rb' = wN rb + ?n"
    | (behind) "wN rb < rN rb" "wN rb + ?n \<le> rN rb" "wN rb' = wN rb + ?n"
    using room wf(3) e(4) by (auto split: if_splits) linarith
  then show ?thesis
  proof cases
    case at_end
    then have "rb_wf rb'" "read_room rb \<le> read_room rb'"
      using e wf by (auto simp: rb_wf_def read_room_def)
    moreover have "rb_contents rb' = rb_contents rb @ subarray (m_ring rb) (wN rb) cap"
      using at_end e wf
      by (cases "rN rb = wN rb") (auto simp: rb_contents_def subarray_append)
    moreover have "rd_ok rb' r"
      using e \<open>read_room rb \<le> read_room rb'\<close> by (intro rd_ok_mono [OF assms(3)]) simp_all
    ultimately show ?thesis using at_end e by (simp add: wr_ok_def)
  next
    case ahead
    then have "rb_wf rb'" "read_room rb \<le> read_room rb'"
      using e wf by (auto simp: rb_wf_def read_room_def)
    moreover have "rb_contents rb' = rb_contents rb @ subarray (m_ring rb) (wN rb) (wN rb + ?n)"
      using ahead e(2) wf e(5-7,11)
      by (cases "rN rb = wN rb") (auto simp: rb_contents_def subarray_append)
    moreover have "rd_ok rb' r"
      using e \<open>read_room rb \<le> read_room rb'\<close> by (intro rd_ok_mono [OF assms(3)]) simp_all
    ultimately show ?thesis using e by (simp add: wr_ok_def)
  next
    case behind
    then have "rb_wf rb'" "read_room rb \<le> read_room rb'"
      using e wf by (auto simp: rb_wf_def read_room_def)
    moreover have "rb_contents rb' = rb_contents rb @ subarray (m_ring rb) (wN rb) (wN rb + ?n)"
      using behind e(2) wf e(5-7,11) by (auto simp: rb_contents_def subarray_append)
    moreover have "rd_ok rb' r"
      using e \<open>read_room rb \<le> read_room rb'\<close> by (intro rd_ok_mono [OF assms(3)]) simp_all
    ultimately show ?thesis using e by (simp add: wr_ok_def)
  qed
qed

text \<open>
  Where the cursors are after a read of \<open>k\<close> bytes: still before the writer, still before the
  tail, or at the start; an empty buffer without writer is reset.
\<close>

lemma CommitRead_cursors:
  assumes "rb_wf rb" "rd_ok rb r" "m_isActiveReader rb"
    and "RingBuffer_CommitRead Debug rb r n = Inr (r', rb')"
  defines "k \<equiv> commit_size (rd_size r) n"
  obtains
    (before_writer) "rN rb < wN rb" "rN rb + k \<le> wN rb" "tN rb' = cap"
      "rN rb + k < wN rb \<or> m_isActiveWriter rb"
      "rN rb' = rN rb + k" "m_writeCursor rb' = m_writeCursor rb"
  | (before_tail) "wN rb \<le> rN rb" "rN rb + k < tN rb" "tN rb' = tN rb"
      "rN rb' = rN rb + k" "m_writeCursor rb' = m_writeCursor rb"
  | (at_tail) "wN rb \<le> rN rb" "rN rb + k = tN rb" "tN rb' = cap" "0 < wN rb \<or> m_isActiveWriter rb"
      "rN rb' = 0" "m_writeCursor rb' = m_writeCursor rb"
  | (reset) "\<not> m_isActiveWriter rb" "rN rb' = 0" "wN rb' = 0" "tN rb' = cap"
      "drop k (rb_contents rb) = []"
proof -
  note e = CommitRead_effect [OF assms(1-4), folded k_def]
  obtain p t where pt: "(p, t) = (if rN rb + k = tN rb then (0, cap) else (rN rb + k, tN rb))"
    "if \<not> m_isActiveWriter rb \<and> p = wN rb then rN rb' = 0 \<and> wN rb' = 0 \<and> tN rb' = cap
     else rN rb' = p \<and> m_writeCursor rb' = m_writeCursor rb \<and> tN rb' = t"
    using e(9) by blast
  have k: "0 < k" "k \<le> read_room rb"
    using e(2,3) assms(2,3) by (auto simp: rd_ok_def)
  from assms(1) have wf: "rN rb < cap" "wN rb < cap" "tN rb \<le> cap" "rN rb < wN rb \<Longrightarrow> tN rb = cap"
    "length (m_ring rb) = cap"
    by (auto simp: rb_wf_def)
  show thesis
  proof (cases "rN rb < wN rb")
    case True
    with k wf have lt: "rN rb + k \<le> wN rb" "rN rb + k \<noteq> tN rb" "tN rb = cap"
      by (auto simp: read_room_def)
    then have p: "p = rN rb + k" "t = cap" using pt(1) by simp_all
    show thesis
    proof (cases "\<not> m_isActiveWriter rb \<and> p = wN rb")
      case True
      with p \<open>rN rb < wN rb\<close> have "drop k (rb_contents rb) = []"
        by (simp add: rb_contents_def drop_subarray)
      with True pt(2) show thesis by (intro reset) simp_all
    next
      case False
      then have "rN rb + k < wN rb \<or> m_isActiveWriter rb" using p lt by auto
      with False \<open>rN rb < wN rb\<close> lt p pt(2) show thesis by (intro before_writer) simp_all
    qed
  next
    case False
    with k have room: "rN rb + k \<le> tN rb" "\<not> (rN rb = wN rb \<and> \<not> m_isFull rb)"
      by (auto simp: read_room_def split: if_splits)
    show thesis
    proof (cases "rN rb + k = tN rb")
      case True
      then have p: "p = 0" "t = cap" using pt(1) by simp_all
      show thesis
      proof (cases "\<not> m_isActiveWriter rb \<and> wN rb = 0")
        case empty: True
        with False room have "rb_contents rb = subarray (m_ring rb) (rN rb) (tN rb)"
          unfolding rb_contents_def by auto
        with True have "drop k (rb_contents rb) = []" by (simp add: drop_subarray)
        with empty p pt(2) show thesis by (intro reset) simp_all
      next
        case notempty: False
        then have "0 < wN rb \<or> m_isActiveWriter rb" by auto
        with notempty False True p pt(2) show thesis by (intro at_tail) auto
      qed
    next
      case neq: False
      then have p: "p = rN rb + k" "t = tN rb" using pt(1) by simp_all
      with False k have "p \<noteq> wN rb" by linarith
      with p pt(2) have "rN rb' = rN rb + k" "m_writeCursor rb' = m_writeCursor rb" "tN rb' = tN rb"
        by simp_all
      with False room neq show thesis by (intro before_tail) simp_all
    qed
  qed
qed

lemma CommitRead_inv:
  assumes "rb_wf rb" "wr_ok rb w" "rd_ok rb r" "m_isActiveReader rb"
    and "RingBuffer_CommitRead Debug rb r n = Inr (r', rb')"
  shows "rb_wf rb' \<and> rd_ok rb' r' \<and> wr_ok rb' w \<and>
    rb_contents rb' = drop (commit_size (rd_size r) n) (rb_contents rb)"
  using assms(1,3-5)
proof (cases rule: CommitRead_cursors)
  case before_writer
  note e = CommitRead_effect [OF assms(1,3,4,5)]
  from before_writer have w: "wN rb' = wN rb" by (simp add: wN_def)
  have "rb_wf rb'" using before_writer e w assms(1) by (auto simp: rb_wf_def)
  moreover have "rb_contents rb' = drop (commit_size (rd_size r) n) (rb_contents rb)"
    using before_writer e w by (auto simp: rb_contents_def drop_subarray)
  moreover have "m_isActiveWriter rb \<Longrightarrow> \<not> m_isFull rb"
    using assms(1) by (auto simp: rb_wf_def)
  then have "wr_ok rb' w"
    using before_writer e w by (intro wr_ok_mono [OF assms(2)]) (simp_all add: write_room_def)
  ultimately show ?thesis using e by (simp add: rd_ok_def)
next
  case before_tail
  note e = CommitRead_effect [OF assms(1,3,4,5)]
  from before_tail have w: "wN rb' = wN rb" by (simp add: wN_def)
  have nz: "\<not> (rN rb = wN rb \<and> \<not> m_isFull rb)"
    using e(2,3) assms(3,4) by (auto simp: rd_ok_def read_room_def split: if_splits)
  then have "rb_contents rb' = drop (commit_size (rd_size r) n) (rb_contents rb)"
    using before_tail e w assms(1) by (auto simp: rb_contents_def drop_subarray rb_wf_def)
  moreover have "rb_wf rb'" using before_tail e w assms(1) by (auto simp: rb_wf_def)
  moreover have "m_isActiveWriter rb \<Longrightarrow> \<not> m_isFull rb"
    using assms(1) by (auto simp: rb_wf_def)
  moreover have "wr_ok rb' w"
    using before_tail e w nz assms(1) by (intro wr_ok_mono [OF assms(2)])
      (auto simp: write_room_def rb_wf_def)
  ultimately show ?thesis using e by (simp add: rd_ok_def)
next
  case at_tail
  note e = CommitRead_effect [OF assms(1,3,4,5)]
  from at_tail have w: "wN rb' = wN rb" by (simp add: wN_def)
  have "\<not> (rN rb = wN rb \<and> \<not> m_isFull rb)"
    using e(2,3) assms(3,4) by (auto simp: rd_ok_def read_room_def split: if_splits)
  then have "rb_contents rb' = drop (commit_size (rd_size r) n) (rb_contents rb)"
    using at_tail e w assms(1) by (auto simp: rb_contents_def drop_subarray rb_wf_def)
  moreover have "rb_wf rb'" using at_tail e w assms(1) by (auto simp: rb_wf_def)
  moreover have "wr_ok rb' w"
    using at_tail e w assms(1) by (intro wr_ok_mono [OF assms(2)])
      (auto simp: write_room_def rb_wf_def)
  ultimately show ?thesis using e by (simp add: rd_ok_def)
next
  case reset
  note e = CommitRead_effect [OF assms(1,3,4,5)]
  have "rb_wf rb'" using reset e assms(1) by (auto simp: rb_wf_def)
  moreover have "rb_contents rb' = []" using reset e by (simp add: rb_contents_def)
  moreover have "wr_ok rb' w" using assms(2) reset e by (simp add: wr_ok_def)
  ultimately show ?thesis using e reset by (simp add: rd_ok_def)
qed

end
