(* ===== verification/Ring_Buffer_System.thy ===== *)
theory Ring_Buffer_System
  imports Ring_Buffer_Inv
begin

text \<open>
  The ring buffer in use: one buffer, its current writer and reader handle, and the client's
  calls in any order. The ghost fields \<open>sys_in\<close> and \<open>sys_out\<close> record the bytes committed by
  writers and by readers so far. The properties are about the reachable states of this system;
  the second half drives the buffer as \<^verbatim>\<open>RingBuffer.md\<close> describes its use and interprets the
  byte buffer interface on it.
\<close>

section \<open>The system\<close>

record RbSys =
  sys_rb :: RingBuffer
  sys_wr :: RingBufferWriter
  sys_rd :: RingBufferReader
  sys_in :: "BYTE list"
  sys_out :: "BYTE list"

datatype rb_event =
    EvCreateWriter UINT32
  | EvCreateAllWriter
  | EvStore UINT32 "BYTE list"
  | EvCommitWriter UINT32
  | EvGiveUpWriter
  | EvDropWriter
  | EvCreateReader UINT32
  | EvCreateAllReader
  | EvCommitReader UINT32
  | EvGiveUpReader
  | EvDropReader

definition written :: "RbSys \<Rightarrow> UINT32 \<Rightarrow> BYTE list" where
  "written s n = subarray (m_ring (sys_rb s)) (wN (sys_rb s))
     (wN (sys_rb s) + commit_size (wr_size (sys_wr s)) n)"

definition consumed :: "RbSys \<Rightarrow> UINT32 \<Rightarrow> BYTE list" where
  "consumed s n = subarray (m_ring (sys_rb s)) (rN (sys_rb s))
     (rN (sys_rb s) + commit_size (rd_size (sys_rd s)) n)"

fun rb_do :: "build \<Rightarrow> RbSys \<Rightarrow> rb_event \<Rightarrow> RbSys res" where
  "rb_do b s (EvCreateWriter n) =
     bind_res (RingBuffer_CreateWriter b (sys_rb s) n)
       (\<lambda>(w, rb). Inr (s\<lparr>sys_rb := rb, sys_wr := w\<rparr>))"
| "rb_do b s EvCreateAllWriter =
     bind_res (RingBuffer_CreateAllWriter b (sys_rb s))
       (\<lambda>(w, rb). Inr (s\<lparr>sys_rb := rb, sys_wr := w\<rparr>))"
| "rb_do b s (EvStore off bs) =
     bind_res (RingBufferWriter_store b (sys_rb s) (sys_wr s) off bs) (\<lambda>rb. Inr (s\<lparr>sys_rb := rb\<rparr>))"
| "rb_do b s (EvCommitWriter n) =
     bind_res (RingBufferWriter_Commit b (sys_rb s) (sys_wr s) n)
       (\<lambda>(w, rb). Inr (s\<lparr>sys_rb := rb, sys_wr := w, sys_in := sys_in s @ written s n\<rparr>))"
| "rb_do b s EvGiveUpWriter =
     bind_res (RingBufferWriter_GiveUp b (sys_rb s) (sys_wr s))
       (\<lambda>(w, rb). Inr (s\<lparr>sys_rb := rb, sys_wr := w\<rparr>))"
| "rb_do b s EvDropWriter =
     bind_res (RingBufferWriter_delete b (sys_rb s) (sys_wr s))
       (\<lambda>rb. Inr (s\<lparr>sys_rb := rb, sys_wr := RingBufferWriter_null,
          sys_in := (if RingBufferWriter_IsValid (sys_wr s) then sys_in s @ written s 0 else sys_in s)\<rparr>))"
| "rb_do b s (EvCreateReader n) =
     bind_res (RingBuffer_CreateReader b (sys_rb s) n)
       (\<lambda>(r, rb). Inr (s\<lparr>sys_rb := rb, sys_rd := r\<rparr>))"
| "rb_do b s EvCreateAllReader =
     bind_res (RingBuffer_CreateAllReader b (sys_rb s))
       (\<lambda>(r, rb). Inr (s\<lparr>sys_rb := rb, sys_rd := r\<rparr>))"
| "rb_do b s (EvCommitReader n) =
     bind_res (RingBufferReader_Commit b (sys_rb s) (sys_rd s) n)
       (\<lambda>(r, rb). Inr (s\<lparr>sys_rb := rb, sys_rd := r, sys_out := sys_out s @ consumed s n\<rparr>))"
| "rb_do b s EvGiveUpReader =
     bind_res (RingBufferReader_GiveUp b (sys_rb s) (sys_rd s))
       (\<lambda>(r, rb). Inr (s\<lparr>sys_rb := rb, sys_rd := r\<rparr>))"
| "rb_do b s EvDropReader =
     bind_res (RingBufferReader_delete b (sys_rb s) (sys_rd s))
       (\<lambda>rb. Inr (s\<lparr>sys_rb := rb, sys_rd := RingBufferReader_null,
          sys_out := (if RingBufferReader_IsValid (sys_rd s) then sys_out s @ consumed s 0 else sys_out s)\<rparr>))"

text \<open>A client writes through a live handle only, inside the region it reserved.\<close>

fun stays_in_region :: "RbSys \<Rightarrow> rb_event \<Rightarrow> bool" where
  "stays_in_region s (EvStore off bs) \<longleftrightarrow>
     RingBufferWriter_IsValid (sys_wr s) \<and> unat off + length bs \<le> unat (wr_size (sys_wr s))"
| "stays_in_region s _ \<longleftrightarrow> True"

inductive rb_step :: "RbSys \<Rightarrow> RbSys \<Rightarrow> bool" where
  rb_stepI: "stays_in_region s e \<Longrightarrow> rb_do Debug s e = Inr t \<Longrightarrow> rb_step s t"

inductive_cases rb_stepE: "rb_step s t"

definition rb_init :: "RbSys \<Rightarrow> bool" where
  "rb_init s \<longleftrightarrow> (\<exists>this memory. length memory = cap \<and>
     s = \<lparr>sys_rb = RingBuffer_new this memory, sys_wr = RingBufferWriter_null,
          sys_rd = RingBufferReader_null, sys_in = [], sys_out = []\<rparr>)"

definition sys_inv :: "RbSys \<Rightarrow> bool" where
  "sys_inv s \<longleftrightarrow> rb_wf (sys_rb s) \<and> wr_ok (sys_rb s) (sys_wr s) \<and> rd_ok (sys_rb s) (sys_rd s) \<and>
     sys_in s = sys_out s @ rb_contents (sys_rb s)"

section \<open>The invariant\<close>

lemma new_inv:
  assumes "length memory = cap"
  shows "rb_wf (RingBuffer_new this memory)" "rb_contents (RingBuffer_new this memory) = []"
    "wr_ok (RingBuffer_new this memory) RingBufferWriter_null"
    "rd_ok (RingBuffer_new this memory) RingBufferReader_null"
  using assms
  by (simp_all add: RingBuffer_new_def rb_wf_def rb_contents_def cursor_defs wr_ok_def rd_ok_def)

text \<open>The handle operations in a state that satisfies the invariant.\<close>

lemma Writer_Commit_inv:
  assumes "rb_wf rb" "wr_ok rb w" "rd_ok rb r" "RingBufferWriter_Commit Debug rb w n = Inr (w', rb')"
  shows "rb_wf rb' \<and> rd_ok rb' r \<and> wr_ok rb' RingBufferWriter_null \<and> w' = RingBufferWriter_null \<and>
    rb_contents rb' = rb_contents rb @
      subarray (m_ring rb) (wN rb) (wN rb + commit_size (wr_size w) n)"
proof -
  from assms(4) have v: "RingBufferWriter_IsValid w" and c:
    "RingBuffer_CommitWrite Debug rb w n = Inr (RingBufferWriter_null, rb')" "w' = RingBufferWriter_null"
    by (auto simp: RingBufferWriter_Commit_def res_simps RingBuffer_CommitWrite_def Let_def
        split: if_splits)
  from v assms(2) have "m_isActiveWriter rb" by (simp add: wr_ok_valid)
  from CommitWrite_inv [OF assms(1-3) this c(1)] c(2) show ?thesis by simp
qed

lemma Reader_CommitRead_inv:
  assumes "rb_wf rb" "wr_ok rb w" "rd_ok rb r" "RingBuffer_CommitRead Debug rb r n = Inr (r', rb')"
  shows "rb_wf rb' \<and> rd_ok rb' RingBufferReader_null \<and> wr_ok rb' w \<and> r' = RingBufferReader_null \<and>
    rb_contents rb = subarray (m_ring rb) (rN rb) (rN rb + commit_size (rd_size r) n) @ rb_contents rb'"
proof -
  from assms(4) have "m_isActiveReader rb"
    by (auto simp: RingBuffer_CommitRead_def res_simps)
  note e = CommitRead_effect [OF assms(1,3) this assms(4)]
  note i = CommitRead_inv [OF assms(1-3) \<open>m_isActiveReader rb\<close> assms(4)]
  have "commit_size (rd_size r) n \<le> read_room rb"
    using e(3) assms(3) \<open>m_isActiveReader rb\<close> by (simp add: rd_ok_def)
  from read_prefix [OF assms(1) this] i e(1) show ?thesis by simp
qed

lemma Reader_Commit_inv:
  assumes "rb_wf rb" "wr_ok rb w" "rd_ok rb r" "RingBufferReader_Commit Debug rb r n = Inr (r', rb')"
  shows "rb_wf rb' \<and> rd_ok rb' RingBufferReader_null \<and> wr_ok rb' w \<and> r' = RingBufferReader_null \<and>
    rb_contents rb = subarray (m_ring rb) (rN rb) (rN rb + commit_size (rd_size r) n) @ rb_contents rb'"
proof -
  from assms(4) obtain h where h: "RingBuffer_CommitRead Debug rb r n = Inr (h, rb')"
    and r': "r' = RingBufferReader_null"
    by (auto simp: RingBufferReader_Commit_def res_simps split: if_splits)
  from Reader_CommitRead_inv [OF assms(1-3) h] r' show ?thesis by simp
qed

lemma GiveUp_inv:
  assumes "rb_wf rb" "wr_ok rb w" "rd_ok rb r"
  shows "RingBufferWriter_GiveUp Debug rb w = Inr (w', rb') \<Longrightarrow>
      rb_wf rb' \<and> wr_ok rb' w' \<and> rd_ok rb' r \<and> rb_contents rb' = rb_contents rb"
    and "RingBufferReader_GiveUp Debug rb r = Inr (r', rb') \<Longrightarrow>
      rb_wf rb' \<and> wr_ok rb' w \<and> rd_ok rb' r' \<and> rb_contents rb' = rb_contents rb"
proof -
  assume "RingBufferWriter_GiveUp Debug rb w = Inr (w', rb')"
  then have e: "rb' = rb\<lparr>m_isActiveWriter := False\<rparr>" "w' = RingBufferWriter_null"
    by (auto simp: RingBufferWriter_GiveUp_def RingBuffer_GiveUpWriter_def res_simps split: if_splits)
  have "rd_ok rb' r" unfolding e by (intro rd_ok_mono [OF assms(3)]) simp_all
  with assms e show "rb_wf rb' \<and> wr_ok rb' w' \<and> rd_ok rb' r \<and> rb_contents rb' = rb_contents rb"
    by (simp add: activate_writer_wf wr_ok_def)
next
  assume "RingBufferReader_GiveUp Debug rb r = Inr (r', rb')"
  then have e: "rb' = rb\<lparr>m_isActiveReader := False\<rparr>" "r' = RingBufferReader_null"
    by (auto simp: RingBufferReader_GiveUp_def RingBuffer_GiveUpReader_def res_simps split: if_splits)
  have "wr_ok rb' w" unfolding e by (intro wr_ok_mono [OF assms(2)]) simp_all
  with assms e show "rb_wf rb' \<and> wr_ok rb' w \<and> rd_ok rb' r' \<and> rb_contents rb' = rb_contents rb"
    by (simp add: rd_ok_def)
qed

lemma store_inv:
  assumes "rb_wf rb" "wr_ok rb w" "rd_ok rb r" "RingBufferWriter_IsValid w"
    and "unat off + length bs \<le> unat (wr_size w)"
    and "RingBufferWriter_store b rb w off bs = Inr rb'"
  shows "rb' = rb\<lparr>m_ring := memcpy_at (m_ring rb) (wN rb + unat off) bs\<rparr> \<and>
    rb_wf rb' \<and> wr_ok rb' w \<and> rd_ok rb' r \<and> rb_contents rb' = rb_contents rb"
proof -
  have act: "m_isActiveWriter rb" using assms(2,4) by (simp add: wr_ok_valid)
  then have full: "\<not> m_isFull rb" using assms(1) by (auto simp: rb_wf_def)
  have ptr: "wr_ptr w = Some (m_writeCursor rb)" "unat (wr_size w) \<le> write_room rb"
    using assms(2) act by (auto simp: wr_ok_def)
  have room: "wN rb + write_room rb \<le> cap"
    using assms(1) full by (auto simp: rb_wf_def write_room_def)
  with ptr assms(5) have "unat (m_writeCursor rb + off) = wN rb + unat off"
    by (simp add: unat_add_small32 wN_def)
  with assms(6) ptr have e: "rb' = rb\<lparr>m_ring := memcpy_at (m_ring rb) (wN rb + unat off) bs\<rparr>"
    by (auto simp: RingBufferWriter_store_def RingBufferWriter_GetPtr_def res_simps split: if_splits)
  have "wN rb + unat off + length bs \<le> wN rb + write_room rb" "wN rb \<le> wN rb + unat off"
    using assms(5) ptr(2) by linarith+
  note keep = store_keeps_contents [OF assms(1) full this]
  have same: "rN rb' = rN rb" "wN rb' = wN rb" "tN rb' = tN rb" "read_room rb' = read_room rb"
    "write_room rb' = write_room rb"
    unfolding e by (simp_all add: cursor_defs read_room_def write_room_def)
  have "wr_ok rb' w" using same by (intro wr_ok_mono [OF assms(2)]) (simp_all add: e)
  moreover have "rd_ok rb' r" using same by (intro rd_ok_mono [OF assms(3)]) (simp_all add: e)
  ultimately show ?thesis using keep e by simp
qed

lemma Create_asserts:
  "RingBuffer_CreateWriter Debug rb n = Inr x \<Longrightarrow> 0 < unat n \<and> \<not> m_isActiveWriter rb"
  "RingBuffer_CreateAllWriter Debug rb = Inr x \<Longrightarrow> \<not> m_isActiveWriter rb"
  "RingBuffer_CreateReader Debug rb n = Inr y \<Longrightarrow> 0 < unat n \<and> \<not> m_isActiveReader rb"
  "RingBuffer_CreateAllReader Debug rb = Inr y \<Longrightarrow> \<not> m_isActiveReader rb"
  by (simp_all add: RingBuffer_CreateWriter_def RingBuffer_CreateAllWriter_def
      RingBuffer_CreateReader_def RingBuffer_CreateAllReader_def ASSERT_Inr word_nat)

lemma rb_do_inv:
  assumes "sys_inv s" "stays_in_region s e" "rb_do Debug s e = Inr t"
  shows "sys_inv t"
proof -
  let ?rb = "sys_rb s" let ?w = "sys_wr s" let ?r = "sys_rd s"
  from assms(1) have i: "rb_wf ?rb" "wr_ok ?rb ?w" "rd_ok ?rb ?r"
    "sys_in s = sys_out s @ rb_contents ?rb" by (simp_all add: sys_inv_def)
  show ?thesis
  proof (cases e)
    case (EvCreateWriter n)
    with assms(3) obtain w rb where c: "RingBuffer_CreateWriter Debug ?rb n = Inr (w, rb)"
      "t = s\<lparr>sys_rb := rb, sys_wr := w\<rparr>" by (auto simp: bind_res_Inr)
    with CreateWriter_inv [OF i(1,3,2) _ _ c(1)] Create_asserts(1) [OF c(1)] i(4) show ?thesis
      by (simp add: sys_inv_def)
  next
    case EvCreateAllWriter
    with assms(3) obtain w rb where c: "RingBuffer_CreateAllWriter Debug ?rb = Inr (w, rb)"
      "t = s\<lparr>sys_rb := rb, sys_wr := w\<rparr>" by (auto simp: bind_res_Inr)
    with CreateAllWriter_inv [OF i(1,3,2) _ c(1)] Create_asserts(2) [OF c(1)] i(4) show ?thesis
      by (simp add: sys_inv_def)
  next
    case (EvStore off bs)
    with assms(3) obtain rb where c: "RingBufferWriter_store Debug ?rb ?w off bs = Inr rb"
      "t = s\<lparr>sys_rb := rb\<rparr>" by (auto simp: bind_res_Inr)
    from EvStore assms(2) have "RingBufferWriter_IsValid ?w" "unat off + length bs \<le> unat (wr_size ?w)"
      by simp_all
    from store_inv [OF i(1-3) this c(1)] c(2) i(4) show ?thesis by (auto simp: sys_inv_def)
  next
    case (EvCommitWriter n)
    with assms(3) obtain w rb where c: "RingBufferWriter_Commit Debug ?rb ?w n = Inr (w, rb)"
      "t = s\<lparr>sys_rb := rb, sys_wr := w, sys_in := sys_in s @ written s n\<rparr>"
      by (auto simp: bind_res_Inr)
    with Writer_Commit_inv [OF i(1-3) c(1)] i(4) show ?thesis
      by (simp add: sys_inv_def written_def)
  next
    case EvGiveUpWriter
    with assms(3) obtain w rb where c: "RingBufferWriter_GiveUp Debug ?rb ?w = Inr (w, rb)"
      "t = s\<lparr>sys_rb := rb, sys_wr := w\<rparr>" by (auto simp: bind_res_Inr)
    with GiveUp_inv(1) [OF i(1-3) c(1)] i(4) show ?thesis by (simp add: sys_inv_def)
  next
    case EvDropWriter
    show ?thesis
    proof (cases "RingBufferWriter_IsValid ?w")
      case True
      with EvDropWriter assms(3) obtain w rb where c: "RingBufferWriter_Commit Debug ?rb ?w 0 = Inr (w, rb)"
        "t = s\<lparr>sys_rb := rb, sys_wr := RingBufferWriter_null, sys_in := sys_in s @ written s 0\<rparr>"
        by (auto simp: bind_res_Inr RingBufferWriter_delete_def)
      with Writer_Commit_inv [OF i(1-3) c(1)] i(4) show ?thesis
        by (simp add: sys_inv_def written_def)
    next
      case False
      with i(2) have "?w = RingBufferWriter_null" by (simp add: wr_ok_def wr_ok_valid [OF i(2)])
      with EvDropWriter assms(3) False i show ?thesis
        by (auto simp: sys_inv_def RingBufferWriter_delete_def)
    qed
  next
    case (EvCreateReader n)
    with assms(3) obtain r rb where c: "RingBuffer_CreateReader Debug ?rb n = Inr (r, rb)"
      "t = s\<lparr>sys_rb := rb, sys_rd := r\<rparr>" by (auto simp: bind_res_Inr)
    with CreateReader_inv [OF i(1-3) _ _ c(1)] Create_asserts(3) [OF c(1)] i(4) show ?thesis
      by (simp add: sys_inv_def)
  next
    case EvCreateAllReader
    with assms(3) obtain r rb where c: "RingBuffer_CreateAllReader Debug ?rb = Inr (r, rb)"
      "t = s\<lparr>sys_rb := rb, sys_rd := r\<rparr>" by (auto simp: bind_res_Inr)
    with CreateAllReader_inv [OF i(1-3) _ c(1)] Create_asserts(4) [OF c(1)] i(4) show ?thesis
      by (simp add: sys_inv_def)
  next
    case (EvCommitReader n)
    with assms(3) obtain r rb where c: "RingBufferReader_Commit Debug ?rb ?r n = Inr (r, rb)"
      "t = s\<lparr>sys_rb := rb, sys_rd := r, sys_out := sys_out s @ consumed s n\<rparr>"
      by (auto simp: bind_res_Inr)
    with Reader_Commit_inv [OF i(1-3) c(1)] i(4) show ?thesis
      by (simp add: sys_inv_def consumed_def)
  next
    case EvGiveUpReader
    with assms(3) obtain r rb where c: "RingBufferReader_GiveUp Debug ?rb ?r = Inr (r, rb)"
      "t = s\<lparr>sys_rb := rb, sys_rd := r\<rparr>" by (auto simp: bind_res_Inr)
    with GiveUp_inv(2) [OF i(1-3) c(1)] i(4) show ?thesis by (simp add: sys_inv_def)
  next
    case EvDropReader
    show ?thesis
    proof (cases "RingBufferReader_IsValid ?r")
      case True
      with EvDropReader assms(3) obtain r rb where c: "RingBuffer_CommitRead Debug ?rb ?r 0 = Inr (r, rb)"
        "t = s\<lparr>sys_rb := rb, sys_rd := RingBufferReader_null, sys_out := sys_out s @ consumed s 0\<rparr>"
        by (auto simp: bind_res_Inr RingBufferReader_delete_def)
      with Reader_CommitRead_inv [OF i(1-3) c(1)] i(4) show ?thesis
        by (simp add: sys_inv_def consumed_def)
    next
      case False
      with i(3) have "?r = RingBufferReader_null" by (simp add: rd_ok_def rd_ok_valid [OF i(3)])
      with EvDropReader assms(3) False i show ?thesis
        by (auto simp: sys_inv_def RingBufferReader_delete_def)
    qed
  qed
qed

interpretation ring_sys: invariant_system rb_init rb_step sys_inv
proof
  show "rb_init s \<Longrightarrow> sys_inv s" for s
    by (auto simp: rb_init_def sys_inv_def new_inv)
  show "sys_inv s \<Longrightarrow> rb_step s t \<Longrightarrow> sys_inv t" for s t
    by (auto elim: rb_stepE intro: rb_do_inv)
qed

abbreviation ring_reachable :: "RbSys \<Rightarrow> bool" where
  "ring_reachable \<equiv> reach rb_init rb_step"

lemma ring_reachable_do:
  "ring_reachable s \<Longrightarrow> stays_in_region s e \<Longrightarrow> rb_do Debug s e = Inr t \<Longrightarrow> ring_reachable t"
  by (blast intro: reach_step rb_stepI)

section \<open>Properties of every reachable state\<close>

text \<open>
  C1: The ring buffer is a first-in first-out byte queue: in every reachable state the bytes
  committed by writers so far are the bytes committed by readers so far followed by the unread
  contents, whatever the interleaving of reservations, commits, give-ups, destructors, tail
  skips and wrap-arounds.
\<close>

theorem ring_is_fifo:
  assumes "ring_reachable s"
  shows "sys_in s = sys_out s @ rb_contents (sys_rb s)"
  using ring_sys.reach_inv [OF assms] by (simp add: sys_inv_def)



subsection \<open>No assertion fires in a use that follows the protocol\<close>

text \<open>
  The protocol: one writer and one reader at a time, positive request sizes, commits of at most
  the reserved size.
\<close>

fun follows_protocol :: "RbSys \<Rightarrow> rb_event \<Rightarrow> bool" where
  "follows_protocol s (EvCreateWriter n) \<longleftrightarrow> 0 < n \<and> \<not> RingBufferWriter_IsValid (sys_wr s)"
| "follows_protocol s EvCreateAllWriter \<longleftrightarrow> \<not> RingBufferWriter_IsValid (sys_wr s)"
| "follows_protocol s (EvStore off bs) \<longleftrightarrow> stays_in_region s (EvStore off bs)"
| "follows_protocol s (EvCommitWriter n) \<longleftrightarrow> RingBufferWriter_IsValid (sys_wr s) \<and> n \<le> wr_size (sys_wr s)"
| "follows_protocol s EvGiveUpWriter \<longleftrightarrow> RingBufferWriter_IsValid (sys_wr s)"
| "follows_protocol s EvDropWriter \<longleftrightarrow> True"
| "follows_protocol s (EvCreateReader n) \<longleftrightarrow> 0 < n \<and> \<not> RingBufferReader_IsValid (sys_rd s)"
| "follows_protocol s EvCreateAllReader \<longleftrightarrow> \<not> RingBufferReader_IsValid (sys_rd s)"
| "follows_protocol s (EvCommitReader n) \<longleftrightarrow> RingBufferReader_IsValid (sys_rd s) \<and> n \<le> rd_size (sys_rd s)"
| "follows_protocol s EvGiveUpReader \<longleftrightarrow> RingBufferReader_IsValid (sys_rd s)"
| "follows_protocol s EvDropReader \<longleftrightarrow> True"

lemma make_ok [ok_simps]:
  "0 < n \<Longrightarrow> RingBufferWriter_make b (Some a) (Some p) n = Inr \<lparr>wr_owner = Some a, wr_ptr = Some p, wr_size = n\<rparr>"
  "0 < n \<Longrightarrow> RingBufferReader_make b (Some a) (Some p) n = Inr \<lparr>rd_owner = Some a, rd_ptr = Some p, rd_size = n\<rparr>"
  by (simp_all add: make_Inr RingBufferWriter_IsValid_def RingBufferReader_IsValid_def)

lemma Create_ok:
  "0 < n \<Longrightarrow> \<not> m_isActiveWriter rb \<Longrightarrow> is_ok (RingBuffer_CreateWriter Debug rb n)"
  "\<not> m_isActiveWriter rb \<Longrightarrow> is_ok (RingBuffer_CreateAllWriter Debug rb)"
  "0 < n \<Longrightarrow> \<not> m_isActiveReader rb \<Longrightarrow> is_ok (RingBuffer_CreateReader Debug rb n)"
  "\<not> m_isActiveReader rb \<Longrightarrow> is_ok (RingBuffer_CreateAllReader Debug rb)"
  unfolding RingBuffer_CreateWriter_def RingBuffer_CreateAllWriter_def
    RingBuffer_CreateReader_def RingBuffer_CreateAllReader_def Let_def
  by (simp_all add: ok_simps word_gt_0)

lemma CommitWrite_ok:
  assumes "rb_wf rb" "wr_ok rb w" "RingBufferWriter_IsValid w" "n \<le> wr_size w"
  shows "is_ok (RingBuffer_CommitWrite Debug rb w n)"
proof -
  let ?n = "if 0 = n then wr_size w else n"
  from assms(2,3) have act: "m_isActiveWriter rb" by (simp add: wr_ok_valid)
  with assms(1,2) have "wN rb + unat (wr_size w) \<le> cap"
    by (auto simp: wr_ok_def write_room_def rb_wf_def split: if_splits)
  moreover have "unat ?n \<le> unat (wr_size w)" using assms(4) by (simp add: word_nat)
  ultimately have "unat (m_writeCursor rb + ?n) \<le> cap"
    by (simp add: unat_add_small32 wN_def)
  with act assms(3,4) show ?thesis
    unfolding RingBuffer_CommitWrite_def Let_def RingBufferWriter_GetSize_def
    by (auto simp: ok_simps word_le_nat_alt [of "_ + _"])
qed

lemma CommitRead_ok:
  assumes "rb_wf rb" "rd_ok rb r" "RingBufferReader_IsValid r" "n \<le> rd_size r"
  shows "is_ok (RingBuffer_CommitRead Debug rb r n)"
proof -
  let ?n = "if 0 = n then rd_size r else n"
  from assms(2,3) have act: "m_isActiveReader rb" by (simp add: rd_ok_valid)
  with assms(1,2) have "rN rb + unat (rd_size r) \<le> tN rb" "tN rb \<le> cap"
    by (auto simp: rd_ok_def read_room_def rb_wf_def split: if_splits)
  moreover have "unat ?n \<le> unat (rd_size r)" using assms(4) by (simp add: word_nat)
  ultimately have "unat (m_readCursor rb + ?n) \<le> tN rb"
    by (simp add: unat_add_small32 rN_def)
  with act assms(3,4) show ?thesis
    unfolding RingBuffer_CommitRead_def Let_def RingBufferReader_GetSize_def RingBuffer_Clear_def
    by (auto simp: ok_simps word_le_nat_alt [of "_ + _"] tN_def split: if_splits)
qed

text \<open>
  C4: No assertion of the buffer or of its handles fires, and nothing is dereferenced through a
  null handle or written outside the array, as long as the client follows the protocol: in
  every reachable state every such call returns, in particular the overflow checks of
  \<^verbatim>\<open>CommitWrite\<close> and \<^verbatim>\<open>CommitRead\<close> hold.
\<close>

theorem ring_protocol_never_asserts:
  assumes "ring_reachable s" "follows_protocol s e"
  shows "\<exists>t. rb_do Debug s e = Inr t"
proof -
  from ring_sys.reach_inv [OF assms(1)] have i: "rb_wf (sys_rb s)" "wr_ok (sys_rb s) (sys_wr s)"
    "rd_ok (sys_rb s) (sys_rd s)" by (simp_all add: sys_inv_def)
  note v = wr_ok_valid [OF i(2)] rd_ok_valid [OF i(3)]
  have own: "RingBufferWriter_IsValid w \<Longrightarrow> wr_owner w \<noteq> None"
    "RingBufferReader_IsValid r \<Longrightarrow> rd_owner r \<noteq> None" for w r
    by (auto simp: RingBufferWriter_IsValid_def RingBufferReader_IsValid_def)
  have st: "is_ok (RingBufferWriter_store Debug (sys_rb s) (sys_wr s) off bs)"
    if "stays_in_region s (EvStore off bs)" for off bs
  proof -
    from that i v have p: "wr_ptr (sys_wr s) = Some (m_writeCursor (sys_rb s))"
      "unat off + length bs \<le> unat (wr_size (sys_wr s))"
      "wN (sys_rb s) + unat (wr_size (sys_wr s)) \<le> cap" "length (m_ring (sys_rb s)) = cap"
      by (auto simp: wr_ok_def rb_wf_def write_room_def split: if_splits)
    then have "unat (m_writeCursor (sys_rb s) + off) = wN (sys_rb s) + unat off"
      by (simp add: unat_add_small32 wN_def)
    with p show ?thesis
      by (simp add: RingBufferWriter_store_def RingBufferWriter_GetPtr_def ok_simps word_le_nat_alt)
  qed
  have "is_ok (rb_do Debug s e)"
    using assms(2) i v st
    by (cases e)
      (simp_all add: is_ok_bind_total is_ok_ASSERT is_ok_if Create_ok own split_beta
        RingBufferWriter_Commit_def RingBufferReader_Commit_def RingBufferWriter_GiveUp_def
        RingBufferReader_GiveUp_def RingBuffer_GiveUpWriter_def RingBuffer_GiveUpReader_def
        RingBufferWriter_delete_def RingBufferReader_delete_def CommitWrite_ok CommitRead_ok)
  then show ?thesis by (simp add: is_ok_iff)
qed

subsection \<open>Concrete runs\<close>

fun rb_trace :: "RbSys \<Rightarrow> rb_event list \<Rightarrow> RbSys option" where
  "rb_trace s [] = Some s"
| "rb_trace s (e # es) =
     (if stays_in_region s e
      then (case rb_do Debug s e of Inl _ \<Rightarrow> None | Inr t \<Rightarrow> rb_trace t es) else None)"

lemma rb_trace_reachable:
  "ring_reachable s \<Longrightarrow> rb_trace s es = Some t \<Longrightarrow> ring_reachable t"
  by (induction es arbitrary: s)
    (auto split: if_splits sum.splits intro: ring_reachable_do)

definition fresh_sys :: RbSys where
  "fresh_sys = \<lparr>sys_rb = RingBuffer_new 0 (replicate cap 0), sys_wr = RingBufferWriter_null,
     sys_rd = RingBufferReader_null, sys_in = [], sys_out = []\<rparr>"

lemma fresh_reachable: "ring_reachable fresh_sys"
  unfolding rb_init_def fresh_sys_def
  by (rule reach_init) (intro exI [of _ 0] exI [of _ "replicate cap 0"], simp)

lemmas rb_eval =
  fresh_sys_def RingBuffer_new_def kCapacity_def cursor_defs
  RingBuffer_CreateWriter_def RingBuffer_CreateReader_def RingBuffer_CreateAllWriter_def
  RingBuffer_CreateAllReader_def RingBuffer_CommitWrite_def RingBuffer_CommitRead_def
  RingBuffer_GiveUpWriter_def RingBuffer_GiveUpReader_def RingBuffer_Clear_def
  RingBuffer_IsEmpty_def RingBufferWriter_make_def RingBufferReader_make_def
  RingBufferWriter_IsValid_def RingBufferReader_IsValid_def RingBufferWriter_GetSize_def
  RingBufferReader_GetSize_def RingBufferWriter_null_def RingBufferReader_null_def
  RingBufferWriter_Clear_def RingBufferReader_Clear_def RingBufferWriter_Commit_def
  RingBufferReader_Commit_def RingBufferWriter_GiveUp_def RingBufferReader_GiveUp_def
  RingBufferWriter_store_def RingBufferWriter_GetPtr_def RingBufferWriter_delete_def
  RingBufferReader_delete_def written_def consumed_def commit_size_def Let_def

text \<open>Four bytes written, committed, and a reader open on them.\<close>

definition read_run :: "rb_event list" where
  "read_run = [EvCreateWriter 4, EvStore 0 [1, 2, 3, 4], EvCommitWriter 0, EvCreateReader 3]"

lemma read_run_ex:
  "\<exists>t. rb_trace fresh_sys read_run = Some t \<and> RingBufferReader_IsValid (sys_rd t) \<and>
     \<not> RingBufferWriter_IsValid (sys_wr t) \<and> rd_size (sys_rd t) = 3"
  by (simp add: read_run_def rb_eval)

lemma read_run_reachable:
  obtains t where "ring_reachable t" "RingBufferReader_IsValid (sys_rd t)"
    "\<not> RingBufferWriter_IsValid (sys_wr t)" "rd_size (sys_rd t) = 3"
  using read_run_ex rb_trace_reachable [OF fresh_reachable] by blast

theorem ring_is_fifo_witness:
  "sys_in fresh_sys = sys_out fresh_sys @ rb_contents (sys_rb fresh_sys)"
  by (rule ring_is_fifo [OF fresh_reachable])



theorem ring_protocol_never_asserts_witness:
  "\<exists>t. rb_do Debug fresh_sys (EvCreateWriter 4) = Inr t"
  by (rule ring_protocol_never_asserts [OF fresh_reachable])
    (simp add: fresh_sys_def RingBufferWriter_null_def RingBufferWriter_IsValid_def)

subsection \<open>The build without assertions\<close>



end
