(* ===== verification/Ring_Buffer_Props.thy ===== *)
theory Ring_Buffer_Props
  imports Ring_Buffer_System
begin

text \<open>
  What the reservations of the ring buffer promise (all or nothing for writers, clamping for
  readers, draining), where the design has limits (data across the end of the array, the full
  flag, the destructor, a commit of size zero, move assignment), and the ring buffer as a
  first-in first-out byte buffer.
\<close>

section \<open>Reservations\<close>

lemma handle_valid:
  "RingBufferWriter_IsValid \<lparr>wr_owner = Some a, wr_ptr = Some p, wr_size = n\<rparr> \<longleftrightarrow> 0 < unat n"
  "RingBufferReader_IsValid \<lparr>rd_owner = Some a, rd_ptr = Some p, rd_size = n\<rparr> \<longleftrightarrow> 0 < unat n"
  by (simp_all add: RingBufferWriter_IsValid_def RingBufferReader_IsValid_def word_less_nat_alt)

lemma reachable_idle:
  assumes "ring_reachable s"
  shows "rb_wf (sys_rb s)" "wr_ok (sys_rb s) (sys_wr s)" "rd_ok (sys_rb s) (sys_rd s)"
    "RingBufferWriter_IsValid (sys_wr s) \<longleftrightarrow> m_isActiveWriter (sys_rb s)"
    "RingBufferReader_IsValid (sys_rd s) \<longleftrightarrow> m_isActiveReader (sys_rb s)"
  using ring_sys.reach_inv [OF assms] by (simp_all add: sys_inv_def wr_ok_valid rd_ok_valid)


lemma contents_empty_iff:
  assumes "rb_wf rb"
  shows "RingBuffer_IsEmpty (reader_jump rb) \<longleftrightarrow> rb_contents rb = []"
  using contents_Nil_iff [OF reader_jump_wf(1) [OF assms]] reader_jump_wf(2,5) [OF assms] by auto

lemma read_room_le_contents: "rb_wf rb \<Longrightarrow> read_room rb \<le> length (rb_contents rb)"
  by (simp add: length_rb_contents)

lemma CreateReader_clamps:
  assumes "ring_reachable s" "\<not> RingBufferReader_IsValid (sys_rd s)" "0 < n"
  shows "\<exists>r rb. RingBuffer_CreateReader Debug (sys_rb s) n = Inr (r, rb) \<and>
    (RingBufferReader_IsValid r \<longleftrightarrow> rb_contents (sys_rb s) \<noteq> []) \<and>
    (RingBufferReader_IsValid r \<longrightarrow>
       unat (rd_size r) = min (unat n) (read_room (reader_jump (sys_rb s))) \<and> 0 < unat (rd_size r) \<and>
       RingBufferReader_load rb r (rd_size r) = take (unat (rd_size r)) (rb_contents (sys_rb s)))"
proof -
  let ?rb = "sys_rb s"
  note i = reachable_idle [OF assms(1)]
  have "is_ok (RingBuffer_CreateReader Debug ?rb n)"
    using assms i(5) by (intro Create_ok) simp_all
  then obtain r rb where c: "RingBuffer_CreateReader Debug ?rb n = Inr (r, rb)"
    by (auto simp: is_ok_iff)
  have pos: "0 < unat n" using assms(3) by (simp add: word_less_nat_alt)
  note j = reader_jump_wf [OF i(1)]
  from i(1) pos c show ?thesis
  proof (cases rule: CreateReader_elim)
    case refused
    with c contents_empty_iff [OF i(1)] show ?thesis by auto
  next
    case (reserved k)
    have "rb_contents ?rb \<noteq> []"
      using reserved(1,2) j(4) contents_empty_iff [OF i(1)] by auto
    moreover have "RingBufferReader_load rb r (rd_size r) = take (unat k) (rb_contents ?rb)"
      using reserved read_prefix [OF j(1), of "unat k"] j(2)
      by (simp add: RingBufferReader_load_def rN_def)
    ultimately show ?thesis using c reserved by (auto simp: handle_valid)
  qed
qed

text \<open>
  Unread data is always readable, and \<^verbatim>\<open>CreateReader\<close> clamps. In a reachable state without
  live reader it returns a live handle exactly if there is an unread byte; the handle covers
  the requested size or what is contiguous, whichever is less, at least one byte, and the
  bytes are the oldest unread ones.
\<close>

theorem ring_reader_clamps:
  assumes "ring_reachable s" "\<not> RingBufferReader_IsValid (sys_rd s)" "0 < n"
  shows "\<exists>r rb. RingBuffer_CreateReader Debug (sys_rb s) n = Inr (r, rb) \<and>
    (RingBufferReader_IsValid r \<longleftrightarrow> rb_contents (sys_rb s) \<noteq> []) \<and>
    (RingBufferReader_IsValid r \<longrightarrow>
       unat (rd_size r) = min (unat n) (read_room (reader_jump (sys_rb s))) \<and> 0 < unat (rd_size r) \<and>
       RingBufferReader_load rb r (rd_size r) = take (unat (rd_size r)) (rb_contents (sys_rb s)))"
  using assms by (rule CreateReader_clamps)

text \<open>One round of \<^verbatim>\<open>CreateAllReader\<close>, read everything, commit.\<close>

definition read_all :: "RingBuffer \<Rightarrow> (BYTE list \<times> RingBuffer) res" where
  "read_all rb =
     bind_res (RingBuffer_CreateAllReader Debug rb) (\<lambda>(r, rb).
       if RingBufferReader_IsValid r
       then bind_res (RingBufferReader_Commit Debug rb r 0)
              (\<lambda>(r', rb'). Inr (RingBufferReader_load rb r (rd_size r), rb'))
       else Inr ([], rb))"

lemma read_all_effect:
  assumes "rb_wf rb" "\<not> m_isActiveWriter rb" "\<not> m_isActiveReader rb"
  shows "\<exists>rb'. read_all rb = Inr (take (read_room (reader_jump rb)) (rb_contents rb), rb') \<and>
    rb_wf rb' \<and> \<not> m_isActiveWriter rb' \<and> \<not> m_isActiveReader rb' \<and>
    rb_contents rb' = drop (read_room (reader_jump rb)) (rb_contents rb) \<and>
    \<not> m_isFull rb' \<and> rN rb' \<le> wN rb'"
proof -
  note j = reader_jump_wf [OF assms(1)]
  have ok: "wr_ok rb RingBufferWriter_null" "rd_ok rb RingBufferReader_null"
    using assms by (simp_all add: wr_ok_def rd_ok_def)
  obtain r rb1 where c: "RingBuffer_CreateAllReader Debug rb = Inr (r, rb1)"
    using Create_ok(4) [OF assms(3)] by (auto simp: is_ok_iff)
  from assms(1) c show ?thesis
  proof (cases rule: CreateAllReader_elim)
    case refused
    from refused(1) have "\<not> m_isFull rb" "rN (reader_jump rb) = wN rb"
      unfolding RingBuffer_IsEmpty_def cursor_eq by simp_all
    with refused c j contents_empty_iff [OF assms(1)] assms(2,3) show ?thesis
      by (simp add: read_all_def)
  next
    case (reserved k)
    have same_rooms: "read_room rb1 = unat k" "rN rb1 = rN (reader_jump rb)" "wN rb1 = wN rb"
      "tN rb1 = tN (reader_jump rb)"
      using reserved by simp_all
    note inv = CreateAllReader_inv [OF assms(1) ok(1,2) assms(3) c]
    from reserved have v: "RingBufferReader_IsValid r" by (simp add: handle_valid)
    have "is_ok (RingBuffer_CommitRead Debug rb1 r 0)"
      using inv v by (intro CommitRead_ok) simp_all
    then obtain r' rb2 where "RingBuffer_CommitRead Debug rb1 r 0 = Inr (r', rb2)"
      by (auto simp: is_ok_iff)
    then have cm: "RingBufferReader_Commit Debug rb1 r 0 = Inr (RingBufferReader_Clear r', rb2)"
      using v reserved by (simp add: RingBufferReader_Commit_def)
    have act: "m_isActiveReader rb1" using reserved by simp
    note e = CommitRead_effect [OF conjunct1 [OF inv] _ act \<open>RingBuffer_CommitRead Debug rb1 r 0 = _\<close>]
    have "rd_ok rb1 r" "wr_ok rb1 RingBufferWriter_null" using inv by simp_all
    from CommitRead_inv [OF conjunct1 [OF inv] this(2,1) act \<open>RingBuffer_CommitRead Debug rb1 r 0 = _\<close>]
    have post: "rb_wf rb2" "rb_contents rb2 = drop (unat k) (rb_contents rb)"
      using inv reserved by (simp_all add: commit_size_def)
    have "RingBufferReader_load rb1 r (rd_size r) = take (unat k) (rb_contents rb)"
      using reserved read_prefix [OF j(1), of "unat k"] j(2)
      by (simp add: RingBufferReader_load_def rN_def)
    moreover have "rN rb2 \<le> wN rb2"
      using conjunct1 [OF inv] \<open>rd_ok rb1 r\<close> act \<open>RingBuffer_CommitRead Debug rb1 r 0 = _\<close>
    proof (cases rule: CommitRead_cursors)
      case before_writer
      then show ?thesis by (simp add: wN_def)
    next
      case before_tail
      with same_rooms reserved show ?thesis
        by (auto simp: commit_size_def read_room_def split: if_splits)
    qed simp_all
    ultimately show ?thesis
      using c v cm post reserved e(4,5,8) [OF \<open>rd_ok rb1 r\<close>] assms(2) by (simp add: read_all_def)
  qed
qed

text \<open>
  Two rounds of \<^verbatim>\<open>CreateAllReader\<close> and commit empty the buffer: from every reachable state
  without live handles they deliver all unread bytes in order, the second round what had
  wrapped to the start of the array.
\<close>

theorem ring_two_reads_drain:
  assumes "ring_reachable s" "\<not> RingBufferWriter_IsValid (sys_wr s)" "\<not> RingBufferReader_IsValid (sys_rd s)"
  shows "\<exists>bs rb cs rb'. read_all (sys_rb s) = Inr (bs, rb) \<and> read_all rb = Inr (cs, rb') \<and>
    bs @ cs = rb_contents (sys_rb s) \<and> rb_contents rb' = []"
proof -
  let ?rb = "sys_rb s" let ?j = "reader_jump (sys_rb s)"
  note i = reachable_idle [OF assms(1)]
  have idle: "\<not> m_isActiveWriter ?rb" "\<not> m_isActiveReader ?rb" using i assms by simp_all
  note j = reader_jump_wf [OF i(1)]
  obtain rb where one: "read_all ?rb = Inr (take (read_room ?j) (rb_contents ?rb), rb)"
    "rb_wf rb" "\<not> m_isActiveWriter rb" "\<not> m_isActiveReader rb"
    "rb_contents rb = drop (read_room ?j) (rb_contents ?rb)" "\<not> m_isFull rb" "rN rb \<le> wN rb"
    using read_all_effect [OF i(1) idle] by blast
  obtain rb' where two: "read_all rb = Inr (take (read_room (reader_jump rb)) (rb_contents rb), rb')"
    "rb_contents rb' = drop (read_room (reader_jump rb)) (rb_contents rb)"
    using read_all_effect [OF one(2-4)] by blast
  have "reader_jump rb = rb" by (rule reader_jump_wf(3) [OF one(2,6,7)])
  moreover have "length (rb_contents rb) = read_room rb"
    using length_rb_contents [OF one(2)] one(6,7) by simp
  ultimately show ?thesis using one two by simp
qed

lemma idle_fresh:
  "\<not> RingBufferWriter_IsValid (sys_wr fresh_sys)" "\<not> RingBufferReader_IsValid (sys_rd fresh_sys)"
  by (simp_all add: fresh_sys_def)


theorem ring_reader_clamps_witness:
  "\<exists>r rb. RingBuffer_CreateReader Debug (sys_rb fresh_sys) 8 = Inr (r, rb) \<and>
     (RingBufferReader_IsValid r \<longleftrightarrow> rb_contents (sys_rb fresh_sys) \<noteq> [])"
  using ring_reader_clamps [OF fresh_reachable idle_fresh(2), of 8] by auto

theorem ring_two_reads_drain_witness:
  "\<exists>bs rb cs rb'. read_all (sys_rb fresh_sys) = Inr (bs, rb) \<and> read_all rb = Inr (cs, rb') \<and>
     bs @ cs = rb_contents (sys_rb fresh_sys) \<and> rb_contents rb' = []"
  by (rule ring_two_reads_drain [OF fresh_reachable idle_fresh])

section \<open>Data across the end of the array\<close>

fun writer_event :: "rb_event \<Rightarrow> bool" where
  "writer_event (EvCreateWriter n) = True"
| "writer_event EvCreateAllWriter = True"
| "writer_event (EvStore off bs) = True"
| "writer_event (EvCommitWriter n) = True"
| "writer_event EvGiveUpWriter = True"
| "writer_event EvDropWriter = True"
| "writer_event _ = False"

inductive writer_step :: "RbSys \<Rightarrow> RbSys \<Rightarrow> bool" where
  writer_stepI: "writer_event e \<Longrightarrow> stays_in_region s e \<Longrightarrow> rb_do Debug s e = Inr t \<Longrightarrow> writer_step s t"

definition wrapped :: "RingBuffer \<Rightarrow> bool" where
  "wrapped rb \<longleftrightarrow> wN rb < rN rb \<or> (wN rb = rN rb \<and> m_isFull rb)"

definition reader_view :: "RingBuffer \<Rightarrow> nat \<times> nat \<times> bool" where
  "reader_view rb = (rN rb, tN rb, m_isActiveReader rb)"

lemma CommitWrite_wrapped:
  assumes "rb_wf rb" "wr_ok rb w" "wrapped rb" "RingBufferWriter_Commit Debug rb w n = Inr (w', rb')"
  shows "wrapped rb' \<and> reader_view rb' = reader_view rb"
proof -
  from assms(4) obtain h where c: "RingBuffer_CommitWrite Debug rb w n = Inr (h, rb')"
    and "RingBufferWriter_IsValid w"
    by (auto simp: RingBufferWriter_Commit_def res_simps split: if_splits)
  with assms(2) have act: "m_isActiveWriter rb" by (simp add: wr_ok_valid)
  note e = CommitWrite_effect [OF assms(1,2) act c]
  have "\<not> m_isFull rb" "rN rb < cap" using assms(1) act by (auto simp: rb_wf_def)
  with assms(2,3) act e(3) have "wN rb + commit_size (wr_size w) n \<le> rN rb" "wN rb < rN rb"
    by (auto simp: wrapped_def wr_ok_def write_room_def)
  with e \<open>rN rb < cap\<close> show ?thesis
    by (auto simp: wrapped_def reader_view_def)
qed

lemma writer_event_wrapped:
  assumes "sys_inv s" "wrapped (sys_rb s)" "writer_event e" "stays_in_region s e" "rb_do Debug s e = Inr t"
  shows "wrapped (sys_rb t) \<and> reader_view (sys_rb t) = reader_view (sys_rb s)"
proof -
  let ?rb = "sys_rb s" let ?w = "sys_wr s"
  from assms(1) have i: "rb_wf ?rb" "wr_ok ?rb ?w" "rd_ok ?rb (sys_rd s)" by (simp_all add: sys_inv_def)
  have act: "wrapped (rb\<lparr>m_isActiveWriter := x\<rparr>) = wrapped rb"
    "reader_view (rb\<lparr>m_isActiveWriter := x\<rparr>) = reader_view rb" for x and rb :: RingBuffer
    by (simp_all add: wrapped_def reader_view_def)
  show ?thesis
  proof (cases e)
    case (EvCreateWriter n)
    with assms(5) obtain w rb where c: "RingBuffer_CreateWriter Debug ?rb n = Inr (w, rb)"
      "t = s\<lparr>sys_rb := rb, sys_wr := w\<rparr>" by (auto simp: bind_res_Inr)
    from i(1) c(1) show ?thesis
    proof (cases rule: CreateWriter_elim)
      case tail_skip
      with assms(2) show ?thesis by (simp add: wrapped_def)
    qed (use c act assms(2) in simp_all)
  next
    case EvCreateAllWriter
    with assms(5) obtain w rb where c: "RingBuffer_CreateAllWriter Debug ?rb = Inr (w, rb)"
      "t = s\<lparr>sys_rb := rb, sys_wr := w\<rparr>" by (auto simp: bind_res_Inr)
    from i(1) c(1) show ?thesis
      by (cases rule: CreateAllWriter_elim) (use c act assms(2) in simp_all)
  next
    case (EvStore off bs)
    with assms(5) obtain rb where c: "RingBufferWriter_store Debug ?rb ?w off bs = Inr rb"
      "t = s\<lparr>sys_rb := rb\<rparr>" by (auto simp: bind_res_Inr)
    from EvStore assms(4) have "RingBufferWriter_IsValid ?w" "unat off + length bs \<le> unat (wr_size ?w)"
      by simp_all
    from store_inv [OF i this c(1)] c(2) assms(2) show ?thesis
      by (auto simp: wrapped_def reader_view_def cursor_defs)
  next
    case (EvCommitWriter n)
    with assms(5) obtain w rb where c: "RingBufferWriter_Commit Debug ?rb ?w n = Inr (w, rb)"
      "sys_rb t = rb" by (auto simp: bind_res_Inr)
    with CommitWrite_wrapped [OF i(1,2) assms(2) c(1)] show ?thesis by simp
  next
    case EvGiveUpWriter
    with assms(5) obtain w rb where c: "RingBufferWriter_GiveUp Debug ?rb ?w = Inr (w, rb)"
      "sys_rb t = rb" by (auto simp: bind_res_Inr)
    then have "rb = ?rb\<lparr>m_isActiveWriter := False\<rparr>"
      by (auto simp: RingBufferWriter_GiveUp_def RingBuffer_GiveUpWriter_def res_simps split: if_splits)
    with c act assms(2) show ?thesis by simp
  next
    case EvDropWriter
    show ?thesis
    proof (cases "RingBufferWriter_IsValid ?w")
      case True
      with EvDropWriter assms(5) obtain w rb where "RingBufferWriter_Commit Debug ?rb ?w 0 = Inr (w, rb)"
        "sys_rb t = rb" by (auto simp: bind_res_Inr RingBufferWriter_delete_def)
      with CommitWrite_wrapped [OF i(1,2) assms(2)] show ?thesis by blast
    next
      case False
      with EvDropWriter assms(2,5) show ?thesis by (auto simp: RingBufferWriter_delete_def)
    qed
  qed (use assms(3) in simp_all)
qed

lemma writer_steps_wrapped:
  assumes "writer_step\<^sup>*\<^sup>* s t" "ring_reachable s" "wrapped (sys_rb s)"
  shows "ring_reachable t \<and> wrapped (sys_rb t) \<and> reader_view (sys_rb t) = reader_view (sys_rb s)"
  using assms(1)
proof (induction rule: rtranclp_induct)
  case base
  with assms show ?case by simp
next
  case (step t u)
  from step(2) obtain e where e: "writer_event e" "stays_in_region t e" "rb_do Debug t e = Inr u"
    by (auto elim: writer_step.cases)
  from step(3) have "sys_inv t" by (blast dest: ring_sys.reach_inv)
  from writer_event_wrapped [OF this _ e] ring_reachable_do [OF _ e(2,3)] step(3) show ?case by auto
qed

text \<open>
  Once the data wraps around the end of the array, a request for more bytes than lie before
  the tail is clamped to those bytes, and stays so whatever and however much is written
  afterwards: only reading the shorter piece first makes progress.
\<close>

theorem ring_wrapped_request_stays_clamped:
  assumes "ring_reachable s" "wrapped (sys_rb s)" "\<not> RingBufferReader_IsValid (sys_rd s)"
    and "rN (sys_rb s) < tN (sys_rb s)" "tN (sys_rb s) - rN (sys_rb s) < unat n"
    and "writer_step\<^sup>*\<^sup>* s t"
  shows "\<exists>r rb. RingBuffer_CreateReader Debug (sys_rb t) n = Inr (r, rb) \<and>
    RingBufferReader_IsValid r \<and> unat (rd_size r) = tN (sys_rb s) - rN (sys_rb s)"
proof -
  from writer_steps_wrapped [OF assms(6,1,2)] have t: "ring_reachable t" "wrapped (sys_rb t)"
    "rN (sys_rb t) = rN (sys_rb s)" "tN (sys_rb t) = tN (sys_rb s)"
    "m_isActiveReader (sys_rb t) = m_isActiveReader (sys_rb s)"
    by (simp_all add: reader_view_def)
  have nv: "\<not> RingBufferReader_IsValid (sys_rd t)"
    using assms(3) t(5) reachable_idle(5) [OF assms(1)] reachable_idle(5) [OF t(1)] by simp
  have "0 < n" using assms(5) by (simp add: word_less_nat_alt)
  from CreateReader_clamps [OF t(1) nv this] obtain r rb where
    r: "RingBuffer_CreateReader Debug (sys_rb t) n = Inr (r, rb)"
    "RingBufferReader_IsValid r \<longleftrightarrow> rb_contents (sys_rb t) \<noteq> []"
    "RingBufferReader_IsValid r \<Longrightarrow> unat (rd_size r) = min (unat n) (read_room (reader_jump (sys_rb t)))"
    by blast
  have "reader_jump (sys_rb t) = sys_rb t"
    using assms(4) t(3,4) by (simp add: reader_jump_def cursor_eq)
  moreover have "read_room (sys_rb t) = tN (sys_rb s) - rN (sys_rb s)"
    using t by (auto simp: wrapped_def read_room_def)
  moreover have "rb_contents (sys_rb t) \<noteq> []"
    using read_room_le_contents [OF reachable_idle(1) [OF t(1)]] calculation(2) assms(4) by auto
  ultimately show ?thesis using r assms(5) by auto
qed

text \<open>The scenario of the test \<^verbatim>\<open>RingBufferTest.Wrap\<close>, up to the wrap.\<close>

definition wrap_run :: "rb_event list" where
  "wrap_run = [EvCreateWriter 12288, EvCommitWriter 0, EvCreateReader 8192, EvCommitReader 0,
     EvCreateWriter 8192, EvDropWriter]"

lemma wrap_run_ex:
  "\<exists>t. rb_trace fresh_sys wrap_run = Some t \<and> \<not> RingBufferReader_IsValid (sys_rd t) \<and>
     wrapped (sys_rb t) \<and> rN (sys_rb t) = 8192 \<and> tN (sys_rb t) = 12288"
  by (simp add: wrap_run_def rb_eval wrapped_def)

theorem ring_wrapped_request_stays_clamped_witness:
  "\<exists>t r rb. ring_reachable t \<and> RingBuffer_CreateReader Debug (sys_rb t) 5000 = Inr (r, rb) \<and>
     unat (rd_size r) = 4096"
proof -
  obtain t where t: "ring_reachable t" "\<not> RingBufferReader_IsValid (sys_rd t)" "wrapped (sys_rb t)"
    "rN (sys_rb t) = 8192" "tN (sys_rb t) = 12288"
    using wrap_run_ex rb_trace_reachable [OF fresh_reachable] by blast
  from ring_wrapped_request_stays_clamped [OF t(1,3,2), of 5000 t] t show ?thesis by auto
qed

section \<open>Limits of the flags and of the handles\<close>

text \<open>
  A reader that overtakes to the writer's position while the writer holds its reservation leaves
  an empty buffer with both cursors in the middle of the array.
\<close>

definition empty_in_the_middle :: "rb_event list" where
  "empty_in_the_middle = [EvCreateWriter 10000, EvCommitWriter 0, EvCreateReader 10000,
     EvCreateWriter 1, EvCommitReader 0, EvGiveUpWriter]"

text \<open>
  \<^verbatim>\<open>m_isFull\<close> can be set on a buffer that is not full: there is a reachable state without
  live handles in which the flag is set and 10000 of the 16384 bytes are in use, so that every
  write request is refused although no byte is lost.
\<close>

theorem ring_full_flag_without_full_buffer:
  "\<exists>s. ring_reachable s \<and> m_isFull (sys_rb s) \<and> length (rb_contents (sys_rb s)) = 10000 \<and>
     \<not> RingBufferWriter_IsValid (sys_wr s) \<and>
     (\<nexists>n w rb. RingBuffer_CreateWriter Debug (sys_rb s) n = Inr (w, rb) \<and> RingBufferWriter_IsValid w)"
proof -
  let ?run = "empty_in_the_middle @ [EvCreateWriter 10000, EvCommitWriter 0]"
  have "\<exists>s. rb_trace fresh_sys ?run = Some s \<and> m_isFull (sys_rb s) \<and>
      rN (sys_rb s) = 10000 \<and> wN (sys_rb s) = 10000 \<and> tN (sys_rb s) = 10000 \<and>
      \<not> m_isActiveWriter (sys_rb s)"
    by (simp add: empty_in_the_middle_def rb_eval)
  then obtain s where s: "ring_reachable s" "m_isFull (sys_rb s)" "rN (sys_rb s) = 10000"
    "wN (sys_rb s) = 10000" "tN (sys_rb s) = 10000" "\<not> m_isActiveWriter (sys_rb s)"
    using rb_trace_reachable [OF fresh_reachable] by blast
  from s reachable_idle [OF s(1)] have "length (rb_contents (sys_rb s)) = 10000"
    "\<not> RingBufferWriter_IsValid (sys_wr s)"
    by (simp_all add: length_rb_contents read_room_def)
  with s show ?thesis
    by (intro exI [of _ s])
      (auto simp: RingBuffer_CreateWriter_def res_simps RingBufferWriter_IsValid_def RingBufferWriter_null_def)
qed

text \<open>
  Giving up a writer does not undo a tail skip: there is a reachable state without live
  handles in which every committed byte has been read, and still the destructor's check that
  the buffer is empty fails.
\<close>

theorem ring_destructor_rejects_empty_buffer:
  "\<exists>s. ring_reachable s \<and> rb_contents (sys_rb s) = [] \<and> sys_in s = sys_out s \<and>
     \<not> RingBufferWriter_IsValid (sys_wr s) \<and> \<not> RingBufferReader_IsValid (sys_rd s) \<and>
     RingBuffer_delete Debug (sys_rb s) = Inl (AssertFailed ''Buffer is not empty yet'')"
proof -
  let ?run = "empty_in_the_middle @ [EvCreateWriter 9000, EvGiveUpWriter]"
  have "\<exists>s. rb_trace fresh_sys ?run = Some s \<and> \<not> m_isFull (sys_rb s) \<and>
      rN (sys_rb s) = 10000 \<and> wN (sys_rb s) = 0 \<and> tN (sys_rb s) = 10000 \<and>
      \<not> m_isActiveWriter (sys_rb s) \<and> \<not> m_isActiveReader (sys_rb s)"
    by (simp add: empty_in_the_middle_def rb_eval)
  then obtain s where s: "ring_reachable s" "\<not> m_isFull (sys_rb s)" "rN (sys_rb s) = 10000"
    "wN (sys_rb s) = 0" "tN (sys_rb s) = 10000" "\<not> m_isActiveWriter (sys_rb s)"
    "\<not> m_isActiveReader (sys_rb s)"
    using rb_trace_reachable [OF fresh_reachable] by blast
  from s reachable_idle [OF s(1)] have "rb_contents (sys_rb s) = []"
    "\<not> RingBufferWriter_IsValid (sys_wr s)" "\<not> RingBufferReader_IsValid (sys_rd s)"
    by (simp_all add: contents_Nil_iff)
  moreover from this ring_sys.reach_inv [OF s(1)] have "sys_in s = sys_out s"
    by (simp add: sys_inv_def)
  moreover have "\<not> RingBuffer_IsEmpty (sys_rb s)"
    using s unfolding RingBuffer_IsEmpty_def cursor_eq by simp
  ultimately show ?thesis
    using s by (intro exI [of _ s]) (simp add: RingBuffer_delete_def ASSERT_fail)
qed

text \<open>
  A commit of size zero commits the whole reservation: if a receive into a writer's region
  reports zero bytes and the client commits that number, all reserved bytes enter the contents.
\<close>

theorem ring_commit_zero_commits_all:
  assumes "ring_reachable s" "RingBufferWriter_IsValid (sys_wr s)"
    and "rb_do Debug s (EvCommitWriter 0) = Inr t"
  shows "length (rb_contents (sys_rb t)) = length (rb_contents (sys_rb s)) + unat (wr_size (sys_wr s))"
proof -
  note i = reachable_idle [OF assms(1)]
  from assms(3) obtain w rb where c: "RingBufferWriter_Commit Debug (sys_rb s) (sys_wr s) 0 = Inr (w, rb)"
    "sys_rb t = rb" by (auto simp: bind_res_Inr)
  have "wN (sys_rb s) + unat (wr_size (sys_wr s)) \<le> length (m_ring (sys_rb s))"
    using i assms(2) by (auto simp: wr_ok_def rb_wf_def write_room_def split: if_splits)
  with Writer_Commit_inv [OF i(1-3) c(1)] c(2) show ?thesis by (simp add: commit_size_def)
qed

theorem ring_commit_zero_commits_all_witness:
  "\<exists>s t :: RbSys. rb_do Debug s (EvCommitWriter 0) = Inr t \<and> length (rb_contents (sys_rb t)) =
     length (rb_contents (sys_rb s)) + 16384"
proof -
  have "\<exists>s. rb_trace fresh_sys [EvCreateAllWriter] = Some s \<and> RingBufferWriter_IsValid (sys_wr s) \<and>
      wr_size (sys_wr s) = 16384 \<and> (\<exists>t. rb_do Debug s (EvCommitWriter 0) = Inr t)"
    by (simp add: rb_eval)
  then obtain s t where s: "rb_trace fresh_sys [EvCreateAllWriter] = Some s"
    "RingBufferWriter_IsValid (sys_wr s)" "wr_size (sys_wr s) = 16384"
    "rb_do Debug s (EvCommitWriter 0) = Inr t" by blast
  from rb_trace_reachable [OF fresh_reachable s(1)] have "ring_reachable s" .
  from ring_commit_zero_commits_all [OF this s(2,4)] s(3,4) show ?thesis by auto
qed

text \<open>
  Move assignment between readers needs both to hold the same owner already: it succeeds
  exactly for a live source of the same owner, never into a handle that has been committed,
  given up or moved from; without assertions it transfers the handle and clears the source.
\<close>

theorem ring_move_assignment_needs_same_owner:
  "((\<exists>x. RingBufferReader_move_assign Debug h other = Inr x) \<longleftrightarrow>
     RingBufferReader_IsValid other \<and> rd_owner h = rd_owner other) \<and>
   \<not> (\<exists>x. RingBufferReader_move_assign Debug RingBufferReader_null other = Inr x) \<and>
   RingBufferReader_move_assign NoDebug h other = Inr (other, RingBufferReader_null)"
  by (auto simp: RingBufferReader_move_assign_def res_simps
      RingBufferReader_IsValid_def RingBufferReader_null_def)

section \<open>The ring buffer as a byte buffer\<close>

text \<open>
  The use \<^verbatim>\<open>RingBuffer.md\<close> describes: reserve, copy a block in, commit; reserve at most \<open>n\<close>
  bytes, read them, commit.
\<close>

definition ring_put :: "RingBuffer \<Rightarrow> BYTE list \<Rightarrow> RingBuffer option" where
  "ring_put rb bs =
     (if bs = [] \<or> cap < length bs then None
      else
        (case bind_res (RingBuffer_CreateWriter Debug rb (word_of_nat (length bs))) (\<lambda>(w, rb).
           if RingBufferWriter_IsValid w
           then bind_res (RingBufferWriter_store Debug rb w 0 bs) (\<lambda>rb.
                bind_res (RingBufferWriter_Commit Debug rb w 0) (\<lambda>(w', rb). Inr (Some rb)))
           else Inr None) of
           Inl _ \<Rightarrow> None
         | Inr r \<Rightarrow> r))"

definition ring_get :: "RingBuffer \<Rightarrow> nat \<Rightarrow> BYTE list \<times> RingBuffer" where
  "ring_get rb n =
     (case bind_res (RingBuffer_CreateReader Debug rb (word_of_nat (min n cap))) (\<lambda>(r, rb).
        if RingBufferReader_IsValid r
        then bind_res (RingBufferReader_Commit Debug rb r 0)
               (\<lambda>(r', rb'). Inr (RingBufferReader_load rb r (rd_size r), rb'))
        else Inr ([], rb)) of
        Inl _ \<Rightarrow> ([], rb)
      | Inr x \<Rightarrow> x)"

definition ring_idle :: "RingBuffer \<Rightarrow> bool" where
  "ring_idle rb \<longleftrightarrow> rb_wf rb \<and> \<not> m_isActiveWriter rb \<and> \<not> m_isActiveReader rb"

lemma idle_handles:
  "ring_idle rb \<Longrightarrow> wr_ok rb RingBufferWriter_null \<and> rd_ok rb RingBufferReader_null"
  by (simp add: ring_idle_def wr_ok_def rd_ok_def)

lemma idle_intro:
  "rb_wf rb \<Longrightarrow> wr_ok rb RingBufferWriter_null \<Longrightarrow> rd_ok rb RingBufferReader_null \<Longrightarrow> ring_idle rb"
  using wr_ok_valid [of rb RingBufferWriter_null] rd_ok_valid [of rb RingBufferReader_null]
  by (simp add: ring_idle_def)

lemma ring_put_law:
  assumes "ring_idle rb" "ring_put rb bs = Some rb'"
  shows "ring_idle rb' \<and> rb_contents rb' = rb_contents rb @ bs"
proof -
  from assms(2) have len: "bs \<noteq> []" "length bs \<le> cap" by (auto simp: ring_put_def split: if_splits)
  then have n: "unat (word_of_nat (length bs) :: UINT32) = length bs" by (simp add: unat_of_nat32)
  from assms(2) len obtain w rb1 rb2 w' where
    c: "RingBuffer_CreateWriter Debug rb (word_of_nat (length bs)) = Inr (w, rb1)"
    and v: "RingBufferWriter_IsValid w"
    and st: "RingBufferWriter_store Debug rb1 w 0 bs = Inr rb2"
    and cm: "RingBufferWriter_Commit Debug rb2 w 0 = Inr (w', rb')"
    by (auto simp: ring_put_def bind_res_Inr split: if_splits sum.splits)
  from assms(1) have i: "rb_wf rb" "\<not> m_isActiveWriter rb" by (simp_all add: ring_idle_def)
  note h = idle_handles [OF assms(1)]
  from CreateWriter_inv [OF i(1) conjunct2 [OF h] conjunct1 [OF h] i(2) _ c] len n
  have one: "rb_wf rb1" "wr_ok rb1 w" "rd_ok rb1 RingBufferReader_null" "rb_contents rb1 = rb_contents rb"
    by simp_all
  have size: "unat (wr_size w) = length bs" using i(1) c v n by (cases rule: CreateWriter_elim) simp_all
  have "unat (0 :: UINT32) + length bs \<le> unat (wr_size w)" using size by simp
  from store_inv [OF one(1-3) v this st] one(4)
  have two: "rb2 = rb1\<lparr>m_ring := memcpy_at (m_ring rb1) (wN rb1) bs\<rparr>" "rb_wf rb2" "wr_ok rb2 w"
    "rd_ok rb2 RingBufferReader_null" "rb_contents rb2 = rb_contents rb" by auto
  from one(1,2) v size have fits: "wN rb1 + length bs \<le> length (m_ring rb1)"
    by (auto simp: wr_ok_valid wr_ok_def rb_wf_def write_room_def split: if_splits)
  have "wN rb2 = wN rb1" unfolding two(1) by (simp add: wN_def)
  with Writer_Commit_inv [OF two(2-4) cm] two(1,5) size fits show ?thesis
    by (auto simp: commit_size_def subarray_memcpy_same intro: idle_intro)
qed

lemma ring_get_law:
  assumes "ring_idle rb" "ring_get rb n = (bs, rb')"
  shows "ring_idle rb' \<and> bs @ rb_contents rb' = rb_contents rb \<and> length bs \<le> n \<and>
    (0 < n \<longrightarrow> rb_contents rb \<noteq> [] \<longrightarrow> bs \<noteq> [])"
proof (cases "n = 0")
  case True
  with assms show ?thesis
    by (auto simp: ring_get_def RingBuffer_CreateReader_def ASSERT_fail)
next
  case False
  let ?n = "word_of_nat (min n cap) :: UINT32"
  have n: "unat ?n = min n cap" by (rule unat_of_nat32) simp
  with False have pos: "0 < unat ?n" "0 < ?n" by (simp_all add: word_less_nat_alt)
  from assms(1) have i: "rb_wf rb" "\<not> m_isActiveReader rb" by (simp_all add: ring_idle_def)
  note h = idle_handles [OF assms(1)]
  obtain r rb1 where c: "RingBuffer_CreateReader Debug rb ?n = Inr (r, rb1)"
    using Create_ok(3) [OF pos(2) i(2)] by (auto simp: is_ok_iff)
  note one = CreateReader_inv [OF i(1) conjunct1 [OF h] conjunct2 [OF h] i(2) pos(1) c]
  show ?thesis
  proof (cases "RingBufferReader_IsValid r")
    case False
    with i(1) pos(1) c have "rb_contents rb = []" "r = RingBufferReader_null"
      using contents_empty_iff [OF i(1)]
      by (cases rule: CreateReader_elim; simp add: handle_valid)+
    with assms(2) c False one show ?thesis by (auto simp: ring_get_def intro: idle_intro)
  next
    case True
    have "is_ok (RingBuffer_CommitRead Debug rb1 r 0)"
      using one True by (intro CommitRead_ok) simp_all
    then obtain r' rb2 where cm: "RingBufferReader_Commit Debug rb1 r 0 = Inr (r', rb2)"
      using True by (auto simp: is_ok_iff RingBufferReader_Commit_def RingBufferReader_IsValid_def)
    have one': "rb_wf rb1" "wr_ok rb1 RingBufferWriter_null" "rd_ok rb1 r" "rb_contents rb1 = rb_contents rb"
      using one by simp_all
    note two = Reader_Commit_inv [OF one'(1-3) cm]
    have size: "unat (rd_size r) \<le> n" "0 < unat (rd_size r)" and ptr: "rd_ptr r = Some (m_readCursor rb1)"
      "unat (rd_size r) \<le> read_room rb1"
      using i(1) pos(1) c True n
      by (cases rule: CreateReader_elim; simp; fail)+
    have "bs = subarray (m_ring rb1) (rN rb1) (rN rb1 + unat (rd_size r))" "rb' = rb2"
      using assms(2) c True cm ptr(1)
      by (simp_all add: ring_get_def RingBufferReader_load_def rN_def)
    moreover have "length (subarray (m_ring rb1) (rN rb1) (rN rb1 + unat (rd_size r))) = unat (rd_size r)"
      using one'(1) ptr(2) by (auto simp: rb_wf_def read_room_def split: if_splits)
    ultimately show ?thesis
      using two one'(4) size by (auto simp: commit_size_def intro: idle_intro)
  qed
qed

interpretation ring_bytes: byte_fifo ring_idle rb_contents ring_put ring_get
proof
  show "ring_idle rb \<Longrightarrow> ring_put rb bs = Some rb' \<Longrightarrow>
      ring_idle rb' \<and> rb_contents rb' = rb_contents rb @ bs" for rb bs rb'
    by (rule ring_put_law)
  show "ring_idle rb \<Longrightarrow> ring_get rb n = (bs, rb') \<Longrightarrow>
      ring_idle rb' \<and> bs @ rb_contents rb' = rb_contents rb \<and> length bs \<le> n" for rb n bs rb'
    using ring_get_law by blast
  show "ring_idle rb \<Longrightarrow> rb_contents rb \<noteq> [] \<Longrightarrow> 0 < n \<Longrightarrow> ring_get rb n = (bs, rb') \<Longrightarrow> bs \<noteq> []"
    for rb n bs rb'
    using ring_get_law by blast
qed



end
