(* ===== verification/Recv_Buffer.thy ===== *)
theory Recv_Buffer
  imports Contracts
begin

text \<open>
  \<^verbatim>\<open>DataStruct/RecvBuffer\<close> and \<^verbatim>\<open>DataStruct/SendBuffer\<close>: the linear receive buffer of a
  session, which is compacted instead of wrapped, and the block one send owns. A span is its
  offset in the vector and its size. The buffer is proved to be the byte queue of
  \<open>Contracts\<close>; a compaction moves no boundary and makes the promised room.
\<close>

section \<open>The receive buffer\<close>

record RecvBuffer =
  rv_buffer :: "BYTE list"
  rv_minWritableSize :: UINT32
  rv_readPos :: UINT32
  rv_writePos :: UINT32

type_synonym span = "UINT32 \<times> UINT32"

definition RecvBuffer_new :: "build \<Rightarrow> UINT32 \<Rightarrow> UINT32 \<Rightarrow> RecvBuffer res" where
  "RecvBuffer_new b capacity minWritableSize =
     ASSERT b (0 < minWritableSize) ''Min writable size is 0''
       (ASSERT b (minWritableSize \<le> capacity div 2)
         ''Capacity must be at least twice the min writable size''
         (Inr \<lparr>rv_buffer = replicate (unat capacity) 0, rv_minWritableSize = minWritableSize,
               rv_readPos = 0, rv_writePos = 0\<rparr>))"

definition RecvBuffer_GetWritableSize :: "RecvBuffer \<Rightarrow> UINT32" where
  "RecvBuffer_GetWritableSize rv = word_of_nat (length (rv_buffer rv)) - rv_writePos rv"

definition RecvBuffer_GetReadableSize :: "RecvBuffer \<Rightarrow> UINT32" where
  "RecvBuffer_GetReadableSize rv = rv_writePos rv - rv_readPos rv"

definition RecvBuffer_GetWritableSpan :: "RecvBuffer \<Rightarrow> span" where
  "RecvBuffer_GetWritableSpan rv = (rv_writePos rv, RecvBuffer_GetWritableSize rv)"

definition RecvBuffer_GetReadableSpan :: "RecvBuffer \<Rightarrow> span" where
  "RecvBuffer_GetReadableSpan rv = (rv_readPos rv, RecvBuffer_GetReadableSize rv)"

definition RecvBuffer_CommitWrite :: "build \<Rightarrow> RecvBuffer \<Rightarrow> UINT32 \<Rightarrow> RecvBuffer res" where
  "RecvBuffer_CommitWrite b rv writeSize =
     ASSERT b (writeSize \<le> RecvBuffer_GetWritableSize rv) ''Write size exceeds writable size''
       (Inr (rv\<lparr>rv_writePos := rv_writePos rv + writeSize\<rparr>))"

definition RecvBuffer_Consume :: "build \<Rightarrow> RecvBuffer \<Rightarrow> UINT32 \<Rightarrow> RecvBuffer res" where
  "RecvBuffer_Consume b rv readSize =
     ASSERT b (readSize \<le> RecvBuffer_GetReadableSize rv) ''Read size exceeds readable size''
       (Inr (rv\<lparr>rv_readPos := rv_readPos rv + readSize\<rparr>))"

definition RecvBuffer_Clear :: "RecvBuffer \<Rightarrow> RecvBuffer" where
  "RecvBuffer_Clear rv = rv\<lparr>rv_readPos := 0, rv_writePos := 0\<rparr>"

text \<open>
  \<^verbatim>\<open>std::memmove\<close> of a region that runs past the vector is undefined behaviour; it needs
  positions that no operation leaves in place while the assertions are compiled in.
\<close>

definition RecvBuffer_Compact :: "RecvBuffer \<Rightarrow> RecvBuffer res" where
  "RecvBuffer_Compact rv =
     (let readableSize = RecvBuffer_GetReadableSize rv
      in if readableSize = 0 then Inr (RecvBuffer_Clear rv)
         else if rv_minWritableSize rv \<le> RecvBuffer_GetWritableSize rv then Inr rv
         else if length (rv_buffer rv) < unat (rv_readPos rv) + unat readableSize
         then Inl OutOfBounds
         else Inr (rv\<lparr>rv_buffer := memcpy_at (rv_buffer rv) 0
                        (subarray (rv_buffer rv) (unat (rv_readPos rv))
                           (unat (rv_readPos rv) + unat readableSize)),
                      rv_readPos := 0, rv_writePos := readableSize\<rparr>))"

text \<open>What a user does with the spans: store received bytes into one, look at the other.\<close>

definition RecvBuffer_store :: "RecvBuffer \<Rightarrow> BYTE list \<Rightarrow> RecvBuffer res" where
  "RecvBuffer_store rv bs =
     (case RecvBuffer_GetWritableSpan rv of (off, n) \<Rightarrow>
        if unat off + length bs \<le> length (rv_buffer rv)
        then Inr (rv\<lparr>rv_buffer := memcpy_at (rv_buffer rv) (unat off) bs\<rparr>)
        else Inl OutOfBounds)"

definition RecvBuffer_load :: "RecvBuffer \<Rightarrow> BYTE list res" where
  "RecvBuffer_load rv =
     (case RecvBuffer_GetReadableSpan rv of (off, n) \<Rightarrow>
        if unat off + unat n \<le> length (rv_buffer rv)
        then Inr (subarray (rv_buffer rv) (unat off) (unat off + unat n))
        else Inl OutOfBounds)"

section \<open>Its invariant\<close>

definition rv_wf :: "RecvBuffer \<Rightarrow> bool" where
  "rv_wf rv \<longleftrightarrow>
     length (rv_buffer rv) < 2 ^ 32 \<and>
     unat (rv_readPos rv) \<le> unat (rv_writePos rv) \<and>
     unat (rv_writePos rv) \<le> length (rv_buffer rv) \<and>
     0 < unat (rv_minWritableSize rv) \<and>
     2 * unat (rv_minWritableSize rv) \<le> length (rv_buffer rv)"

definition rv_readable :: "RecvBuffer \<Rightarrow> BYTE list" where
  "rv_readable rv = subarray (rv_buffer rv) (unat (rv_readPos rv)) (unat (rv_writePos rv))"

definition rv_room :: "RecvBuffer \<Rightarrow> nat" where
  "rv_room rv = length (rv_buffer rv) - unat (rv_writePos rv)"

lemma rv_writable_size: "rv_wf rv \<Longrightarrow> unat (RecvBuffer_GetWritableSize rv) = rv_room rv"
  by (simp add: rv_wf_def RecvBuffer_GetWritableSize_def rv_room_def unat_sub_le unat_of_nat32)

lemma rv_readable_size: "rv_wf rv \<Longrightarrow> unat (RecvBuffer_GetReadableSize rv) = length (rv_readable rv)"
  by (simp add: rv_wf_def RecvBuffer_GetReadableSize_def rv_readable_def unat_sub_le)

lemma rv_new_wf:
  assumes "RecvBuffer_new Debug c m = Inr rv"
  shows "rv_wf rv \<and> rv_readable rv = [] \<and> rv_room rv = unat c"
proof -
  from assms have "0 < m" "m \<le> c div 2"
    and rv: "rv = \<lparr>rv_buffer = replicate (unat c) 0, rv_minWritableSize = m,
               rv_readPos = 0, rv_writePos = 0\<rparr>"
    by (auto simp: RecvBuffer_new_def res_simps)
  then have "0 < unat m" "2 * unat m \<le> unat c"
    by (auto simp: word_nat unat_div unat_gt_0)
  moreover have "unat c < 2 ^ 32"
    using unsigned_less[of c] by simp
  ultimately show ?thesis
    by (simp add: rv rv_wf_def rv_readable_def rv_room_def)
qed

lemma rv_store_commit:
  assumes "rv_wf rv" "length bs \<le> rv_room rv"
  obtains rv1 rv2 where "RecvBuffer_store rv bs = Inr rv1"
    "RecvBuffer_CommitWrite b rv1 (word_of_nat (length bs)) = Inr rv2"
    "rv_wf rv2" "rv_readable rv2 = rv_readable rv @ bs" "rv_room rv2 = rv_room rv - length bs"
    "rv_minWritableSize rv2 = rv_minWritableSize rv" "rv_readPos rv2 = rv_readPos rv"
proof -
  let ?w = "unat (rv_writePos rv)" and ?buf = "memcpy_at (rv_buffer rv) (unat (rv_writePos rv)) bs"
  let ?rv1 = "rv\<lparr>rv_buffer := ?buf\<rparr>"
  let ?rv2 = "?rv1\<lparr>rv_writePos := rv_writePos rv + word_of_nat (length bs)\<rparr>"
  from assms have fit: "?w + length bs \<le> length (rv_buffer rv)"
    and bnd: "length (rv_buffer rv) < 4294967296"
    and ord: "unat (rv_readPos rv) \<le> ?w"
    by (auto simp: rv_wf_def rv_room_def)
  have len: "unat (word_of_nat (length bs) :: UINT32) = length bs"
    using fit bnd by (simp add: unat_of_nat32)
  have w2: "unat (rv_writePos rv + word_of_nat (length bs)) = ?w + length bs"
    using fit bnd len by (simp add: unat_add_small32)
  have wf1: "rv_wf ?rv1" and room1: "rv_room ?rv1 = rv_room rv"
    using assms fit by (auto simp: rv_wf_def rv_room_def)
  have "RecvBuffer_store rv bs = Inr ?rv1"
    using fit by (simp add: RecvBuffer_store_def RecvBuffer_GetWritableSpan_def)
  moreover have "RecvBuffer_CommitWrite b ?rv1 (word_of_nat (length bs)) = Inr ?rv2"
    using assms(2) len room1 rv_writable_size[OF wf1]
    by (simp add: RecvBuffer_CommitWrite_def word_nat)
  moreover have "rv_wf ?rv2"
    using assms fit w2 by (auto simp: rv_wf_def)
  moreover have "rv_readable ?rv2 = rv_readable rv @ bs"
  proof -
    have "rv_readable ?rv2 = subarray ?buf (unat (rv_readPos rv)) ?w @ subarray ?buf ?w (?w + length bs)"
      using w2 ord by (simp add: rv_readable_def subarray_append)
    then show ?thesis
      using fit by (simp add: rv_readable_def subarray_memcpy_before subarray_memcpy_same)
  qed
  moreover have "rv_room ?rv2 = rv_room rv - length bs"
    using fit w2 by (simp add: rv_room_def)
  ultimately show thesis using that by simp
qed

lemma rv_consume:
  assumes "rv_wf rv" "n \<le> length (rv_readable rv)"
  obtains rv' where "RecvBuffer_Consume b rv (word_of_nat n) = Inr rv'"
    "rv_wf rv'" "rv_readable rv' = drop n (rv_readable rv)" "rv_room rv' = rv_room rv"
    "rv_minWritableSize rv' = rv_minWritableSize rv"
proof -
  let ?r = "unat (rv_readPos rv)" and ?w = "unat (rv_writePos rv)"
  let ?rv' = "rv\<lparr>rv_readPos := rv_readPos rv + word_of_nat n\<rparr>"
  from assms have bnd: "length (rv_buffer rv) < 4294967296"
    and ord: "?r \<le> ?w" "?w \<le> length (rv_buffer rv)" and n: "?r + n \<le> ?w"
    by (auto simp: rv_wf_def rv_readable_def)
  then have len: "unat (word_of_nat n :: UINT32) = n"
    by (simp add: unat_of_nat32)
  have r2: "unat (rv_readPos rv + word_of_nat n) = ?r + n"
    using n ord bnd len by (simp add: unat_add_small32)
  have "RecvBuffer_Consume b rv (word_of_nat n) = Inr ?rv'"
    using assms(2) len rv_readable_size[OF assms(1)]
    by (simp add: RecvBuffer_Consume_def word_nat)
  moreover have "rv_wf ?rv'"
    using assms(1) n r2 by (auto simp: rv_wf_def)
  moreover have "rv_readable ?rv' = drop n (rv_readable rv)"
    using r2 by (simp add: rv_readable_def drop_subarray add.commute)
  ultimately show thesis using that by (simp add: rv_room_def)
qed

lemma rv_clear:
  "rv_wf rv \<Longrightarrow> rv_wf (RecvBuffer_Clear rv) \<and> rv_readable (RecvBuffer_Clear rv) = [] \<and>
     rv_room (RecvBuffer_Clear rv) = length (rv_buffer rv)"
  by (auto simp: rv_wf_def RecvBuffer_Clear_def rv_readable_def rv_room_def)

text \<open>
  A compaction keeps the readable bytes. Afterwards the room is the promised minimum, or
  everything the readable bytes do not take.
\<close>

lemma rv_compact:
  assumes "rv_wf rv"
  obtains rv' where "RecvBuffer_Compact rv = Inr rv'" "rv_wf rv'"
    "rv_readable rv' = rv_readable rv" "length (rv_buffer rv') = length (rv_buffer rv)"
    "rv_minWritableSize rv' = rv_minWritableSize rv"
    "unat (rv_minWritableSize rv) \<le> rv_room rv' \<or>
     rv_readPos rv' = 0 \<and> rv_room rv' = length (rv_buffer rv) - length (rv_readable rv)"
proof -
  let ?r = "unat (rv_readPos rv)" and ?w = "unat (rv_writePos rv)"
  let ?n = "RecvBuffer_GetReadableSize rv"
  let ?mv = "rv\<lparr>rv_buffer := memcpy_at (rv_buffer rv) 0 (subarray (rv_buffer rv) ?r (?r + unat ?n)),
                rv_readPos := 0, rv_writePos := ?n\<rparr>"
  from assms have ord: "?r \<le> ?w" "?w \<le> length (rv_buffer rv)"
    by (auto simp: rv_wf_def)
  have n: "unat ?n = ?w - ?r"
    using rv_readable_size[OF assms] ord by (simp add: rv_readable_def)
  have src: "length (subarray (rv_buffer rv) ?r (?r + unat ?n)) = unat ?n"
    using n ord by simp
  have len: "length (rv_buffer ?mv) = length (rv_buffer rv)"
    using src n ord by simp
  have moved: "rv_wf ?mv" "rv_readable ?mv = rv_readable rv"
    "rv_room ?mv = length (rv_buffer rv) - length (rv_readable rv)"
  proof -
    show "rv_wf ?mv"
      using assms len n ord by (simp add: rv_wf_def)
    have "rv_readable ?mv = subarray (rv_buffer rv) ?r (?r + unat ?n)"
      using subarray_memcpy_same[of 0 "subarray (rv_buffer rv) ?r (?r + unat ?n)" "rv_buffer rv"]
        src n ord by (simp add: rv_readable_def)
    then show "rv_readable ?mv = rv_readable rv"
      using n ord by (simp add: rv_readable_def)
    show "rv_room ?mv = length (rv_buffer rv) - length (rv_readable rv)"
      using len n ord by (simp add: rv_room_def rv_readable_def)
  qed
  consider "?n = 0" | "?n \<noteq> 0" "rv_minWritableSize rv \<le> RecvBuffer_GetWritableSize rv"
    | "?n \<noteq> 0" "\<not> rv_minWritableSize rv \<le> RecvBuffer_GetWritableSize rv" by blast
  then show thesis
  proof cases
    case 1
    then have "rv_readable rv = []"
      using rv_readable_size[OF assms] by simp
    with 1 rv_clear[OF assms] show thesis
      by (intro that[of "RecvBuffer_Clear rv"])
        (simp_all add: RecvBuffer_Compact_def Let_def RecvBuffer_Clear_def)
  next
    case 2
    with assms rv_writable_size[OF assms] show thesis
      by (intro that[of rv]) (simp_all add: RecvBuffer_Compact_def Let_def word_nat)
  next
    case 3
    then have "RecvBuffer_Compact rv = Inr ?mv"
      using n ord by (simp add: RecvBuffer_Compact_def Let_def)
    with moved len show thesis
      by (intro that[of ?mv]) simp_all
  qed
qed

section \<open>The buffer as a byte queue\<close>

text \<open>
  One turn of a receive loop: make room, let at most the writable span be filled, commit; and
  on the other side consume at most what is readable.
\<close>

definition rv_put :: "build \<Rightarrow> RecvBuffer \<Rightarrow> BYTE list \<Rightarrow> RecvBuffer option" where
  "rv_put b rv bs =
     (case RecvBuffer_Compact rv of
        Inl _ \<Rightarrow> None
      | Inr rv1 \<Rightarrow>
          if length bs \<le> unat (RecvBuffer_GetWritableSize rv1)
          then (case bind_res (RecvBuffer_store rv1 bs)
                       (\<lambda>rv2. RecvBuffer_CommitWrite b rv2 (word_of_nat (length bs))) of
                  Inl _ \<Rightarrow> None | Inr rv3 \<Rightarrow> Some rv3)
          else None)"

definition rv_get :: "build \<Rightarrow> RecvBuffer \<Rightarrow> nat \<Rightarrow> BYTE list \<times> RecvBuffer" where
  "rv_get b rv n =
     (let k = min n (unat (RecvBuffer_GetReadableSize rv))
      in case RecvBuffer_load rv of
           Inl _ \<Rightarrow> ([], rv)
         | Inr bs \<Rightarrow>
             (case RecvBuffer_Consume b rv (word_of_nat k) of
                Inl _ \<Rightarrow> ([], rv)
              | Inr rv' \<Rightarrow> (take k bs, rv')))"

lemma rv_load: "rv_wf rv \<Longrightarrow> RecvBuffer_load rv = Inr (rv_readable rv)"
  using rv_readable_size[of rv]
  by (auto simp: RecvBuffer_load_def RecvBuffer_GetReadableSpan_def rv_readable_def rv_wf_def)

lemma rv_get_eq:
  assumes "rv_wf rv"
  obtains rv' where "rv_get b rv n = (take n (rv_readable rv), rv')" "rv_wf rv'"
    "rv_readable rv' = drop n (rv_readable rv)"
proof -
  let ?k = "min n (length (rv_readable rv))"
  obtain rv' where "RecvBuffer_Consume b rv (word_of_nat ?k) = Inr rv'" "rv_wf rv'"
    "rv_readable rv' = drop ?k (rv_readable rv)"
    by (rule rv_consume[OF assms, of ?k b]) auto
  then show thesis
    using that[of rv'] rv_load[OF assms] rv_readable_size[OF assms]
    by (simp add: rv_get_def Let_def min_def split: if_splits)
qed

lemma rv_put_eq:
  assumes "rv_wf rv" "rv_put b rv bs = Some rv'"
  shows "rv_wf rv' \<and> rv_readable rv' = rv_readable rv @ bs"
proof -
  obtain rv1 where c: "RecvBuffer_Compact rv = Inr rv1" "rv_wf rv1" "rv_readable rv1 = rv_readable rv"
    using rv_compact[OF assms(1)] by metis
  with assms(2) have fits: "length bs \<le> rv_room rv1"
    by (auto simp: rv_put_def rv_writable_size split: if_splits)
  from rv_store_commit[OF c(2) this, of b] obtain rv2 rv3 where
    "RecvBuffer_store rv1 bs = Inr rv2"
    "RecvBuffer_CommitWrite b rv2 (word_of_nat (length bs)) = Inr rv3"
    "rv_wf rv3" "rv_readable rv3 = rv_readable rv1 @ bs" by metis
  with assms(2) c show ?thesis
    by (auto simp: rv_put_def split: if_splits)
qed

text \<open>A block of the promised size is accepted whenever the readable bytes leave room for one.\<close>

lemma rv_put_accepts:
  assumes "rv_wf rv" "length (rv_readable rv) + unat (rv_minWritableSize rv) \<le> length (rv_buffer rv)"
    and "length bs \<le> unat (rv_minWritableSize rv)"
  obtains rv' where "rv_put b rv bs = Some rv'"
proof -
  obtain rv1 where c: "RecvBuffer_Compact rv = Inr rv1" "rv_wf rv1" "rv_readable rv1 = rv_readable rv"
    "unat (rv_minWritableSize rv) \<le> rv_room rv1 \<or> rv_room rv1 = length (rv_buffer rv) - length (rv_readable rv)"
    by (rule rv_compact[OF assms(1)]) auto
  with assms(2,3) have fits: "length bs \<le> rv_room rv1" by auto
  from rv_store_commit[OF c(2) fits, of b] obtain rv2 rv3 where
    "RecvBuffer_store rv1 bs = Inr rv2"
    "RecvBuffer_CommitWrite b rv2 (word_of_nat (length bs)) = Inr rv3" by metis
  with c fits that show thesis by (simp add: rv_put_def rv_writable_size)
qed

interpretation recv_bytes: byte_fifo rv_wf rv_readable "rv_put b" "rv_get b" for b
proof unfold_locales
  fix rv rv' :: RecvBuffer and bs n
  assume wf: "rv_wf rv"
  show "rv_put b rv bs = Some rv' \<Longrightarrow> rv_wf rv' \<and> rv_readable rv' = rv_readable rv @ bs"
    using rv_put_eq[OF wf] .
  show "rv_get b rv n = (bs, rv') \<Longrightarrow>
      rv_wf rv' \<and> bs @ rv_readable rv' = rv_readable rv \<and> length bs \<le> n"
    using rv_get_eq[OF wf, of b n] by fastforce
  show "rv_readable rv \<noteq> [] \<Longrightarrow> 0 < n \<Longrightarrow> rv_get b rv n = (bs, rv') \<Longrightarrow> bs \<noteq> []"
    using rv_get_eq[OF wf, of b n] by fastforce
qed


section \<open>Sequences of calls\<close>

text \<open>
  A caller may use the public operations in any order and with any sizes; it writes through
  the writable span, so never past its size.
\<close>

datatype rv_call = RvFill "BYTE list" | RvCommit UINT32 | RvConsume UINT32 | RvCompact | RvClear

fun rv_do :: "build \<Rightarrow> RecvBuffer \<Rightarrow> rv_call \<Rightarrow> RecvBuffer res" where
  "rv_do b rv (RvFill bs) =
     RecvBuffer_store rv (take (unat (RecvBuffer_GetWritableSize rv)) bs)"
| "rv_do b rv (RvCommit n) = RecvBuffer_CommitWrite b rv n"
| "rv_do b rv (RvConsume n) = RecvBuffer_Consume b rv n"
| "rv_do b rv RvCompact = RecvBuffer_Compact rv"
| "rv_do b rv RvClear = Inr (RecvBuffer_Clear rv)"

fun rv_calls :: "build \<Rightarrow> RecvBuffer \<Rightarrow> rv_call list \<Rightarrow> RecvBuffer res" where
  "rv_calls b rv [] = Inr rv"
| "rv_calls b rv (c # cs) = bind_res (rv_do b rv c) (\<lambda>rv'. rv_calls b rv' cs)"

definition assertion_failure :: "'a res \<Rightarrow> bool" where
  "assertion_failure r = (case r of Inl (AssertFailed _) \<Rightarrow> True | _ \<Rightarrow> False)"

lemma rv_commit_wf:
  assumes "rv_wf rv"
  shows "case RecvBuffer_CommitWrite Debug rv n of
      Inr rv' \<Rightarrow> rv_wf rv' \<and> length (rv_buffer rv') = length (rv_buffer rv)
    | Inl e \<Rightarrow> assertion_failure (Inl e :: RecvBuffer res)"
proof (cases "n \<le> RecvBuffer_GetWritableSize rv")
  case True
  with rv_writable_size[OF assms] have "unat n \<le> rv_room rv"
    by (simp add: word_nat)
  with assms have "unat (rv_writePos rv + n) = unat (rv_writePos rv) + unat n"
    "unat (rv_writePos rv) + unat n \<le> length (rv_buffer rv)"
    by (auto simp: rv_wf_def rv_room_def unat_add_small32)
  with assms True show ?thesis
    by (auto simp: RecvBuffer_CommitWrite_def rv_wf_def)
qed (simp add: RecvBuffer_CommitWrite_def ASSERT_fail assertion_failure_def)

lemma rv_consume_wf:
  assumes "rv_wf rv"
  shows "case RecvBuffer_Consume Debug rv n of
      Inr rv' \<Rightarrow> rv_wf rv' \<and> length (rv_buffer rv') = length (rv_buffer rv)
    | Inl e \<Rightarrow> assertion_failure (Inl e :: RecvBuffer res)"
proof (cases "n \<le> RecvBuffer_GetReadableSize rv")
  case True
  with rv_readable_size[OF assms] have "unat n \<le> length (rv_readable rv)"
    by (simp add: word_nat)
  with rv_consume[OF assms this, of Debug] show ?thesis
    using True by (auto simp: RecvBuffer_Consume_def)
qed (simp add: RecvBuffer_Consume_def ASSERT_fail assertion_failure_def)

lemma rv_fill_wf:
  assumes "rv_wf rv" "length bs \<le> rv_room rv"
  shows "\<exists>rv'. RecvBuffer_store rv bs = Inr rv' \<and> rv_wf rv' \<and>
    length (rv_buffer rv') = length (rv_buffer rv)"
  using assms
  by (auto simp: RecvBuffer_store_def RecvBuffer_GetWritableSpan_def rv_wf_def rv_room_def)

lemma rv_do_wf:
  assumes "rv_wf rv"
  shows "case rv_do Debug rv c of
      Inr rv' \<Rightarrow> rv_wf rv' \<and> length (rv_buffer rv') = length (rv_buffer rv)
    | Inl e \<Rightarrow> assertion_failure (Inl e :: RecvBuffer res)"
proof (cases c)
  case (RvFill bs)
  have "length (take (unat (RecvBuffer_GetWritableSize rv)) bs) \<le> rv_room rv"
    using rv_writable_size[OF assms] by simp
  from rv_fill_wf[OF assms this] RvFill show ?thesis by auto
next
  case (RvCommit n)
  with rv_commit_wf[OF assms, of n] show ?thesis by simp
next
  case (RvConsume n)
  with rv_consume_wf[OF assms, of n] show ?thesis by simp
next
  case RvCompact
  obtain rv' where "RecvBuffer_Compact rv = Inr rv'" "rv_wf rv'"
    "length (rv_buffer rv') = length (rv_buffer rv)"
    using rv_compact[OF assms] by metis
  with RvCompact show ?thesis by simp
next
  case RvClear
  with rv_clear[OF assms] show ?thesis by (simp add: RecvBuffer_Clear_def)
qed

lemma rv_calls_wf:
  "rv_wf rv \<Longrightarrow> case rv_calls Debug rv cs of
      Inr rv' \<Rightarrow> rv_wf rv' \<and> length (rv_buffer rv') = length (rv_buffer rv)
    | Inl e \<Rightarrow> assertion_failure (Inl e :: RecvBuffer res)"
proof (induction cs arbitrary: rv)
  case (Cons c cs)
  note step = rv_do_wf[OF Cons.prems, of c]
  show ?case
  proof (cases "rv_do Debug rv c")
    case (Inr rv1)
    with step Cons.IH[of rv1] show ?thesis by (simp split: sum.splits)
  qed (use step in simp)
qed simp

lemma rv_do_min: "rv_do b rv c = Inr rv' \<Longrightarrow> rv_minWritableSize rv' = rv_minWritableSize rv"
  by (cases c) (auto simp: RecvBuffer_store_def RecvBuffer_GetWritableSpan_def res_simps
      RecvBuffer_CommitWrite_def RecvBuffer_Consume_def RecvBuffer_Compact_def RecvBuffer_Clear_def
      Let_def split: if_splits)

lemma rv_calls_min: "rv_calls b rv cs = Inr rv' \<Longrightarrow> rv_minWritableSize rv' = rv_minWritableSize rv"
  by (induction cs arbitrary: rv) (auto simp: res_simps dest: rv_do_min)

section \<open>The send buffer\<close>

record SendBuffer =
  sb_data :: "BYTE list"

definition SendBuffer_new :: "build \<Rightarrow> UINT32 \<Rightarrow> SendBuffer res" where
  "SendBuffer_new b sz =
     ASSERT b (0 < sz) ''Send buffer size is 0''
       (Inr \<lparr>sb_data = replicate (unat sz) 0\<rparr>)"

text \<open>Both spans are the whole vector.\<close>

definition SendBuffer_GetWritableSpan :: "SendBuffer \<Rightarrow> nat \<times> nat" where
  "SendBuffer_GetWritableSpan sb = (0, length (sb_data sb))"

definition SendBuffer_GetSpan :: "SendBuffer \<Rightarrow> nat \<times> nat" where
  "SendBuffer_GetSpan sb = (0, length (sb_data sb))"

definition SendBuffer_GetSize :: "SendBuffer \<Rightarrow> UINT32" where
  "SendBuffer_GetSize sb = word_of_nat (length (sb_data sb))"

definition span_bytes :: "SendBuffer \<Rightarrow> BYTE list" where
  "span_bytes sb = (case SendBuffer_GetSpan sb of (off, n) \<Rightarrow> take n (drop off (sb_data sb)))"

lemma span_bytes_all [simp]: "span_bytes sb = sb_data sb"
  by (simp add: span_bytes_def SendBuffer_GetSpan_def)

lemma sb_size: "SendBuffer_new b n = Inr sb \<Longrightarrow> SendBuffer_GetSize sb = n"
  by (auto simp: SendBuffer_new_def res_simps SendBuffer_GetSize_def)

section \<open>Properties\<close>

text \<open>
  C7: (buffer \<^verbatim>\<open>RecvBuffer\<close>, refinement) Whatever the interleaving of receives (each after a
  \<^verbatim>\<open>Compact\<close>, refused when it exceeds the writable span) and consumptions, in either build,
  the bytes consumed followed by the bytes still readable are exactly the bytes received, in
  order; consuming blocks of any positive size then empties the buffer.
\<close>
theorem recv_buffer_stream:
  assumes "RecvBuffer_new Debug c m = Inr rv"
    and "byte_run (rv_put b) (rv_get b) rv ops = (ins, outs, t)"
  shows "outs @ rv_readable t = ins \<and>
    (0 < n \<and> length (rv_readable t) \<le> k \<longrightarrow>
       (\<exists>u. byte_drain (rv_get b) n k t = (rv_readable t, u) \<and> rv_readable u = []))"
proof -
  from rv_new_wf[OF assms(1)] have wf: "rv_wf rv" "rv_readable rv = []" by auto
  from recv_bytes.run_conserves[OF wf(1) assms(2)] wf(2)
  have "rv_wf t" "outs @ rv_readable t = ins" by auto
  then show ?thesis
    using recv_bytes.drain_empties[of t n k b] by blast
qed

lemma recv_buffer_stream_witness:
  "\<exists>rv ins outs t u. RecvBuffer_new Debug 8 2 = Inr rv \<and>
     byte_run (rv_put Debug) (rv_get Debug) rv
       [Put [1, 2, 3, 4, 5, 6, 7], Get 5, Put [8, 9], Put [10, 11, 12, 13, 14], Get 3] = (ins, outs, t) \<and>
     outs = [1, 2, 3, 4, 5, 6, 7, 8] \<and> outs @ rv_readable t = ins \<and>
     byte_drain (rv_get Debug) 4 1 t = (rv_readable t, u) \<and> rv_readable u = []"
proof -
  let ?ops = "[Put [1, 2, 3, 4, 5, 6, 7], Get 5, Put [8, 9], Put [10, 11, 12, 13, 14], Get 3]"
  obtain rv where rv: "RecvBuffer_new Debug 8 2 = Inr rv"
    by (simp add: RecvBuffer_new_def word_nat)
  obtain ins outs t where run:
    "byte_run (rv_put Debug) (rv_get Debug) rv ?ops = (ins, outs, t)" by (metis prod_cases3)
  have "map_sum id (\<lambda>rv. case byte_run (rv_put Debug) (rv_get Debug) rv ?ops of
         (ins, outs, t) \<Rightarrow> (outs, length (rv_readable t))) (RecvBuffer_new Debug 8 2) =
      Inr ([1, 2, 3, 4, 5, 6, 7, 8], 1)"
    by code_simp
  with recv_buffer_stream[OF rv run, of 4 1] rv run show ?thesis by auto
qed

text \<open>
  C13: (buffer \<^verbatim>\<open>RecvBuffer\<close>, bounds) Where assertions are compiled in, no sequence of public
  calls with any sizes drives the positions out of order or past the vector, changes the
  capacity, or makes a span or the \<^verbatim>\<open>memmove\<close> of \<^verbatim>\<open>Compact\<close> touch memory outside the buffer:
  a call either keeps the invariant or ends in a failed assertion.
\<close>
theorem recv_buffer_calls_safe:
  assumes "RecvBuffer_new Debug c m = Inr rv"
  shows "case rv_calls Debug rv cs of
      Inl e \<Rightarrow> (\<exists>msg. e = AssertFailed msg)
    | Inr rv' \<Rightarrow>
        rv_readPos rv' \<le> rv_writePos rv' \<and> unat (rv_writePos rv') \<le> unat c \<and>
        length (rv_buffer rv') = unat c \<and> RecvBuffer_load rv' = Inr (rv_readable rv')"
proof -
  from rv_new_wf[OF assms] have wf: "rv_wf rv" by simp
  have len: "length (rv_buffer rv) = unat c"
    using assms by (auto simp: RecvBuffer_new_def res_simps)
  from rv_calls_wf[OF wf, of cs] len show ?thesis
    by (auto simp: assertion_failure_def rv_load word_nat rv_wf_def
        split: sum.splits error.splits)
qed

lemma recv_buffer_calls_safe_witness:
  "\<exists>rv rv'. RecvBuffer_new Debug 6 3 = Inr rv \<and>
     rv_calls Debug rv [RvFill [1, 2, 3, 4, 5], RvCommit 5, RvConsume 3, RvCompact] = Inr rv' \<and>
     rv_readable rv' = [4, 5] \<and> rv_readPos rv' = 0 \<and>
     RecvBuffer_load rv' = Inr (rv_readable rv') \<and> length (rv_buffer rv') = 6"
proof -
  let ?cs = "[RvFill [1, 2, 3, 4, 5], RvCommit 5, RvConsume 3, RvCompact]"
  obtain rv where rv: "RecvBuffer_new Debug 6 3 = Inr rv"
    by (simp add: RecvBuffer_new_def word_nat)
  have "bind_res (RecvBuffer_new Debug 6 3)
      (\<lambda>rv. map_sum id (\<lambda>rv'. (rv_readable rv', rv_readPos rv')) (rv_calls Debug rv ?cs)) =
      Inr ([4, 5], 0)"
    by code_simp
  then obtain rv' where "rv_calls Debug rv ?cs = Inr rv'" "rv_readable rv' = [4, 5]" "rv_readPos rv' = 0"
    using rv by (cases "rv_calls Debug rv ?cs") auto
  with recv_buffer_calls_safe[OF rv, of ?cs] rv show ?thesis by simp
qed

text \<open>
  After \<^verbatim>\<open>Compact\<close> the readable bytes are unchanged and,
  unless they themselves fill more than the capacity less the promised minimum, at least
  \<^verbatim>\<open>minWritableSize\<close> bytes are writable; so a receive of up to that size is always accepted. A
  message of at most half the capacity can therefore always be completed.
\<close>
theorem recv_buffer_compact_makes_room:
  assumes "RecvBuffer_new Debug c m = Inr rv0" "rv_calls Debug rv0 cs = Inr rv"
    and "length (rv_readable rv) \<le> unat c - unat m"
  shows "\<exists>rv'. RecvBuffer_Compact rv = Inr rv' \<and> rv_readable rv' = rv_readable rv \<and>
      m \<le> RecvBuffer_GetWritableSize rv' \<and>
      (\<forall>bs. length bs \<le> unat m \<longrightarrow> rv_put b rv bs \<noteq> None)"
proof -
  from rv_new_wf[OF assms(1)] have wf0: "rv_wf rv0" by simp
  have len0: "length (rv_buffer rv0) = unat c" "rv_minWritableSize rv0 = m"
    using assms(1) by (auto simp: RecvBuffer_new_def res_simps)
  from rv_calls_wf[OF wf0, of cs] assms(2) len0 have wf: "rv_wf rv" "length (rv_buffer rv) = unat c"
    by auto
  have min: "rv_minWritableSize rv = m"
    using rv_calls_min[OF assms(2)] len0 by simp
  obtain rv' where c: "RecvBuffer_Compact rv = Inr rv'" "rv_wf rv'" "rv_readable rv' = rv_readable rv"
    "unat m \<le> rv_room rv' \<or> rv_room rv' = unat c - length (rv_readable rv)"
    by (rule rv_compact[OF wf(1)]) (use min wf in auto)
  have "2 * unat m \<le> unat c"
    using wf min by (simp add: rv_wf_def)
  with c(4) assms(3) have room: "unat m \<le> rv_room rv'" by auto
  have "length (rv_readable rv) + unat (rv_minWritableSize rv) \<le> length (rv_buffer rv)"
    using assms(3) min wf \<open>2 * unat m \<le> unat c\<close> by simp
  then have "rv_put b rv bs \<noteq> None" if "length bs \<le> unat m" for bs
    using rv_put_accepts[OF wf(1), of bs b] that min by auto
  with c room show ?thesis
    by (auto simp: word_nat rv_writable_size)
qed

lemma recv_buffer_compact_makes_room_witness:
  "\<exists>rv0 rv rv'. RecvBuffer_new Debug 8 4 = Inr rv0 \<and>
     rv_calls Debug rv0 [RvFill [1, 2, 3, 4, 5, 6, 7, 8], RvCommit 8, RvConsume 5] = Inr rv \<and>
     RecvBuffer_GetWritableSize rv = 0 \<and>
     RecvBuffer_Compact rv = Inr rv' \<and> rv_readable rv' = [6, 7, 8] \<and>
     4 \<le> RecvBuffer_GetWritableSize rv'"
proof -
  let ?cs = "[RvFill [1, 2, 3, 4, 5, 6, 7, 8], RvCommit 8, RvConsume 5]"
  obtain rv0 where rv0: "RecvBuffer_new Debug 8 4 = Inr rv0"
    by (simp add: RecvBuffer_new_def word_nat)
  have "bind_res (RecvBuffer_new Debug 8 4)
      (\<lambda>rv. map_sum id (\<lambda>rv'. (rv_readable rv', RecvBuffer_GetWritableSize rv')) (rv_calls Debug rv ?cs)) =
      Inr ([6, 7, 8], 0)"
    by code_simp
  then obtain rv where "rv_calls Debug rv0 ?cs = Inr rv" "rv_readable rv = [6, 7, 8]"
    "RecvBuffer_GetWritableSize rv = 0"
    using rv0 by (cases "rv_calls Debug rv0 ?cs") auto
  with recv_buffer_compact_makes_room[OF rv0, of ?cs rv Debug] rv0 show ?thesis by force
qed


text \<open>
  The assertion of \<^verbatim>\<open>Consume\<close> is the only guard against
  consuming more than is readable. With it the call aborts; without it the readable size wraps
  around to just under \<open>2 ^ 32\<close>, and the readable span then reaches outside the buffer.
\<close>
theorem recv_buffer_overrun:
  assumes "rv_wf rv" "length (rv_readable rv) < unat n"
    and "unat (rv_readPos rv) + unat n < 2 ^ 32"
  shows "RecvBuffer_Consume Debug rv n = Inl (AssertFailed ''Read size exceeds readable size'') \<and>
    (\<exists>rv'. RecvBuffer_Consume NoDebug rv n = Inr rv' \<and>
       unat (RecvBuffer_GetReadableSize rv') = 2 ^ 32 - (unat n - length (rv_readable rv)) \<and>
       RecvBuffer_load rv' = Inl OutOfBounds)"
proof -
  let ?r = "unat (rv_readPos rv)" and ?w = "unat (rv_writePos rv)"
  let ?rv' = "rv\<lparr>rv_readPos := rv_readPos rv + n\<rparr>"
  from assms(1) have ord: "?r \<le> ?w" "?w \<le> length (rv_buffer rv)" "length (rv_buffer rv) < 4294967296"
    by (auto simp: rv_wf_def)
  then have len: "length (rv_readable rv) = ?w - ?r"
    by (simp add: rv_readable_def)
  have rd: "unat (rv_readPos rv + n) = ?r + unat n"
    using assms(3) by (simp add: unat_add_small32)
  have lt: "?w < ?r + unat n"
    using assms(2) len by simp
  have sz: "unat (RecvBuffer_GetReadableSize ?rv') = 4294967296 - (unat n - length (rv_readable rv))"
    using lt rd ord assms(3) len
    by (simp add: RecvBuffer_GetReadableSize_def unat_sub_if' word_nat)
  have "RecvBuffer_load ?rv' = Inl OutOfBounds"
    using sz rd ord len lt assms(3)
    by (simp add: RecvBuffer_load_def RecvBuffer_GetReadableSpan_def)
  moreover have "RecvBuffer_Consume Debug rv n = Inl (AssertFailed ''Read size exceeds readable size'')"
    using assms(2) rv_readable_size[OF assms(1)]
    by (simp add: RecvBuffer_Consume_def ASSERT_fail word_nat)
  ultimately show ?thesis
    using sz by (simp add: RecvBuffer_Consume_def)
qed

lemma recv_buffer_overrun_witness:
  "RecvBuffer_Consume Debug \<lparr>rv_buffer = [1, 2, 3, 4], rv_minWritableSize = 2, rv_readPos = 1, rv_writePos = 3\<rparr> 3
     = Inl (AssertFailed ''Read size exceeds readable size'')"
proof -
  let ?rv = "\<lparr>rv_buffer = [1, 2, 3, 4], rv_minWritableSize = 2, rv_readPos = 1, rv_writePos = 3\<rparr>"
  have "rv_wf ?rv" "length (rv_readable ?rv) < unat (3 :: UINT32)"
    "unat (rv_readPos ?rv) + unat (3 :: UINT32) < 2 ^ 32"
    by (simp_all add: rv_wf_def rv_readable_def)
  from recv_buffer_overrun[OF this] show ?thesis by simp
qed

end
