(* ===== verification/Packet_Model.thy ===== *)
theory Packet_Model
  imports Recv_Buffer
begin

text \<open>
  \<^verbatim>\<open>EngineCommon/Packet\<close>: the packed four-byte header, how it is read from the receive buffer,
  the typed body parsers and handlers, and the dispatcher's table of them. A message type of
  \<^verbatim>\<open>protobuf\<close> is represented by its \<^verbatim>\<open>ParseFromArray\<close>, which is not part of the repository: a
  function from the bytes and the message to the message it leaves and the success flag. The
  header is copied as memory, so its fields are little-endian, as on every platform the
  repository builds for.
\<close>

section \<open>Headers\<close>

record PacketHeader =
  ph_size :: UINT16
  ph_id :: UINT16

definition PacketHeader_new :: PacketHeader where
  "PacketHeader_new = \<lparr>ph_size = 0, ph_id = 0\<rparr>"

definition kHeaderSize :: UINT32 where
  "kHeaderSize = 2 + 2"

definition kMaxPacketSize :: UINT32 where
  "kMaxPacketSize = 1024 * 8"

definition PacketHeader_IsValid :: "PacketHeader \<Rightarrow> bool" where
  "PacketHeader_IsValid h \<longleftrightarrow>
     0 < ph_id h \<and> 0 < ph_size h \<and> kHeaderSize \<le> ucast (ph_size h) \<and> ucast (ph_size h) < kMaxPacketSize"

definition bytes_of_u16 :: "UINT16 \<Rightarrow> BYTE list" where
  "bytes_of_u16 w = [ucast w, ucast (drop_bit 8 w)]"

definition u16_of_bytes :: "BYTE \<Rightarrow> BYTE \<Rightarrow> UINT16" where
  "u16_of_bytes lo hi = ucast lo OR push_bit 8 (ucast hi)"

definition header_bytes :: "PacketHeader \<Rightarrow> BYTE list" where
  "header_bytes h = bytes_of_u16 (ph_size h) @ bytes_of_u16 (ph_id h)"

text \<open>The memory copy onto the packed structure.\<close>

definition memcpy_header :: "BYTE list \<Rightarrow> PacketHeader" where
  "memcpy_header bs = \<lparr>ph_size = u16_of_bytes (bs ! 0) (bs ! 1), ph_id = u16_of_bytes (bs ! 2) (bs ! 3)\<rparr>"

definition ParsePacketHeader :: "RecvBuffer \<Rightarrow> PacketHeader res" where
  "ParsePacketHeader recvBuffer =
     (let packetHeader = PacketHeader_new
      in if RecvBuffer_GetReadableSize recvBuffer < kHeaderSize then Inr packetHeader
         else bind_res (RecvBuffer_load recvBuffer) (\<lambda>bs.
           let packetHeader = memcpy_header (take (unat kHeaderSize) bs)
           in if RecvBuffer_GetReadableSize recvBuffer < ucast (ph_size packetHeader) then Inr packetHeader
              else Inr packetHeader))"

lemma u16_round_trip: "u16_of_bytes (ucast w) (ucast (drop_bit 8 w)) = w"
  by (rule bit_word_eqI) (auto simp: u16_of_bytes_def bit_simps)

lemma memcpy_header_bytes: "memcpy_header (header_bytes h) = h"
  by (simp add: memcpy_header_def header_bytes_def bytes_of_u16_def u16_round_trip)

lemma length_header_bytes [simp]: "length (header_bytes h) = 4"
  by (simp add: header_bytes_def bytes_of_u16_def)

lemma valid_header_bounds:
  "PacketHeader_IsValid h \<Longrightarrow> 4 \<le> unat (ph_size h) \<and> unat (ph_size h) < 8192"
  by (simp add: PacketHeader_IsValid_def kHeaderSize_def kMaxPacketSize_def word_nat unat_ucast_up)

section \<open>Packets and body parsers\<close>

record 'body Packet =
  pk_header :: PacketHeader
  pk_body :: "'body option"

definition Packet_new :: "PacketHeader \<Rightarrow> 'body option \<Rightarrow> 'body Packet" where
  "Packet_new packetHeader packetBody = \<lparr>pk_header = packetHeader, pk_body = packetBody\<rparr>"

definition Packet_GetHeader :: "'body Packet \<Rightarrow> PacketHeader" where
  "Packet_GetHeader p = pk_header p"

definition Packet_GetBody :: "'body Packet \<Rightarrow> 'body option" where
  "Packet_GetBody p = pk_body p"

text \<open>\<open>fresh\<close> is the default-constructed message of the type.\<close>

definition ParsePacketBody ::
  "(BYTE list \<Rightarrow> 'body \<Rightarrow> 'body \<times> bool) \<Rightarrow> 'body \<Rightarrow> BYTE list \<Rightarrow> 'body option" where
  "ParsePacketBody ParseFromArray fresh rawPacketBodyData =
     (let (packetBody, parsed) = ParseFromArray rawPacketBodyData fresh
      in if parsed = False then None else Some packetBody)"

section \<open>Handlers\<close>

text \<open>A raw handler is an \<^verbatim>\<open>std::function\<close>, possibly empty, that changes the state of the content.\<close>

type_synonym ('body, 's) RawPacketHandler = "(addr \<Rightarrow> 'body \<Rightarrow> 's \<Rightarrow> bool \<times> 's) option"

definition ProcessPacket ::
  "('body, 's) RawPacketHandler \<Rightarrow> addr \<Rightarrow> 'body option \<Rightarrow> 's \<Rightarrow> bool \<times> 's" where
  "ProcessPacket rawPacketHandler session packetBody s =
     (case (packetBody, rawPacketHandler) of
        (Some derivedPacketBody, Some handler) \<Rightarrow> handler session derivedPacketBody s
      | _ \<Rightarrow> (False, s))"

section \<open>The dispatcher\<close>

record ('body, 's) PacketProcessGroup =
  pg_parser :: "BYTE list \<Rightarrow> 'body option"
  pg_handler :: "addr \<Rightarrow> 'body option \<Rightarrow> 's \<Rightarrow> bool \<times> 's"

record ('body, 's) PacketDispatcher =
  pd_processGroup :: "UINT16 \<Rightarrow> ('body, 's) PacketProcessGroup option"

definition PacketDispatcher_new :: "('body, 's) PacketDispatcher" where
  "PacketDispatcher_new = \<lparr>pd_processGroup = (\<lambda>_. None)\<rparr>"

definition RegisterPacket ::
  "(BYTE list \<Rightarrow> 'body \<Rightarrow> 'body \<times> bool) \<Rightarrow> 'body \<Rightarrow> ('body, 's) PacketDispatcher \<Rightarrow> UINT16 \<Rightarrow>
   ('body, 's) RawPacketHandler \<Rightarrow> bool \<times> ('body, 's) PacketDispatcher" where
  "RegisterPacket ParseFromArray fresh d packetId rawPacketHandler =
     (let group = \<lparr>pg_parser = ParsePacketBody ParseFromArray fresh,
                   pg_handler = ProcessPacket rawPacketHandler\<rparr>
      in if pd_processGroup d packetId \<noteq> None then (False, d)
         else (True, d\<lparr>pd_processGroup := (pd_processGroup d)(packetId \<mapsto> group)\<rparr>))"

fun register_all ::
  "('body, 's) PacketDispatcher \<Rightarrow>
   (UINT16 \<times> (BYTE list \<Rightarrow> 'body \<Rightarrow> 'body \<times> bool) \<times> 'body \<times> ('body, 's) RawPacketHandler) list \<Rightarrow>
   bool list \<times> ('body, 's) PacketDispatcher" where
  "register_all d [] = ([], d)"
| "register_all d ((i, parse, fresh, h) # rs) =
     (case RegisterPacket parse fresh d i h of (ok, d1) \<Rightarrow>
        (case register_all d1 rs of (oks, d2) \<Rightarrow> (ok # oks, d2)))"

lemma register_all_lookup:
  "pd_processGroup (snd (register_all d rs)) i =
     (case pd_processGroup d i of
        Some g \<Rightarrow> Some g
      | None \<Rightarrow> map_option (\<lambda>(parse, fresh, h). \<lparr>pg_parser = ParsePacketBody parse fresh, pg_handler = ProcessPacket h\<rparr>)
          (map_of rs i))"
proof (induction d rs rule: register_all.induct)
  case (2 d j parse fresh h rs)
  obtain ok d1 where r: "RegisterPacket parse fresh d j h = (ok, d1)" by force
  have "pd_processGroup (snd (register_all d ((j, parse, fresh, h) # rs))) i =
      pd_processGroup (snd (register_all d1 rs)) i"
    using r by (simp split: prod.split)
  moreover have "pd_processGroup d1 i =
      (if pd_processGroup d j = None \<and> i = j
       then Some \<lparr>pg_parser = ParsePacketBody parse fresh, pg_handler = ProcessPacket h\<rparr>
       else pd_processGroup d i)"
    using r by (auto simp: RegisterPacket_def Let_def split: if_splits)
  ultimately show ?case
    using 2[OF r[symmetric]] by (auto split: option.splits)
qed (simp split: option.split)

lemma register_all_results:
  "fst (register_all d rs) =
     map (\<lambda>k. pd_processGroup d (fst (rs ! k)) = None \<and> fst (rs ! k) \<notin> fst ` set (take k rs)) [0..<length rs]"
proof (induction d rs rule: register_all.induct)
  case (2 d i parse fresh h rs)
  obtain ok d1 where r: "RegisterPacket parse fresh d i h = (ok, d1)" by force
  obtain oks d2 where s: "register_all d1 rs = (oks, d2)" by force
  have ok: "ok = (pd_processGroup d i = None)"
    and d1: "\<And>j. pd_processGroup d1 j = None \<longleftrightarrow> pd_processGroup d j = None \<and> j \<noteq> i"
    using r by (auto simp: RegisterPacket_def Let_def split: if_splits)
  have "[0..<length ((i, parse, fresh, h) # rs)] = 0 # map Suc [0..<length rs]"
    by (simp add: map_Suc_upt upt_conv_Cons del: upt_Suc)
  with 2 r s ok d1 show ?case
    by (auto simp: comp_def simp del: upt_Suc)
qed simp

lemma bytes_round_trip: "bytes_of_u16 (u16_of_bytes a b) = [a, b]"
proof -
  have "ucast (u16_of_bytes a b) = a" "ucast (drop_bit 8 (u16_of_bytes a b)) = b"
    by (rule bit_word_eqI; auto simp: u16_of_bytes_def bit_simps dest: bit_imp_le_length)+
  then show ?thesis by (simp add: bytes_of_u16_def)
qed

lemma header_bytes_memcpy: "length bs = 4 \<Longrightarrow> header_bytes (memcpy_header bs) = bs"
  by (auto simp: header_bytes_def memcpy_header_def bytes_round_trip numeral_eq_Suc length_Suc_conv)

lemma ParsePacketHeader_eq:
  assumes "rv_wf rv"
  shows "ParsePacketHeader rv =
    Inr (if length (rv_readable rv) < 4 then PacketHeader_new else memcpy_header (take 4 (rv_readable rv)))"
proof -
  have "RecvBuffer_GetReadableSize rv < kHeaderSize \<longleftrightarrow> length (rv_readable rv) < 4"
    using rv_readable_size[OF assms] by (simp add: kHeaderSize_def word_nat)
  then show ?thesis
    by (simp add: ParsePacketHeader_def Let_def rv_load[OF assms] kHeaderSize_def)
qed

section \<open>Properties\<close>

text \<open>
  C21: (component \<^verbatim>\<open>IPacketParser\<close>, roundtrip) \<^verbatim>\<open>ParsePacketHeader\<close> never reads outside the
  buffer. With fewer than four readable bytes it returns the default header, which is not
  valid; otherwise the header whose little-endian encoding is the first four readable bytes,
  so that it recovers every header a peer encoded. Its answer does not depend on whether the
  rest of the packet has arrived: the branch for an incomplete packet returns the same header.
\<close>
theorem packet_header_parse:
  assumes "rv_wf rv"
  shows "(if length (rv_readable rv) < 4
      then ParsePacketHeader rv = Inr PacketHeader_new \<and> \<not> PacketHeader_IsValid PacketHeader_new
      else \<exists>h. ParsePacketHeader rv = Inr h \<and> header_bytes h = take 4 (rv_readable rv)) \<and>
    (\<forall>h body. rv_readable rv = header_bytes h @ body \<longrightarrow> ParsePacketHeader rv = Inr h)"
  using ParsePacketHeader_eq[OF assms]
  by (auto simp: header_bytes_memcpy memcpy_header_bytes PacketHeader_IsValid_def PacketHeader_new_def)

lemma packet_header_parse_witness:
  "ParsePacketHeader \<lparr>rv_buffer = [0, 44, 1, 7, 0, 99, 0, 0], rv_minWritableSize = 2, rv_readPos = 1, rv_writePos = 6\<rparr>
     = Inr \<lparr>ph_size = 300, ph_id = 7\<rparr>"
proof -
  let ?rv = "\<lparr>rv_buffer = [0, 44, 1, 7, 0, 99, 0, 0], rv_minWritableSize = 2, rv_readPos = 1, rv_writePos = 6\<rparr>"
  have "rv_wf ?rv" by (simp add: rv_wf_def)
  moreover have "rv_readable ?rv = header_bytes \<lparr>ph_size = 300, ph_id = 7\<rparr> @ [99]"
    by (simp add: rv_readable_def subarray_def header_bytes_def bytes_of_u16_def)
  ultimately show ?thesis
    using packet_header_parse[of ?rv] by blast
qed

text \<open>
  C23: (components \<^verbatim>\<open>Packet\<close> and \<^verbatim>\<open>RecvBuffer\<close>, liveness) A receive buffer of the session's size,
  \<open>2 * kMaxPacketSize\<close> with \<open>kMaxPacketSize\<close> promised writable, can always take the rest of a
  packet whose valid header has arrived: after any history of calls the missing bytes are
  accepted, the packet is then readable in one piece and its header is parsed as before.
\<close>
theorem packet_fits_receive_buffer:
  assumes "RecvBuffer_new Debug (kMaxPacketSize * 2) kMaxPacketSize = Inr rv0"
    and "rv_calls Debug rv0 cs = Inr rv"
    and "ParsePacketHeader rv = Inr h" "PacketHeader_IsValid h"
    and "length (rv_readable rv) + length bs = unat (ph_size h)"
  shows "\<exists>rv'. rv_put b rv bs = Some rv' \<and> rv_readable rv' = rv_readable rv @ bs \<and>
    length (rv_readable rv') = unat (ph_size h) \<and> ParsePacketHeader rv' = Inr h"
proof -
  from rv_new_wf[OF assms(1)] have wf0: "rv_wf rv0" by simp
  have "rv_minWritableSize rv0 = 8192" "length (rv_buffer rv0) = 16384"
    using assms(1) by (auto simp: RecvBuffer_new_def res_simps kMaxPacketSize_def)
  with rv_calls_wf[OF wf0, of cs] rv_calls_min[OF assms(2)] assms(2)
  have wf: "rv_wf rv" and size: "rv_minWritableSize rv = 8192" "length (rv_buffer rv) = 16384" by auto
  from valid_header_bounds[OF assms(4)] assms(5)
  have small: "length (rv_readable rv) + length bs < 8192" by simp
  obtain rv' where put: "rv_put b rv bs = Some rv'"
    using rv_put_accepts[OF wf, of bs b] size small by auto
  from rv_put_eq[OF wf put] have rv': "rv_wf rv'" "rv_readable rv' = rv_readable rv @ bs" by auto
  have four: "4 \<le> length (rv_readable rv)"
    using ParsePacketHeader_eq[OF wf] assms(3,4)
    by (auto simp: PacketHeader_IsValid_def PacketHeader_new_def split: if_splits)
  with ParsePacketHeader_eq[OF rv'(1)] ParsePacketHeader_eq[OF wf] rv'(2) assms(3)
  have "ParsePacketHeader rv' = Inr h" by simp
  with put rv' assms(5) show ?thesis by simp
qed

lemma packet_fits_receive_buffer_witness:
  "\<exists>rv0 rv rv'. RecvBuffer_new Debug (kMaxPacketSize * 2) kMaxPacketSize = Inr rv0 \<and>
     rv_calls Debug rv0 [RvFill [6, 0, 1, 0], RvCommit 4] = Inr rv \<and>
     rv_put Debug rv [8, 9] = Some rv' \<and> rv_readable rv' = [6, 0, 1, 0, 8, 9]"
proof -
  let ?cs = "[RvFill [6, 0, 1, 0], RvCommit 4]" and ?h = "\<lparr>ph_size = 6, ph_id = 1\<rparr>"
  obtain rv0 where rv0: "RecvBuffer_new Debug (kMaxPacketSize * 2) kMaxPacketSize = Inr rv0"
    by (simp add: RecvBuffer_new_def kMaxPacketSize_def word_nat)
  from rv_new_wf[OF rv0] have wf0: "rv_wf rv0" "rv_readable rv0 = []" "rv_room rv0 = 16384"
    by (auto simp: kMaxPacketSize_def)
  have room: "length [6, 0, 1, 0] \<le> rv_room rv0" using wf0 by simp
  obtain rv1 rv where
    st: "RecvBuffer_store rv0 [6, 0, 1, 0] = Inr rv1" "RecvBuffer_CommitWrite Debug rv1 4 = Inr rv"
    "rv_wf rv" "rv_readable rv = [6, 0, 1, 0]"
    by (rule rv_store_commit[OF wf0(1) room, of Debug]) (use wf0 in simp)
  have "unat (RecvBuffer_GetWritableSize rv0) = 16384"
    using rv_writable_size wf0 by simp
  with st have run: "rv_calls Debug rv0 ?cs = Inr rv" by simp
  have h: "ParsePacketHeader rv = Inr ?h"
    using ParsePacketHeader_eq[OF st(3)] st(4)
    by (simp add: memcpy_header_def u16_of_bytes_def)
  have valid: "PacketHeader_IsValid ?h"
    by (simp add: PacketHeader_IsValid_def kHeaderSize_def kMaxPacketSize_def)
  have len: "length (rv_readable rv) + length [8, 9 :: BYTE] = unat (ph_size ?h)"
    using st(4) by simp
  from packet_fits_receive_buffer[OF rv0 run h valid len, of Debug] rv0 run st(4) show ?thesis by auto
qed

text \<open>
  Registering packets one after the other, a
  registration succeeds exactly if its number was not registered before, and the table then
  holds, for every number, the parser and handler of its first registration. A registered
  handler answers a null body with false and leaves the state alone, and passes any other body
  to the function it was given, if there is one.
\<close>
theorem dispatcher_first_wins:
  assumes "register_all PacketDispatcher_new rs = (oks, d)"
  shows "oks = map (\<lambda>k. fst (rs ! k) \<notin> fst ` set (take k rs)) [0..<length rs] \<and>
    (case map_of rs i of
       None \<Rightarrow> pd_processGroup d i = None
     | Some (parse, fresh, handler) \<Rightarrow>
         \<exists>g. pd_processGroup d i = Some g \<and>
           pg_parser g bytes = (if snd (parse bytes fresh) then Some (fst (parse bytes fresh)) else None) \<and>
           pg_handler g session None s = (False, s) \<and>
           pg_handler g session (Some body) s =
             (case handler of None \<Rightarrow> (False, s) | Some f \<Rightarrow> f session body s))"
  using register_all_lookup[of PacketDispatcher_new rs i] register_all_results[of PacketDispatcher_new rs] assms
  by (auto simp: PacketDispatcher_new_def ProcessPacket_def ParsePacketBody_def Let_def
      split: option.splits prod.splits)

lemma dispatcher_first_wins_witness:
  "\<exists>d. register_all PacketDispatcher_new
      [(1, \<lambda>bs m. (bs, True), [], Some (\<lambda>a m s. (True, length m))), (1, \<lambda>bs m. (m, False), [], None)] = ([True, False], d) \<and>
     (\<exists>g. pd_processGroup d 1 = Some g \<and> pg_parser g [9] = Some [9] \<and> pg_handler g 0 (Some [9]) 5 = (True, 1))"
proof -
  let ?rs = "[(1, \<lambda>bs m. (bs, True), [], Some (\<lambda>a m s. (True, length m))), (1, \<lambda>bs m. (m, False), [], None)]"
  obtain oks d where r: "register_all PacketDispatcher_new ?rs = (oks, d)" by force
  from dispatcher_first_wins[OF r, of 1 "[9]" 0 5 "[9]"]
  have "oks = [True, False]" "\<exists>g. pd_processGroup d 1 = Some g \<and> pg_parser g [9] = Some [9] \<and>
      pg_handler g 0 None 5 = (False, 5) \<and> pg_handler g 0 (Some [9]) 5 = (True, 1)"
    by (simp_all add: upt_rec)
  with r show ?thesis by blast
qed

end
