(* ===== verification/Ring_Buffer_Test.thy ===== *)
theory Ring_Buffer_Test
  imports Ring_Buffer_Props Packet_Model
begin

text \<open>
  \<^verbatim>\<open>99_Test/Source/01_ServerBase/DataStruct/RingBufferTest.cpp\<close>: the socket and the session the
  tests put around two ring buffers, and the three tests, as programs over the model. The
  tests are proved to pass in both builds whatever is in the memory the buffers are built in,
  the first of them for every packet.

  A test keeps a flag for its expectations. A failed \<^verbatim>\<open>EXPECT\<close> clears the flag, a failed
  \<^verbatim>\<open>ASSERT_TRUE\<close> also leaves the function, and then the destructors of its local objects run.
\<close>

section \<open>The packet of the tests\<close>

record DummyPacketHeader =
  dp_size :: UINT16
  dp_id :: UINT16

record DummyPacket = DummyPacketHeader +
  dp_sequence :: UINT32

definition bytes_of_u32 :: "UINT32 \<Rightarrow> BYTE list" where
  "bytes_of_u32 w = [ucast w, ucast (drop_bit 8 w), ucast (drop_bit 16 w), ucast (drop_bit 24 w)]"

definition u32_of_bytes :: "BYTE \<Rightarrow> BYTE \<Rightarrow> BYTE \<Rightarrow> BYTE \<Rightarrow> UINT32" where
  "u32_of_bytes b0 b1 b2 b3 =
     ucast b0 OR push_bit 8 (ucast b1) OR push_bit 16 (ucast b2) OR push_bit 24 (ucast b3)"

definition load_DummyPacketHeader :: "BYTE list \<Rightarrow> DummyPacketHeader" where
  "load_DummyPacketHeader bs =
     \<lparr>dp_size = u16_of_bytes (bs ! 0) (bs ! 1), dp_id = u16_of_bytes (bs ! 2) (bs ! 3)\<rparr>"

definition load_DummyPacket :: "BYTE list \<Rightarrow> DummyPacket" where
  "load_DummyPacket bs =
     \<lparr>dp_size = u16_of_bytes (bs ! 0) (bs ! 1), dp_id = u16_of_bytes (bs ! 2) (bs ! 3),
      dp_sequence = u32_of_bytes (bs ! 4) (bs ! 5) (bs ! 6) (bs ! 7)\<rparr>"

lemma u32_round_trip:
  "u32_of_bytes (ucast w) (ucast (drop_bit 8 w)) (ucast (drop_bit 16 w)) (ucast (drop_bit 24 w)) = w"
proof (rule bit_word_eqI)
  fix n assume "n < LENGTH(32)"
  then have "n < 8 \<or> 8 \<le> n \<and> n < 16 \<or> 16 \<le> n \<and> n < 24 \<or> 24 \<le> n \<and> n < 32" by auto
  then show "bit (u32_of_bytes (ucast w) (ucast (drop_bit 8 w)) (ucast (drop_bit 16 w)) (ucast (drop_bit 24 w))) n =
      bit w n"
    by (auto simp: u32_of_bytes_def bit_simps)
qed

text \<open>Loads and stores through the reference \<^verbatim>\<open>As<T>()\<close> returns: \<open>off\<close> is where the member lies.\<close>

definition As_store ::
    "build \<Rightarrow> RingBuffer \<Rightarrow> RingBufferWriter \<Rightarrow> nat \<Rightarrow> BYTE list \<Rightarrow> RingBuffer res" where
  "As_store b rb h off bs =
     bind_res (RingBufferWriter_As b h) (\<lambda>p.
       if unat p + off + length bs \<le> length (m_ring rb)
       then Inr (rb\<lparr>m_ring := memcpy_at (m_ring rb) (unat p + off) bs\<rparr>)
       else Inl OutOfBounds)"

definition As_load :: "build \<Rightarrow> RingBuffer \<Rightarrow> RingBufferReader \<Rightarrow> nat \<Rightarrow> BYTE list res" where
  "As_load b rb h sz =
     bind_res (RingBufferReader_As b h) (\<lambda>p.
       if unat p + sz \<le> length (m_ring rb) then Inr (subarray (m_ring rb) (unat p) (unat p + sz))
       else Inl OutOfBounds)"

text \<open>Nothing relates the size of \<open>T\<close> to that of the reservation.\<close>

lemma RingBufferReader_As_past_end:
  assumes "RingBufferReader_IsValid h" "rd_ptr h = Some p" "unat p + sz \<le> length (m_ring rb)" "unat (rd_size h) < sz"
  shows "\<exists>bs. As_load b rb h sz = Inr bs \<and> length bs = sz \<and> unat (RingBufferReader_GetSize h) < length bs"
  using assms
  by (cases b) (simp_all add: As_load_def RingBufferReader_As_def RingBufferReader_GetSize_def ASSERT_def Assert_def subarray_def)

section \<open>The socket of the tests\<close>

record FakeSocket =
  sk_buffer :: "BYTE list"
  sk_size :: UINT32

definition FakeSocket_kCapacity :: UINT32 where
  "FakeSocket_kCapacity = 256"

definition FakeSocket_new :: FakeSocket where
  "FakeSocket_new = \<lparr>sk_buffer = replicate (unat FakeSocket_kCapacity + 1) 0, sk_size = 0\<rparr>"

text \<open>\<open>buf\<close> is an index of the array \<open>memory\<close>; the result has the array after the copy.\<close>

definition FakeSocket_Recv ::
    "FakeSocket \<Rightarrow> BYTE list \<Rightarrow> UINT32 option \<Rightarrow> UINT32 \<Rightarrow> (UINT32 \<times> FakeSocket \<times> BYTE list) res" where
  "FakeSocket_Recv sk memory buf recvLen =
     (case buf of
        None \<Rightarrow> Inr (0, sk, memory)
      | Some p \<Rightarrow>
          (let recvLen = min recvLen (sk_size sk); n = unat recvLen
           in if length memory < unat p + n \<or> length (sk_buffer sk) < unat (sk_size sk) then Inl OutOfBounds
              else let memory = memcpy_at memory (unat p) (subarray (sk_buffer sk) 0 n);
                       rest = subarray (sk_buffer sk) n (unat (sk_size sk))
                   in Inr (recvLen, sk\<lparr>sk_buffer := memcpy_at (sk_buffer sk) 0 rest, sk_size := sk_size sk - recvLen\<rparr>,
                           memory)))"

definition FakeSocket_Send ::
    "FakeSocket \<Rightarrow> BYTE list \<Rightarrow> UINT32 option \<Rightarrow> UINT32 \<Rightarrow> (UINT32 \<times> FakeSocket) res" where
  "FakeSocket_Send sk memory buf sendLen =
     (let sendLen = min sendLen (FakeSocket_kCapacity - sk_size sk); n = unat sendLen
      in case buf of
           None \<Rightarrow> Inl NullDeref
         | Some p \<Rightarrow>
             if length memory < unat p + n \<or> length (sk_buffer sk) \<le> unat (sk_size sk) + n then Inl OutOfBounds
             else let buffer = memcpy_at (sk_buffer sk) (unat (sk_size sk)) (subarray memory (unat p) (unat p + n));
                      size = sk_size sk + sendLen
                  in Inr (sendLen, sk\<lparr>sk_buffer := buffer[unat size := 0], sk_size := size\<rparr>))"

definition FakeSocket_GetDataSize :: "FakeSocket \<Rightarrow> UINT32" where
  "FakeSocket_GetDataSize sk = sk_size sk"

section \<open>The session of the tests\<close>

record FakeSession =
  fn_socket :: FakeSocket
  fn_sendBuffer :: RingBuffer
  fn_recvBuffer :: RingBuffer
  fn_passed :: bool

definition FakeSession_new :: "addr \<Rightarrow> addr \<Rightarrow> BYTE list \<Rightarrow> BYTE list \<Rightarrow> FakeSession" where
  "FakeSession_new send recv m1 m2 =
     \<lparr>fn_socket = FakeSocket_new, fn_sendBuffer = RingBuffer_new send m1,
      fn_recvBuffer = RingBuffer_new recv m2, fn_passed = True\<rparr>"

definition EXPECT :: "bool \<Rightarrow> FakeSession \<Rightarrow> FakeSession" where
  "EXPECT c s = s\<lparr>fn_passed := (fn_passed s \<and> c)\<rparr>"

text \<open>The end of a test: the members are destroyed in the reverse order of their declaration.\<close>

definition FakeSession_delete :: "build \<Rightarrow> FakeSession \<Rightarrow> bool res" where
  "FakeSession_delete b s =
     bind_res (RingBuffer_delete b (fn_recvBuffer s)) (\<lambda>_.
     bind_res (RingBuffer_delete b (fn_sendBuffer s)) (\<lambda>_. Inr (fn_passed s)))"

definition CreateSendBuffer :: "build \<Rightarrow> FakeSession \<Rightarrow> UINT32 \<Rightarrow> (RingBufferWriter \<times> FakeSession) res" where
  "CreateSendBuffer b s sz =
     bind_res (RingBuffer_CreateWriter b (fn_sendBuffer s) sz)
       (\<lambda>(w, rb). Inr (w, s\<lparr>fn_sendBuffer := rb\<rparr>))"

definition FetchRecvBuffer :: "build \<Rightarrow> FakeSession \<Rightarrow> UINT32 \<Rightarrow> (RingBufferReader \<times> FakeSession) res" where
  "FetchRecvBuffer b s sz =
     bind_res (RingBuffer_CreateReader b (fn_recvBuffer s) sz)
       (\<lambda>(r, rb). Inr (r, s\<lparr>fn_recvBuffer := rb\<rparr>))"

definition SendComplete :: "build \<Rightarrow> FakeSession \<Rightarrow> UINT32 \<Rightarrow> FakeSession res" where
  "SendComplete b s sendSize =
     bind_res (RingBuffer_CreateReader b (fn_sendBuffer s) sendSize) (\<lambda>(reader, rb).
       if \<not> RingBufferReader_IsValid reader then Inr (EXPECT False (s\<lparr>fn_sendBuffer := rb\<rparr>))
       else let s = EXPECT (RingBufferReader_GetSize reader = sendSize) s
            in bind_res (RingBufferReader_Commit b rb reader 0) (\<lambda>(reader, rb).
               bind_res (RingBufferReader_delete b rb reader) (\<lambda>rb.
                 Inr (s\<lparr>fn_sendBuffer := rb\<rparr>))))"

text \<open>The argument is a reference to the caller's writer, which the result has as it is left.\<close>

definition FakeSession_Send ::
    "build \<Rightarrow> FakeSession \<Rightarrow> RingBufferWriter \<Rightarrow> (RingBufferWriter \<times> FakeSession) res" where
  "FakeSession_Send b s writer =
     bind_res (RingBufferWriter_GetPtr b writer 0) (\<lambda>ptr.
     let size = RingBufferWriter_GetSize writer
     in bind_res (RingBufferWriter_Commit b (fn_sendBuffer s) writer 0) (\<lambda>(writer, rb).
        bind_res (FakeSocket_Send (fn_socket s) (m_ring rb) ptr size) (\<lambda>(sent, sk).
        bind_res (SendComplete b (s\<lparr>fn_sendBuffer := rb, fn_socket := sk\<rparr>) size) (\<lambda>s.
          Inr (writer, s)))))"

definition RecvComplete :: "build \<Rightarrow> FakeSession \<Rightarrow> FakeSession res" where
  "RecvComplete b s =
     bind_res (RingBuffer_CreateAllWriter b (fn_recvBuffer s)) (\<lambda>(writer, rb).
       if \<not> RingBufferWriter_IsValid writer then Inr (EXPECT False (s\<lparr>fn_recvBuffer := rb\<rparr>))
       else let dataSize = RingBufferWriter_GetSize writer
            in bind_res (RingBufferWriter_GetPtr b writer 0) (\<lambda>ptr.
               bind_res (FakeSocket_Recv (fn_socket s) (m_ring rb) ptr dataSize) (\<lambda>(recvLen, sk, memory).
               bind_res (RingBufferWriter_Commit b (rb\<lparr>m_ring := memory\<rparr>) writer recvLen) (\<lambda>(writer, rb).
               bind_res (RingBufferWriter_delete b rb writer) (\<lambda>rb.
                 Inr (s\<lparr>fn_socket := sk, fn_recvBuffer := rb\<rparr>))))))"

text \<open>The loop may not end: a receive buffer without room leaves the socket as it is.\<close>

partial_function (option) FakeSession_Recv :: "build \<Rightarrow> FakeSession \<Rightarrow> FakeSession res option" where
  "FakeSession_Recv b s =
     (if 0 < FakeSocket_GetDataSize (fn_socket s)
      then (case RecvComplete b s of
              Inl e \<Rightarrow> Some (Inl e)
            | Inr s' \<Rightarrow> FakeSession_Recv b s')
      else Some (Inr s))"

section \<open>The tests\<close>

text \<open>\<^verbatim>\<open>NetIO\<close>, its first scope; the flag tells whether the test goes on.\<close>

definition NetIO_write :: "build \<Rightarrow> FakeSession \<Rightarrow> UINT16 \<Rightarrow> UINT32 \<Rightarrow> (bool \<times> FakeSession) res" where
  "NetIO_write b s packetID kPacketSequence =
     bind_res (CreateSendBuffer b s 8) (\<lambda>(writer, s).
       if \<not> RingBufferWriter_IsValid writer then Inr (False, EXPECT False s)
       else
         bind_res (As_store b (fn_sendBuffer s) writer 0 (bytes_of_u16 8)) (\<lambda>rb.
         bind_res (As_store b rb writer 2 (bytes_of_u16 packetID)) (\<lambda>rb.
         bind_res (As_store b rb writer 4 (bytes_of_u32 kPacketSequence)) (\<lambda>rb.
         bind_res (FakeSession_Send b (s\<lparr>fn_sendBuffer := rb\<rparr>) writer) (\<lambda>(writer, s).
         bind_res (RingBufferWriter_delete b (fn_sendBuffer s) writer) (\<lambda>rb.
           Inr (True, s\<lparr>fn_sendBuffer := rb\<rparr>)))))))"

text \<open>The second scope, after \<^verbatim>\<open>session.Recv()\<close>; the handles are destroyed in reverse order.\<close>

definition NetIO_read :: "build \<Rightarrow> FakeSession \<Rightarrow> UINT32 \<Rightarrow> FakeSession res" where
  "NetIO_read b s kPacketSequence =
     bind_res (FetchRecvBuffer b s 4) (\<lambda>(headerReader, s).
       if \<not> RingBufferReader_IsValid headerReader then Inr (EXPECT False s)
       else
         bind_res (As_load b (fn_recvBuffer s) headerReader 4) (\<lambda>header.
         let packetHeader = load_DummyPacketHeader header; packetSize = dp_size packetHeader;
             packetID = dp_id packetHeader
         in
         bind_res (RingBufferReader_GiveUp b (fn_recvBuffer s) headerReader) (\<lambda>(headerReader, rb).
         bind_res (FetchRecvBuffer b (s\<lparr>fn_recvBuffer := rb\<rparr>) 8) (\<lambda>(packetReader, s).
           if \<not> RingBufferReader_IsValid packetReader then Inr (EXPECT False s)
           else
             bind_res (As_load b (fn_recvBuffer s) packetReader 8) (\<lambda>packet.
             let s = EXPECT (dp_sequence (load_DummyPacket packet) = kPacketSequence) s
             in bind_res (RingBufferReader_Commit b (fn_recvBuffer s) packetReader 0) (\<lambda>(packetReader, rb).
                bind_res (RingBufferReader_delete b rb packetReader) (\<lambda>rb.
                bind_res (RingBufferReader_delete b rb headerReader) (\<lambda>rb.
                  Inr (s\<lparr>fn_recvBuffer := rb\<rparr>)))))))))"

definition RingBufferTest_NetIO ::
    "build \<Rightarrow> addr \<Rightarrow> addr \<Rightarrow> BYTE list \<Rightarrow> BYTE list \<Rightarrow> UINT16 \<Rightarrow> UINT32 \<Rightarrow> bool res option" where
  "RingBufferTest_NetIO b send recv m1 m2 packetID kPacketSequence =
     (case NetIO_write b (FakeSession_new send recv m1 m2) packetID kPacketSequence of
        Inl e \<Rightarrow> Some (Inl e)
      | Inr (False, s) \<Rightarrow> Some (FakeSession_delete b s)
      | Inr (True, s) \<Rightarrow>
          (case FakeSession_Recv b s of
             None \<Rightarrow> None
           | Some (Inl e) \<Rightarrow> Some (Inl e)
           | Some (Inr s) \<Rightarrow> Some (bind_res (NetIO_read b s kPacketSequence) (FakeSession_delete b))))"

text \<open>In the other tests a failed \<^verbatim>\<open>ASSERT_TRUE\<close> leaves a dead handle and the buffer \<open>rb\<close>.\<close>

definition ASSERT_TRUE :: "build \<Rightarrow> bool \<Rightarrow> RingBuffer \<Rightarrow> bool res \<Rightarrow> bool res" where
  "ASSERT_TRUE b c rb k = (if c then k else bind_res (RingBuffer_delete b rb) (\<lambda>_. Inr False))"

definition memset :: "BYTE \<Rightarrow> UINT32 \<Rightarrow> BYTE list" where
  "memset v n = replicate (unat n) v"

definition RingBufferTest_Wrap :: "build \<Rightarrow> addr \<Rightarrow> BYTE list \<Rightarrow> bool res" where
  "RingBufferTest_Wrap b this memory =
     (let rb = RingBuffer_new this memory; kQuarter = kCapacity div 4; kHalf = kCapacity div 2;
          kThreeQuarter = kQuarter * 3
      in bind_res (RingBuffer_CreateWriter b rb kThreeQuarter) (\<lambda>(w, rb).
         ASSERT_TRUE b (RingBufferWriter_IsValid w) rb (
         bind_res (RingBufferWriter_store b rb w 0 (memset 255 (RingBufferWriter_GetSize w))) (\<lambda>rb.
         bind_res (RingBufferWriter_Commit b rb w 0) (\<lambda>(w, rb).
         bind_res (RingBuffer_CreateReader b rb kHalf) (\<lambda>(r, rb).
         ASSERT_TRUE b (RingBufferReader_IsValid r) rb (
         bind_res (RingBufferReader_Commit b rb r 0) (\<lambda>(r, rb).
         bind_res (RingBufferReader_delete b rb r) (\<lambda>rb.
         bind_res (RingBufferWriter_delete b rb w) (\<lambda>rb.
         bind_res (RingBuffer_CreateAllReader b rb) (\<lambda>(r, rb).
         ASSERT_TRUE b (RingBufferReader_IsValid r) rb (
         let continueRemainSize = RingBufferReader_GetSize r
         in bind_res (RingBufferReader_GiveUp b rb r) (\<lambda>(r, rb).
         bind_res (RingBufferReader_delete b rb r) (\<lambda>rb.
         bind_res (RingBuffer_CreateWriter b rb kHalf) (\<lambda>(w, rb).
         ASSERT_TRUE b (RingBufferWriter_IsValid w) rb (
         bind_res (RingBufferWriter_store b rb w 0 (memset 255 (RingBufferWriter_GetSize w))) (\<lambda>rb.
         let tailSkipDataSize = RingBufferWriter_GetSize w
         in bind_res (RingBufferWriter_delete b rb w) (\<lambda>rb.
         bind_res (RingBuffer_CreateAllReader b rb) (\<lambda>(r, rb).
         ASSERT_TRUE b (RingBufferReader_IsValid r) rb (
         let passed = (RingBufferReader_GetSize r = continueRemainSize)
         in bind_res (RingBufferReader_delete b rb r) (\<lambda>rb.
         bind_res (RingBuffer_CreateAllReader b rb) (\<lambda>(r, rb).
         ASSERT_TRUE b (RingBufferReader_IsValid r) rb (
         let passed = (passed \<and> RingBufferReader_GetSize r = tailSkipDataSize)
         in bind_res (RingBufferReader_delete b rb r) (\<lambda>rb.
         bind_res (RingBuffer_delete b rb) (\<lambda>_. Inr passed)))))))))))))))))))))))))"

definition RingBufferTest_Wrap_ResetCursor :: "build \<Rightarrow> addr \<Rightarrow> BYTE list \<Rightarrow> bool res" where
  "RingBufferTest_Wrap_ResetCursor b this memory =
     (let rb = RingBuffer_new this memory; kHalf = kCapacity div 2; kQuarter = kCapacity div 4
      in bind_res (RingBuffer_CreateWriter b rb kHalf) (\<lambda>(w, rb).
         ASSERT_TRUE b (RingBufferWriter_IsValid w) rb (
         bind_res (RingBufferWriter_store b rb w 0 (memset 255 (RingBufferWriter_GetSize w))) (\<lambda>rb.
         bind_res (RingBufferWriter_delete b rb w) (\<lambda>rb.
         bind_res (RingBuffer_CreateReader b rb kHalf) (\<lambda>(r, rb).
         ASSERT_TRUE b (RingBufferReader_IsValid r) rb (
         bind_res (RingBufferReader_delete b rb r) (\<lambda>rb.
         bind_res (RingBuffer_CreateWriter b rb kQuarter) (\<lambda>(w, rb).
         ASSERT_TRUE b (RingBufferWriter_IsValid w) rb (
         bind_res (RingBufferWriter_store b rb w 0 (memset 0 (RingBufferWriter_GetSize w))) (\<lambda>rb.
         bind_res (RingBufferWriter_delete b rb w) (\<lambda>rb.
         bind_res (RingBuffer_CreateWriter b rb kQuarter) (\<lambda>(w, rb).
         ASSERT_TRUE b (RingBufferWriter_IsValid w) rb (
         bind_res (RingBufferWriter_delete b rb w) (\<lambda>rb.
         bind_res (RingBuffer_CreateAllReader b rb) (\<lambda>(r, rb).
         ASSERT_TRUE b (RingBufferReader_IsValid r) rb (
         let section1_end = RingBufferReader_GetSize r div 2; section2_end = RingBufferReader_GetSize r;
             data = RingBufferReader_load rb r (RingBufferReader_GetSize r);
             passed = (list_all (\<lambda>i. data ! i = 0) [0..<unat section1_end] \<and>
                       list_all (\<lambda>i. data ! i = 255) [unat section1_end..<unat section2_end])
         in bind_res (RingBufferReader_Commit b rb r 0) (\<lambda>(r, rb).
            bind_res (RingBufferReader_delete b rb r) (\<lambda>rb.
            bind_res (RingBuffer_delete b rb) (\<lambda>_. Inr passed))))))))))))))))))))"

section \<open>The tests pass\<close>

lemmas test_eval = rb_eval ASSERT_TRUE_def RingBuffer_delete_def

lemma length_memset [simp]: "length (memset v n) = unat n"
  by (simp add: memset_def)

lemma Wrap_passes: "length memory = cap \<Longrightarrow> RingBufferTest_Wrap b this memory = Inr True"
  by (simp add: RingBufferTest_Wrap_def test_eval)

lemma reset_data:
  assumes "length memory = cap"
  shows "subarray (memcpy_at (memcpy_at memory 0 (memset 255 8192)) 0 (memset 0 4096)) 0 8192 =
    replicate 4096 0 @ replicate 4096 255"
  using assms by (simp add: subarray_def memcpy_at_def memset_def min_def drop_replicate)

lemma Wrap_ResetCursor_passes:
  "length memory = cap \<Longrightarrow> RingBufferTest_Wrap_ResetCursor b this memory = Inr True"
  by (auto simp: RingBufferTest_Wrap_ResetCursor_def test_eval RingBufferReader_load_def reset_data
      list_all_iff nth_append intro: nth_replicate)

text \<open>The steps of \<^verbatim>\<open>NetIO\<close>.\<close>

definition packet_bytes :: "UINT16 \<Rightarrow> UINT32 \<Rightarrow> BYTE list" where
  "packet_bytes packetID kPacketSequence =
     bytes_of_u16 8 @ bytes_of_u16 packetID @ bytes_of_u32 kPacketSequence"

lemma length_packet_bytes [simp]: "length (packet_bytes i q) = 8"
  by (simp add: packet_bytes_def bytes_of_u16_def bytes_of_u32_def)

lemma load_packet_bytes [simp]: "dp_sequence (load_DummyPacket (packet_bytes i q)) = q"
  by (simp add: packet_bytes_def bytes_of_u16_def bytes_of_u32_def load_DummyPacket_def u32_round_trip)

lemma length_bytes_of_u16 [simp]: "length (bytes_of_u16 w) = 2"
  by (simp add: bytes_of_u16_def)

lemma packet_stores:
  assumes "length m = cap"
  shows "memcpy_at (memcpy_at (memcpy_at m 0 (bytes_of_u16 8)) (Suc (Suc 0)) (bytes_of_u16 i)) 4 (bytes_of_u32 q) =
    memcpy_at m 0 (packet_bytes i q)"
  using assms memcpy_at_append[of 0 "bytes_of_u16 8" m "bytes_of_u16 i"]
    memcpy_at_append[of 0 "bytes_of_u16 8 @ bytes_of_u16 i" m "bytes_of_u32 q"]
  by (simp add: packet_bytes_def)

lemma sent_packet:
  assumes "length m = cap"
  shows "subarray ((memcpy_at (replicate 257 0) 0 (subarray (memcpy_at m 0 (packet_bytes i q)) 0 8))[8 := 0]) 0 8 =
    packet_bytes i q"
proof -
  have "subarray (memcpy_at m 0 (packet_bytes i q)) 0 8 = packet_bytes i q"
    using subarray_memcpy_same[of 0 "packet_bytes i q" m] assms by simp
  then show ?thesis
    using subarray_memcpy_same[of 0 "packet_bytes i q" "replicate 257 0"]
    by (simp add: subarray_def)
qed

lemmas session_eval = NetIO_write_def NetIO_read_def FakeSession_new_def CreateSendBuffer_def FetchRecvBuffer_def
  As_store_def As_load_def RingBufferWriter_As_def RingBufferReader_As_def FakeSession_Send_def
  FakeSocket_Send_def FakeSocket_Recv_def FakeSocket_new_def FakeSocket_kCapacity_def SendComplete_def
  RecvComplete_def EXPECT_def rb_eval

lemma NetIO_write_result:
  assumes "length m1 = cap"
  shows "\<exists>m1' buf. length m1' = cap \<and> length buf = 257 \<and> subarray buf 0 8 = packet_bytes i q \<and>
    NetIO_write b (FakeSession_new send recv m1 m2) i q =
      Inr (True, \<lparr>fn_socket = \<lparr>sk_buffer = buf, sk_size = 8\<rparr>,
        fn_sendBuffer = RingBuffer_new send m1', fn_recvBuffer = RingBuffer_new recv m2, fn_passed = True\<rparr>)"
proof -
  have "length (bytes_of_u32 q) = 4" by (simp add: bytes_of_u32_def)
  then show ?thesis
    using assms sent_packet[OF assms, of i q]
    by (auto simp: session_eval packet_stores
        intro!: exI[of _ "memcpy_at m1 0 (packet_bytes i q)"])
qed

lemma RecvComplete_result:
  assumes "length m2 = cap" "length buf = 257" "subarray buf 0 8 = pkt"
    and "s = \<lparr>fn_socket = \<lparr>sk_buffer = buf, sk_size = 8\<rparr>, fn_sendBuffer = sb,
      fn_recvBuffer = RingBuffer_new recv m2, fn_passed = True\<rparr>"
  shows "\<exists>buf'. RecvComplete b s =
    Inr \<lparr>fn_socket = \<lparr>sk_buffer = buf', sk_size = 0\<rparr>, fn_sendBuffer = sb,
      fn_recvBuffer = (RingBuffer_new recv (memcpy_at m2 0 pkt))\<lparr>m_writeCursor := 8\<rparr>, fn_passed = True\<rparr>"
  using assms by (auto simp: session_eval min_def)

lemma Recv_result:
  assumes "length m2 = cap" "length buf = 257" "subarray buf 0 8 = pkt"
    and "s = \<lparr>fn_socket = \<lparr>sk_buffer = buf, sk_size = 8\<rparr>, fn_sendBuffer = sb,
      fn_recvBuffer = RingBuffer_new recv m2, fn_passed = True\<rparr>"
  shows "\<exists>buf'. FakeSession_Recv b s =
    Some (Inr \<lparr>fn_socket = \<lparr>sk_buffer = buf', sk_size = 0\<rparr>, fn_sendBuffer = sb,
      fn_recvBuffer = (RingBuffer_new recv (memcpy_at m2 0 pkt))\<lparr>m_writeCursor := 8\<rparr>, fn_passed = True\<rparr>)"
proof -
  obtain buf' where step: "RecvComplete b s =
    Inr \<lparr>fn_socket = \<lparr>sk_buffer = buf', sk_size = 0\<rparr>, fn_sendBuffer = sb,
      fn_recvBuffer = (RingBuffer_new recv (memcpy_at m2 0 pkt))\<lparr>m_writeCursor := 8\<rparr>, fn_passed = True\<rparr>"
    using RecvComplete_result[OF assms] by blast
  have more: "0 < FakeSocket_GetDataSize (fn_socket s)"
    by (simp add: assms(4) FakeSocket_GetDataSize_def)
  show ?thesis
    by (rule exI[of _ buf'], subst FakeSession_Recv.simps, simp add: more step,
        subst FakeSession_Recv.simps, simp add: FakeSocket_GetDataSize_def)
qed

lemma NetIO_read_result:
  assumes "length m1 = cap" "length m2 = cap"
    and "s = \<lparr>fn_socket = \<lparr>sk_buffer = buf, sk_size = 0\<rparr>, fn_sendBuffer = RingBuffer_new send m1,
      fn_recvBuffer = (RingBuffer_new recv (memcpy_at m2 0 (packet_bytes i q)))\<lparr>m_writeCursor := 8\<rparr>,
      fn_passed = True\<rparr>"
  shows "bind_res (NetIO_read b s q) (FakeSession_delete b) = Inr True"
proof -
  have "subarray (memcpy_at m2 0 (packet_bytes i q)) 0 8 = packet_bytes i q"
    using subarray_memcpy_same[of 0 "packet_bytes i q" m2] assms by simp
  then show ?thesis
    using assms by (simp add: session_eval FakeSession_delete_def RingBuffer_delete_def)
qed

text \<open>
  C29: (tests of \<^verbatim>\<open>RingBuffer\<close>, functional) The three tests of the ring buffer pass, in both builds
  and whatever the memory holds in which the buffers are built: no assertion fires, no access
  leaves an array, every expectation holds and the buffers are empty when they are destroyed.
  The first test does so for every packet id and sequence number, and its receive loop ends.
\<close>
theorem ring_buffer_tests_pass:
  assumes "length m1 = 16384" "length m2 = 16384"
  shows "RingBufferTest_NetIO b send recv m1 m2 packetID kPacketSequence = Some (Inr True) \<and>
    RingBufferTest_Wrap b this m1 = Inr True \<and>
    RingBufferTest_Wrap_ResetCursor b this m1 = Inr True"
proof -
  obtain m1' buf where w: "length m1' = cap" "length buf = 257"
    "subarray buf 0 8 = packet_bytes packetID kPacketSequence"
    "NetIO_write b (FakeSession_new send recv m1 m2) packetID kPacketSequence =
      Inr (True, \<lparr>fn_socket = \<lparr>sk_buffer = buf, sk_size = 8\<rparr>,
        fn_sendBuffer = RingBuffer_new send m1', fn_recvBuffer = RingBuffer_new recv m2, fn_passed = True\<rparr>)"
    using NetIO_write_result[OF assms(1)] by blast
  obtain s' where r: "FakeSession_Recv b \<lparr>fn_socket = \<lparr>sk_buffer = buf, sk_size = 8\<rparr>,
        fn_sendBuffer = RingBuffer_new send m1', fn_recvBuffer = RingBuffer_new recv m2, fn_passed = True\<rparr> =
      Some (Inr s')"
    "bind_res (NetIO_read b s' kPacketSequence) (FakeSession_delete b) = Inr True"
    using Recv_result[OF assms(2) w(2,3) refl] NetIO_read_result[OF w(1) assms(2) refl] by metis
  have "RingBufferTest_NetIO b send recv m1 m2 packetID kPacketSequence = Some (Inr True)"
    by (simp add: RingBufferTest_NetIO_def w(4) r)
  with assms show ?thesis by (simp add: Wrap_passes Wrap_ResetCursor_passes)
qed

lemma ring_buffer_tests_pass_witness:
  "RingBufferTest_NetIO NoDebug 0 1 (replicate 16384 0) (replicate 16384 0) 1 104628 = Some (Inr True)"
  using ring_buffer_tests_pass[of "replicate 16384 0" "replicate 16384 0"] by simp

end
