(* ===== verification/Mutex_Model.thy ===== *)
theory Mutex_Model
  imports Contracts
begin

text \<open>
  Objects whose operations take a mutex for their whole body, as \<^verbatim>\<open>std::lock_guard\<close> in its first
  line does. Threads advance by one access to the object at a time; the interface \<open>locked_object\<close>
  asks of the object only that the accesses of an operation, run without interruption, are the
  operation, and yields that every concurrent use is a sequence of whole operations. This is
  what lets the other theories treat an operation as one step.
\<close>

section \<open>Operations access by access\<close>

text \<open>
  An access fails, or leaves the object changed and the thread at its next access or, at the
  end of the operation, with the result.
\<close>

type_synonym ('pc, 'c, 'v) access = "'pc \<Rightarrow> 'c \<Rightarrow> ('c \<times> ('pc + 'v)) res"

fun run_accesses :: "('pc, 'c, 'v) access \<Rightarrow> nat \<Rightarrow> 'pc \<Rightarrow> 'c \<Rightarrow> ('c \<times> 'v) res option" where
  "run_accesses access 0 pc c = None"
| "run_accesses access (Suc n) pc c =
     (case access pc c of
        Inl e \<Rightarrow> Some (Inl e)
      | Inr (c', Inl pc') \<Rightarrow> run_accesses access n pc' c'
      | Inr (c', Inr v) \<Rightarrow> Some (Inr (c', v)))"

section \<open>Threads\<close>

text \<open>
  What a thread is doing: nothing with the object; an operation for which it waits for the
  mutex, or is inside of, or has the result of. The number is how many operations had been
  completed when this one was called, the index of a completed one is its place among them.
\<close>

datatype ('op, 'pc, 'v) tstat =
    Outside
  | Waiting 'op nat
  | Inside 'op nat 'pc
  | Answered 'op nat 'v nat

record ('c, 'op, 'pc, 'v) LockSys =
  lk_object :: 'c
  lk_holder :: "nat option"
  lk_threads :: "nat \<Rightarrow> ('op, 'pc, 'v) tstat"
  lk_history :: "('op \<times> 'v) list"
  lk_failed :: "error option"

datatype 'op lk_event = LkCall nat 'op | LkAcquire nat | LkAccess nat | LkReturn nat

text \<open>The mutex is released with the last access. A failed access ends the process.\<close>

fun lk_do :: "('op \<Rightarrow> 'pc) \<Rightarrow> ('pc, 'c, 'v) access \<Rightarrow> ('c, 'op, 'pc, 'v) LockSys \<Rightarrow> 'op lk_event \<Rightarrow>
    ('c, 'op, 'pc, 'v) LockSys option" where
  "lk_do entry access s (LkCall t op) =
     (if lk_failed s = None \<and> lk_threads s t = Outside
      then Some (s\<lparr>lk_threads := (lk_threads s)(t := Waiting op (length (lk_history s)))\<rparr>)
      else None)"
| "lk_do entry access s (LkAcquire t) =
     (case lk_threads s t of
        Waiting op n \<Rightarrow>
          (if lk_failed s = None \<and> lk_holder s = None
           then Some (s\<lparr>lk_threads := (lk_threads s)(t := Inside op n (entry op)), lk_holder := Some t\<rparr>)
           else None)
      | _ \<Rightarrow> None)"
| "lk_do entry access s (LkAccess t) =
     (case lk_threads s t of
        Inside op n pc \<Rightarrow>
          (if lk_failed s \<noteq> None then None
           else case access pc (lk_object s) of
             Inl e \<Rightarrow> Some (s\<lparr>lk_failed := Some e\<rparr>)
           | Inr (c, Inl pc') \<Rightarrow>
               Some (s\<lparr>lk_object := c, lk_threads := (lk_threads s)(t := Inside op n pc')\<rparr>)
           | Inr (c, Inr v) \<Rightarrow>
               Some (s\<lparr>lk_object := c, lk_holder := None, lk_history := lk_history s @ [(op, v)],
                       lk_threads := (lk_threads s)(t := Answered op n v (length (lk_history s)))\<rparr>))
      | _ \<Rightarrow> None)"
| "lk_do entry access s (LkReturn t) =
     (case lk_threads s t of
        Answered op n v i \<Rightarrow>
          (if lk_failed s = None then Some (s\<lparr>lk_threads := (lk_threads s)(t := Outside)\<rparr>) else None)
      | _ \<Rightarrow> None)"

inductive lk_step :: "('op \<Rightarrow> 'pc) \<Rightarrow> ('pc, 'c, 'v) access \<Rightarrow>
    ('c, 'op, 'pc, 'v) LockSys \<Rightarrow> ('c, 'op, 'pc, 'v) LockSys \<Rightarrow> bool"
  for entry access where
  lk_stepI: "lk_do entry access s ev = Some t \<Longrightarrow> lk_step entry access s t"

inductive_cases lk_stepE: "lk_step entry access s t"

definition lk_init :: "'c \<Rightarrow> ('c, 'op, 'pc, 'v) LockSys \<Rightarrow> bool" where
  "lk_init c0 s \<longleftrightarrow>
     s = \<lparr>lk_object = c0, lk_holder = None, lk_threads = \<lambda>_. Outside, lk_history = [], lk_failed = None\<rparr>"

fun lk_run :: "('op \<Rightarrow> 'pc) \<Rightarrow> ('pc, 'c, 'v) access \<Rightarrow> ('c, 'op, 'pc, 'v) LockSys \<Rightarrow> 'op lk_event list \<Rightarrow>
    ('c, 'op, 'pc, 'v) LockSys option" where
  "lk_run entry access s [] = Some s"
| "lk_run entry access s (ev # evs) =
     (case lk_do entry access s ev of None \<Rightarrow> None | Some t \<Rightarrow> lk_run entry access t evs)"

lemma lk_run_reachable:
  "reach init (lk_step entry access) s \<Longrightarrow> lk_run entry access s evs = Some t \<Longrightarrow> reach init (lk_step entry access) t"
proof (induction evs arbitrary: s)
  case (Cons ev evs)
  then obtain u where "lk_do entry access s ev = Some u" "lk_run entry access u evs = Some t"
    by (auto split: option.splits)
  with Cons show ?case by (meson reach_step lk_stepI)
qed simp

section \<open>Sequences of whole operations\<close>

text \<open>The object after a sequence of whole operations that gave these results, if they can.\<close>

fun replay :: "('op \<Rightarrow> 'c \<Rightarrow> ('c \<times> 'v) res) \<Rightarrow> 'c \<Rightarrow> ('op \<times> 'v) list \<Rightarrow> 'c option" where
  "replay atomic c [] = Some c"
| "replay atomic c ((op, v) # h) =
     (case atomic op c of
        Inl e \<Rightarrow> None
      | Inr (c', v') \<Rightarrow> if v' = v then replay atomic c' h else None)"

lemma replay_append:
  "replay atomic c (h @ h') = Option.bind (replay atomic c h) (\<lambda>d. replay atomic d h')"
  by (induction atomic c h rule: replay.induct) (auto split: sum.splits)

text \<open>
  The object is linearizable: in every reachable state the completed operations, in the order
  in which they released the mutex, give the results they had if they are run one after the
  other; this is also the object while nobody is inside. An operation is placed after all those
  that were complete when it was called, and before its caller goes on. At most one thread is
  inside, the holder of the mutex. If an access failed, the operation fails as a whole. And
  while a thread waits or is inside, some thread can take the mutex or its next access.
\<close>

definition placed :: "('op \<times> 'v) list \<Rightarrow> ('op, 'pc, 'v) tstat \<Rightarrow> bool" where
  "placed h st \<longleftrightarrow>
     (case st of
        Outside \<Rightarrow> True
      | Waiting op n \<Rightarrow> n \<le> length h
      | Inside op n pc \<Rightarrow> n \<le> length h
      | Answered op n v i \<Rightarrow> n \<le> i \<and> i < length h \<and> h ! i = (op, v))"

definition inside :: "('op, 'pc, 'v) tstat \<Rightarrow> bool" where
  "inside st \<longleftrightarrow> (case st of Inside op n pc \<Rightarrow> True | _ \<Rightarrow> False)"

definition linearized :: "('op \<Rightarrow> 'pc) \<Rightarrow> ('pc, 'c, 'v) access \<Rightarrow> ('op \<Rightarrow> 'c \<Rightarrow> ('c \<times> 'v) res) \<Rightarrow> 'c \<Rightarrow>
    ('c, 'op, 'pc, 'v) LockSys \<Rightarrow> bool" where
  "linearized entry access atomic c0 s \<longleftrightarrow>
     (\<exists>c. replay atomic c0 (lk_history s) = Some c \<and> (lk_holder s = None \<longrightarrow> lk_object s = c) \<and>
       (\<forall>e. lk_failed s = Some e \<longrightarrow>
          (\<exists>t op n pc. lk_threads s t = Inside op n pc \<and> atomic op c = Inl e))) \<and>
     (\<forall>t. placed (lk_history s) (lk_threads s t) \<and> (inside (lk_threads s t) \<longleftrightarrow> lk_holder s = Some t)) \<and>
     (lk_failed s = None \<and> (\<exists>t op n. lk_threads s t = Waiting op n) \<or> lk_failed s = None \<and> lk_holder s \<noteq> None \<longrightarrow>
       (\<exists>t u. lk_do entry access s (LkAcquire t) = Some u \<or> lk_do entry access s (LkAccess t) = Some u))"

definition linearizable :: "('op \<Rightarrow> 'pc) \<Rightarrow> ('pc, 'c, 'v) access \<Rightarrow> ('op \<Rightarrow> 'c \<Rightarrow> ('c \<times> 'v) res) \<Rightarrow> 'c \<Rightarrow> bool" where
  "linearizable entry access atomic c0 \<longleftrightarrow>
     (\<forall>s. reach (lk_init c0) (lk_step entry access) s \<longrightarrow> linearized entry access atomic c0 s)"

lemma placed_simps [simp]:
  "placed h Outside"
  "placed h (Waiting op n) \<longleftrightarrow> n \<le> length h"
  "placed h (Inside op n pc) \<longleftrightarrow> n \<le> length h"
  "placed h (Answered op n v i) \<longleftrightarrow> n \<le> i \<and> i < length h \<and> h ! i = (op, v)"
  by (simp_all add: placed_def)

lemma inside_simps [simp]:
  "\<not> inside Outside" "\<not> inside (Waiting op n)" "inside (Inside op n pc)" "\<not> inside (Answered op n v i)"
  by (simp_all add: inside_def)

lemma placed_append: "placed h st \<Longrightarrow> placed (h @ h') st"
  by (cases st) (auto simp: nth_append)

definition threads_ok :: "('c, 'op, 'pc, 'v) LockSys \<Rightarrow> bool" where
  "threads_ok s \<longleftrightarrow> (\<forall>t. placed (lk_history s) (lk_threads s t) \<and> (inside (lk_threads s t) \<longleftrightarrow> lk_holder s = Some t))"

lemma threads_okD:
  assumes "threads_ok s"
  shows "placed (lk_history s) (lk_threads s t)" "inside (lk_threads s t) \<longleftrightarrow> lk_holder s = Some t"
  using assms by (simp_all add: threads_ok_def)

lemma threads_ok_upd:
  "threads_ok s \<Longrightarrow> placed (lk_history s) st \<Longrightarrow> (inside st \<longleftrightarrow> lk_holder s = Some t) \<Longrightarrow>
   threads_ok (s\<lparr>lk_threads := (lk_threads s)(t := st)\<rparr>)"
  by (simp add: threads_ok_def)

section \<open>The interface\<close>

text \<open>\<open>fuel\<close> is the number of accesses of the longest operation.\<close>

locale locked_object =
  fixes entry :: "'op \<Rightarrow> 'pc"
    and access :: "('pc, 'c, 'v) access"
    and atomic :: "'op \<Rightarrow> 'c \<Rightarrow> ('c \<times> 'v) res"
    and fuel :: nat
  assumes entry_runs: "run_accesses access fuel (entry op) c = Some (atomic op c)"
begin

definition obj_ok :: "'c \<Rightarrow> ('c, 'op, 'pc, 'v) LockSys \<Rightarrow> bool" where
  "obj_ok c0 s \<longleftrightarrow> (\<exists>c. replay atomic c0 (lk_history s) = Some c \<and>
     (case lk_holder s of
        None \<Rightarrow> lk_object s = c \<and> lk_failed s = None
      | Some t \<Rightarrow> (\<exists>op n pc k. lk_threads s t = Inside op n pc \<and>
          (lk_failed s = None \<longrightarrow> run_accesses access k pc (lk_object s) = Some (atomic op c)) \<and>
          (\<forall>e. lk_failed s = Some e \<longrightarrow> atomic op c = Inl e))))"

definition lk_inv :: "'c \<Rightarrow> ('c, 'op, 'pc, 'v) LockSys \<Rightarrow> bool" where
  "lk_inv c0 s \<longleftrightarrow> obj_ok c0 s \<and> threads_ok s"

lemma inv_init: "lk_init c0 s \<Longrightarrow> lk_inv c0 s"
  by (simp add: lk_init_def lk_inv_def obj_ok_def threads_ok_def)

lemma obj_ok_elsewhere:
  assumes "obj_ok c0 s" "\<not> inside (lk_threads s t)"
  shows "obj_ok c0 (s\<lparr>lk_threads := (lk_threads s)(t := st)\<rparr>)"
  using assms by (fastforce simp: obj_ok_def split: option.splits)

lemma inv_call:
  assumes "lk_inv c0 s" "lk_do entry access s (LkCall t op) = Some u"
  shows "lk_inv c0 u"
proof -
  from assms(2) have t: "lk_threads s t = Outside"
    and u: "u = s\<lparr>lk_threads := (lk_threads s)(t := Waiting op (length (lk_history s)))\<rparr>"
    by (auto split: if_splits)
  have "lk_holder s \<noteq> Some t" using assms(1) t threads_okD(2)[of s t] by (auto simp: lk_inv_def)
  with assms(1) t show ?thesis
    unfolding u lk_inv_def by (auto intro!: obj_ok_elsewhere threads_ok_upd)
qed

lemma inv_return:
  assumes "lk_inv c0 s" "lk_do entry access s (LkReturn t) = Some u"
  shows "lk_inv c0 u"
proof -
  from assms(2) have t: "\<not> inside (lk_threads s t)"
    and u: "u = s\<lparr>lk_threads := (lk_threads s)(t := Outside)\<rparr>"
    by (auto split: if_splits tstat.splits)
  have "lk_holder s \<noteq> Some t" using assms(1) t threads_okD(2)[of s t] by (auto simp: lk_inv_def)
  with assms(1) t show ?thesis
    unfolding u lk_inv_def by (auto intro!: obj_ok_elsewhere threads_ok_upd)
qed

lemma inv_acquire:
  assumes "lk_inv c0 s" "lk_do entry access s (LkAcquire t) = Some u"
  shows "lk_inv c0 u"
proof -
  from assms(2) obtain op n where t: "lk_threads s t = Waiting op n" "lk_failed s = None" "lk_holder s = None"
    and u: "u = s\<lparr>lk_threads := (lk_threads s)(t := Inside op n (entry op)), lk_holder := Some t\<rparr>"
    by (auto split: if_splits tstat.splits)
  have ok: "obj_ok c0 s" "threads_ok s" using assms(1) by (auto simp: lk_inv_def)
  then have c: "replay atomic c0 (lk_history s) = Some (lk_object s)"
    using t(3) by (auto simp: obj_ok_def)
  have "obj_ok c0 u"
    using c t(2) entry_runs[of op "lk_object s"] by (auto simp: obj_ok_def u)
  moreover have "threads_ok u"
    using threads_okD[OF ok(2)] t threads_okD(1)[OF ok(2), of t] by (simp add: u threads_ok_def)
  ultimately show ?thesis by (simp add: lk_inv_def)
qed

lemma inv_access:
  assumes "lk_inv c0 s" "lk_do entry access s (LkAccess t) = Some u"
  shows "lk_inv c0 u"
proof -
  from assms(2) obtain op n pc where t: "lk_threads s t = Inside op n pc" and alive: "lk_failed s = None"
    by (auto split: if_splits tstat.splits)
  have ok: "obj_ok c0 s" "threads_ok s" using assms(1) by (auto simp: lk_inv_def)
  have holder: "lk_holder s = Some t" using threads_okD(2)[OF ok(2), of t] t by simp
  have n: "n \<le> length (lk_history s)" using threads_okD(1)[OF ok(2), of t] t by simp
  from ok(1) holder t alive obtain c k where c: "replay atomic c0 (lk_history s) = Some c"
    "run_accesses access k pc (lk_object s) = Some (atomic op c)"
    by (auto simp: obj_ok_def)
  then obtain k' where k: "k = Suc k'" by (cases k) auto
  consider (fails) e where "access pc (lk_object s) = Inl e"
    | (more) d pc' where "access pc (lk_object s) = Inr (d, Inl pc')"
    | (ends) d v where "access pc (lk_object s) = Inr (d, Inr v)"
    by (metis old.prod.exhaust sum.exhaust)
  then show ?thesis
  proof cases
    case fails
    then have u: "u = s\<lparr>lk_failed := Some e\<rparr>" using assms(2) t alive by simp
    have "atomic op c = Inl e" using c(2) k fails by simp
    with c(1) holder t ok(2) show ?thesis by (auto simp: u lk_inv_def obj_ok_def threads_ok_def)
  next
    case more
    then have u: "u = s\<lparr>lk_object := d, lk_threads := (lk_threads s)(t := Inside op n pc')\<rparr>"
      using assms(2) t alive by simp
    have "run_accesses access k' pc' d = Some (atomic op c)" using c(2) k more by simp
    then have "obj_ok c0 u" using c(1) holder alive by (auto simp: u obj_ok_def)
    moreover have "threads_ok u"
      using threads_okD[OF ok(2)] n holder by (simp add: u threads_ok_def)
    ultimately show ?thesis by (simp add: lk_inv_def)
  next
    case ends
    then have u: "u = s\<lparr>lk_object := d, lk_holder := None, lk_history := lk_history s @ [(op, v)],
        lk_threads := (lk_threads s)(t := Answered op n v (length (lk_history s)))\<rparr>"
      using assms(2) t alive by simp
    have "atomic op c = Inr (d, v)" using c(2) k ends by simp
    then have "obj_ok c0 u" using c(1) alive by (simp add: u obj_ok_def replay_append)
    moreover have "threads_ok u"
      using threads_okD[OF ok(2)] n holder by (simp add: u threads_ok_def placed_append)
    ultimately show ?thesis by (simp add: lk_inv_def)
  qed
qed

lemma step_inv: "lk_inv c0 s \<Longrightarrow> lk_step entry access s u \<Longrightarrow> lk_inv c0 u"
  by (erule lk_stepE, rename_tac ev, case_tac ev)
    (blast intro: inv_call inv_acquire inv_access inv_return)+

lemma inv_linearized:
  assumes "lk_inv c0 s"
  shows "linearized entry access atomic c0 s"
proof -
  have ok: "obj_ok c0 s" "threads_ok s" using assms by (auto simp: lk_inv_def)
  have "\<exists>t u. lk_do entry access s (LkAcquire t) = Some u \<or> lk_do entry access s (LkAccess t) = Some u"
    if "lk_failed s = None" "(\<exists>t op n. lk_threads s t = Waiting op n) \<or> lk_holder s \<noteq> None"
  proof (cases "lk_holder s")
    case None
    with that obtain t op n where "lk_threads s t = Waiting op n" by auto
    with None that(1) have "lk_do entry access s (LkAcquire t) \<noteq> None" by simp
    then show ?thesis by blast
  next
    case (Some t)
    with threads_okD(2)[OF ok(2), of t] obtain op n pc where "lk_threads s t = Inside op n pc"
      by (cases "lk_threads s t") auto
    with that(1) have "lk_do entry access s (LkAccess t) \<noteq> None"
      by (auto split: sum.splits prod.splits)
    then show ?thesis by blast
  qed
  moreover have "\<exists>c. replay atomic c0 (lk_history s) = Some c \<and> (lk_holder s = None \<longrightarrow> lk_object s = c) \<and>
       (\<forall>e. lk_failed s = Some e \<longrightarrow> (\<exists>t op n pc. lk_threads s t = Inside op n pc \<and> atomic op c = Inl e))"
    using ok(1) by (fastforce simp: obj_ok_def split: option.splits)
  ultimately show ?thesis using threads_okD[OF ok(2)] unfolding linearized_def by blast
qed

end

sublocale locked_object \<subseteq> lk_sys: invariant_system "lk_init c0" "lk_step entry access" "lk_inv c0" for c0
  by unfold_locales (auto intro: inv_init step_inv)

context locked_object
begin

lemma is_linearizable: "linearizable entry access atomic c0"
  unfolding linearizable_def by (blast intro: inv_linearized lk_sys.reach_inv)

end

end
