(* ===== verification/Lock_Queue.thy ===== *)
theory Lock_Queue
  imports Contracts
begin

text \<open>
  \<^verbatim>\<open>DataStruct/LockQueue\<close>: the bounded queue over a \<^verbatim>\<open>std::array\<close> and the unbounded one over a
  \<^verbatim>\<open>std::queue\<close>. Every operation holds the queue's mutex from its first to its last statement,
  so here an operation is one atomic step on the state; \<open>Lock_Threads\<close> shows that it is one. What a move leaves in its source is up to the
  element type, so it is the parameter \<open>mv\<close>. The unbounded queue is proved to be the queue of
  \<open>Contracts\<close>; the bounded one is proved to refuse every element from its construction on.
\<close>

section \<open>The bounded queue\<close>

record 'a LockQueueN =
  lqn_headIndex :: UINT32
  lqn_tailIndex :: UINT32
  lqn_count :: UINT32
  lqn_queue :: "'a list"

text \<open>\<open>Size\<close> is the template parameter; \<open>slots\<close> the elements the array is created with.\<close>

definition LockQueueN_new :: "'a list \<Rightarrow> 'a LockQueueN" where
  "LockQueueN_new slots =
     \<lparr>lqn_headIndex = 0, lqn_tailIndex = 0, lqn_count = 0, lqn_queue = slots\<rparr>"

definition LockQueueN_Push :: "UINT32 \<Rightarrow> 'a LockQueueN \<Rightarrow> 'a \<Rightarrow> 'a LockQueueN res" where
  "LockQueueN_Push Size q data =
     (if lqn_count q < Size then Crash ''Queue overflow.''
      else if length (lqn_queue q) \<le> unat (lqn_tailIndex q) then Inl OutOfBounds
      else Inr (q\<lparr>lqn_queue := (lqn_queue q)[unat (lqn_tailIndex q) := data],
                  lqn_tailIndex := (lqn_tailIndex q + 1) mod Size,
                  lqn_count := lqn_count q + 1\<rparr>))"

text \<open>The overload for an rvalue also returns what is left of the argument.\<close>

definition LockQueueN_PushMove ::
  "('a \<Rightarrow> 'a) \<Rightarrow> UINT32 \<Rightarrow> 'a LockQueueN \<Rightarrow> 'a \<Rightarrow> ('a \<times> 'a LockQueueN) res" where
  "LockQueueN_PushMove mv Size q data =
     (if lqn_count q < Size then Crash ''Queue overflow.''
      else if length (lqn_queue q) \<le> unat (lqn_tailIndex q) then Inl OutOfBounds
      else Inr (mv data,
                q\<lparr>lqn_queue := (lqn_queue q)[unat (lqn_tailIndex q) := data],
                  lqn_tailIndex := (lqn_tailIndex q + 1) mod Size,
                  lqn_count := lqn_count q + 1\<rparr>))"

text \<open>\<open>mk\<close> is the constructor of the element type.\<close>

definition LockQueueN_Emplace ::
  "('args \<Rightarrow> 'a) \<Rightarrow> UINT32 \<Rightarrow> 'a LockQueueN \<Rightarrow> 'args \<Rightarrow> 'a LockQueueN res" where
  "LockQueueN_Emplace mk Size q args =
     (if lqn_count q < Size then Crash ''Queue overflow.''
      else if length (lqn_queue q) \<le> unat (lqn_tailIndex q) then Inl OutOfBounds
      else Inr (q\<lparr>lqn_queue := (lqn_queue q)[unat (lqn_tailIndex q) := mk args],
                  lqn_tailIndex := (lqn_tailIndex q + 1) mod Size,
                  lqn_count := lqn_count q + 1\<rparr>))"

definition LockQueueN_Pop ::
  "build \<Rightarrow> ('a \<Rightarrow> 'a) \<Rightarrow> UINT32 \<Rightarrow> 'a LockQueueN \<Rightarrow> ('a \<times> 'a LockQueueN) res" where
  "LockQueueN_Pop b mv Size q =
     ASSERT b (0 < lqn_count q) ''Queue is empty''
       (let i = unat (lqn_headIndex q)
        in if length (lqn_queue q) \<le> i then Inl OutOfBounds
           else let data = lqn_queue q ! i
                in Inr (data, q\<lparr>lqn_queue := (lqn_queue q)[i := mv data],
                               lqn_headIndex := (lqn_headIndex q + 1) mod Size,
                               lqn_count := lqn_count q - 1\<rparr>))"

definition LockQueueN_TryPop ::
  "('a \<Rightarrow> 'a) \<Rightarrow> UINT32 \<Rightarrow> 'a LockQueueN \<Rightarrow> 'a \<Rightarrow> (bool \<times> 'a \<times> 'a LockQueueN) res" where
  "LockQueueN_TryPop mv Size q data =
     (if lqn_count q = 0 then Inr (False, data, q)
      else let i = unat (lqn_headIndex q)
           in if length (lqn_queue q) \<le> i then Inl OutOfBounds
              else Inr (True, lqn_queue q ! i,
                     q\<lparr>lqn_queue := (lqn_queue q)[i := mv (lqn_queue q ! i)],
                       lqn_headIndex := (lqn_headIndex q + 1) mod Size,
                       lqn_count := lqn_count q - 1\<rparr>))"

definition LockQueueN_GetSize :: "'a LockQueueN \<Rightarrow> UINT32" where
  "LockQueueN_GetSize q = lqn_count q"

definition LockQueueN_IsEmpty :: "'a LockQueueN \<Rightarrow> bool" where
  "LockQueueN_IsEmpty q \<longleftrightarrow> 0 = lqn_count q"

section \<open>The unbounded queue\<close>

record 'a LockQueue0 =
  lq0_queue :: "'a list"

definition LockQueue0_new :: "'a LockQueue0" where
  "LockQueue0_new = \<lparr>lq0_queue = []\<rparr>"

definition LockQueue0_Push :: "'a LockQueue0 \<Rightarrow> 'a \<Rightarrow> 'a LockQueue0 res" where
  "LockQueue0_Push q data = Inr (q\<lparr>lq0_queue := lq0_queue q @ [data]\<rparr>)"

definition LockQueue0_PushMove ::
  "('a \<Rightarrow> 'a) \<Rightarrow> 'a LockQueue0 \<Rightarrow> 'a \<Rightarrow> 'a \<times> 'a LockQueue0" where
  "LockQueue0_PushMove mv q data = (mv data, q\<lparr>lq0_queue := lq0_queue q @ [data]\<rparr>)"

definition LockQueue0_Emplace :: "('args \<Rightarrow> 'a) \<Rightarrow> 'a LockQueue0 \<Rightarrow> 'args \<Rightarrow> 'a LockQueue0" where
  "LockQueue0_Emplace mk q args = q\<lparr>lq0_queue := lq0_queue q @ [mk args]\<rparr>"

text \<open>\<^verbatim>\<open>front()\<close> of an empty \<^verbatim>\<open>std::queue\<close> is undefined; only the assertion excludes it.\<close>

definition LockQueue0_Pop :: "build \<Rightarrow> 'a LockQueue0 \<Rightarrow> ('a \<times> 'a LockQueue0) res" where
  "LockQueue0_Pop b q =
     ASSERT b (lq0_queue q \<noteq> []) ''Queue is empty''
       (case lq0_queue q of
          [] \<Rightarrow> Inl OutOfBounds
        | x # xs \<Rightarrow> Inr (x, q\<lparr>lq0_queue := xs\<rparr>))"

definition LockQueue0_TryPop :: "'a LockQueue0 \<Rightarrow> 'a \<Rightarrow> bool \<times> 'a \<times> 'a LockQueue0" where
  "LockQueue0_TryPop q data =
     (case lq0_queue q of
        [] \<Rightarrow> (False, data, q)
      | x # xs \<Rightarrow> (True, x, q\<lparr>lq0_queue := xs\<rparr>))"

definition LockQueue0_GetSize :: "'a LockQueue0 \<Rightarrow> UINT32" where
  "LockQueue0_GetSize q = word_of_nat (length (lq0_queue q))"

definition LockQueue0_IsEmpty :: "'a LockQueue0 \<Rightarrow> bool" where
  "LockQueue0_IsEmpty q \<longleftrightarrow> lq0_queue q = []"

interpretation lock_queue: fifo_pool "\<lambda>_. True" lq0_queue LockQueue0_Push LockQueue0_TryPop
  by unfold_locales (auto simp: LockQueue0_Push_def LockQueue0_TryPop_def split: list.splits)

lemma LockQueue0_run_total: "is_ok (pool_run LockQueue0_Push LockQueue0_TryPop d q ops)"
proof (induction ops arbitrary: q)
  case (Cons op ops)
  then show ?case
    by (cases op)
      (auto simp: LockQueue0_Push_def LockQueue0_TryPop_def is_ok_bind_pair is_ok_bind_total
          split: list.splits)
qed simp

section \<open>The ring of the bounded queue\<close>

text \<open>
  The intended shape of the state: the tail lies \<open>count\<close> places after the head, and the queued
  elements are those from the head on.
\<close>

definition lqn_wf :: "UINT32 \<Rightarrow> 'a LockQueueN \<Rightarrow> bool" where
  "lqn_wf Size q \<longleftrightarrow>
     length (lqn_queue q) = unat Size \<and> 0 < unat Size \<and>
     unat (lqn_headIndex q) < unat Size \<and> unat (lqn_count q) \<le> unat Size \<and>
     unat (lqn_tailIndex q) = (unat (lqn_headIndex q) + unat (lqn_count q)) mod unat Size"

definition lqn_elems :: "UINT32 \<Rightarrow> 'a LockQueueN \<Rightarrow> 'a list" where
  "lqn_elems Size q =
     map (\<lambda>i. lqn_queue q ! ((unat (lqn_headIndex q) + i) mod unat Size)) [0..<unat (lqn_count q)]"

lemma lqn_new_wf: "length slots = unat Size \<Longrightarrow> 0 < Size \<Longrightarrow> lqn_wf Size (LockQueueN_new slots)"
  by (simp add: lqn_wf_def LockQueueN_new_def word_nat)

lemma succ_mod_word:
  fixes i n :: UINT32
  assumes "unat i < unat n"
  shows "unat ((i + 1) mod n) = Suc (unat i) mod unat n"
proof -
  have "unat i + 1 < 4294967296"
    using assms unat_less32[of n] by simp
  then have "unat (i + 1) = Suc (unat i)"
    by (simp add: unat_add_small32)
  then show ?thesis by (simp add: unat_mod)
qed

lemma lqn_pop_wf:
  assumes "lqn_wf Size q" "0 < lqn_count q"
  obtains q' where "LockQueueN_TryPop mv Size q d = Inr (True, lqn_queue q ! unat (lqn_headIndex q), q')"
    "LockQueueN_Pop b mv Size q = Inr (lqn_queue q ! unat (lqn_headIndex q), q')"
    "lqn_wf Size q'" "lqn_elems Size q = lqn_queue q ! unat (lqn_headIndex q) # lqn_elems Size q'"
proof -
  let ?n = "unat Size" and ?h = "unat (lqn_headIndex q)" and ?c = "unat (lqn_count q)"
  let ?q' = "q\<lparr>lqn_queue := (lqn_queue q)[?h := mv (lqn_queue q ! ?h)],
               lqn_headIndex := (lqn_headIndex q + 1) mod Size, lqn_count := lqn_count q - 1\<rparr>"
  from assms have wf: "length (lqn_queue q) = ?n" "0 < ?n" "?h < ?n" "?c \<le> ?n"
    "unat (lqn_tailIndex q) = (?h + ?c) mod ?n"
    by (auto simp: lqn_wf_def)
  have c0: "0 < ?c"
    using assms(2) by (simp add: unat_gt_0 word_gt_0)
  then have c: "unat (lqn_count q - 1) = ?c - 1"
    by (simp add: unat_sub_le)
  have h: "unat ((lqn_headIndex q + 1) mod Size) = Suc ?h mod ?n"
    using wf by (simp add: succ_mod_word)
  have "(Suc ?h mod ?n + (?c - 1)) mod ?n = (?h + ?c) mod ?n"
    using c0 by (cases ?c) (simp_all add: mod_simps)
  with wf c c0 h have "lqn_wf Size ?q'"
    by (auto simp: lqn_wf_def)
  moreover have "lqn_elems Size q = lqn_queue q ! ?h # lqn_elems Size ?q'"
  proof -
    have "[0..<?c] = 0 # map Suc [0..<?c - 1]"
      using c0 by (metis Suc_pred' map_Suc_upt upt_conv_Cons)
    then have "lqn_elems Size q = lqn_queue q ! (?h mod ?n) #
        map (\<lambda>i. lqn_queue q ! ((?h + Suc i) mod ?n)) [0..<?c - 1]"
      by (simp add: lqn_elems_def)
    moreover have "lqn_elems Size ?q' = map (\<lambda>i. lqn_queue q ! ((?h + Suc i) mod ?n)) [0..<?c - 1]"
    proof -
      have ne: "?h \<noteq> (?h + Suc i) mod ?n" if "i < ?c - 1" for i
      proof
        assume "?h = (?h + Suc i) mod ?n"
        then have "(?h + Suc i) mod ?n = ?h mod ?n"
          using wf by (simp add: mod_simps)
        then have "?n dvd Suc i"
          by (metis add_diff_cancel_left' le_add1 mod_eq_dvd_iff_nat)
        with that wf(4) show False
          by (auto dest: dvd_imp_le)
      qed
      have "(Suc ?h mod ?n + i) mod ?n = (?h + Suc i) mod ?n" for i
        by (simp add: mod_simps)
      with ne show ?thesis
        using c h by (auto simp: lqn_elems_def)
    qed
    ultimately show ?thesis using wf by simp
  qed
  ultimately show thesis
    using that[of ?q'] assms(2) wf c0
    by (simp add: LockQueueN_TryPop_def LockQueueN_Pop_def Let_def)
qed

section \<open>Runs of the bounded queue\<close>

fun lqn_run :: "('a \<Rightarrow> 'a) \<Rightarrow> UINT32 \<Rightarrow> 'a \<Rightarrow> 'a LockQueueN \<Rightarrow> 'a pool_op list \<Rightarrow>
    ('a list \<times> 'a LockQueueN) res" where
  "lqn_run mv Size d q [] = Inr ([], q)"
| "lqn_run mv Size d q (Push_op x # ops) =
     bind_res (LockQueueN_Push Size q x) (\<lambda>q'. lqn_run mv Size d q' ops)"
| "lqn_run mv Size d q (TryPop_op # ops) =
     bind_res (LockQueueN_TryPop mv Size q d) (\<lambda>(found, x, q').
       bind_res (lqn_run mv Size d q' ops)
         (\<lambda>(xs, t). Inr (if found then x # xs else xs, t)))"

section \<open>Properties\<close>


text \<open>
  C30: (container \<^verbatim>\<open>LockQueue<T, Size>\<close>, error) The overflow check of the bounded queue is
  inverted: it crashes while the queue is not full. A new queue of any positive size therefore
  crashes at its first push, whatever was tried before, and \<^verbatim>\<open>TryPop\<close> finds nothing until then.
\<close>
theorem lock_queue_bounded_refuses_every_push:
  assumes "0 < Size"
  shows "lqn_run mv Size d (LockQueueN_new slots) ops =
    (if pushed ops = [] then Inr ([], LockQueueN_new slots)
     else Inl (Crashed ''Queue overflow.''))"
proof (induction ops)
  case (Cons op ops)
  with assms show ?case
    by (cases op) (auto simp: LockQueueN_Push_def LockQueueN_TryPop_def LockQueueN_new_def Crash_def)
qed simp

lemma lock_queue_bounded_refuses_every_push_witness:
  "lqn_run id 4 0 (LockQueueN_new [0, 0, 0, 0 :: nat]) [TryPop_op, Push_op 7, TryPop_op] =
     Inl (Crashed ''Queue overflow.'')"
  by (subst lock_queue_bounded_refuses_every_push) simp_all

text \<open>
  On a state of the intended shape the two
  ends differ: \<^verbatim>\<open>Pop\<close> and \<^verbatim>\<open>TryPop\<close> deliver the oldest element and leave the rest in order,
  while a push crashes below the capacity and, on a full queue, overwrites the oldest element
  and lets the count exceed the capacity.
\<close>
theorem lock_queue_bounded_ends:
  assumes "lqn_wf Size q" "lqn_elems Size q = x # xs"
  shows "(\<exists>q'. LockQueueN_TryPop mv Size q d = Inr (True, x, q') \<and>
      LockQueueN_Pop b mv Size q = Inr (x, q') \<and> lqn_wf Size q' \<and> lqn_elems Size q' = xs) \<and>
    (if length (x # xs) < unat Size
     then LockQueueN_Push Size q y = Inl (Crashed ''Queue overflow.'')
     else \<exists>q'. LockQueueN_Push Size q y = Inr q' \<and> lqn_count q' = Size + 1 \<and>
       lqn_queue q' = (lqn_queue q)[unat (lqn_headIndex q) := y] \<and>
       lqn_queue q ! unat (lqn_headIndex q) = x)"
proof -
  have len: "unat (lqn_count q) = length (x # xs)"
    using assms(2) by (metis diff_zero length_map length_upt lqn_elems_def)
  then have c: "0 < lqn_count q"
    by (simp add: word_nat)
  have pop: "\<exists>q'. LockQueueN_TryPop mv Size q d = Inr (True, x, q') \<and>
      LockQueueN_Pop b mv Size q = Inr (x, q') \<and> lqn_wf Size q' \<and> lqn_elems Size q' = xs"
    using lqn_pop_wf[OF assms(1) c, of mv d b] assms(2) by (metis list.inject)
  show ?thesis
  proof (cases "length (x # xs) < unat Size")
    case True
    with len have "lqn_count q < Size" by (simp add: word_nat)
    with True pop show ?thesis by (simp add: LockQueueN_Push_def Crash_def)
  next
    case False
    with len assms(1) have full: "lqn_count q = Size"
      by (simp add: lqn_wf_def word_unat_eq_iff)
    with assms(1) have "lqn_tailIndex q = lqn_headIndex q"
      by (auto simp: lqn_wf_def word_unat_eq_iff)
    moreover have "lqn_queue q ! unat (lqn_headIndex q) = x"
      by (rule lqn_pop_wf[OF assms(1) c]) (use assms(2) in auto)
    ultimately show ?thesis
      using False pop full assms(1) by (auto simp: LockQueueN_Push_def lqn_wf_def)
  qed
qed

lemma lock_queue_bounded_ends_witness:
  "\<exists>q'. LockQueueN_Push 2 \<lparr>lqn_headIndex = 1, lqn_tailIndex = 1, lqn_count = 2, lqn_queue = [20, 10 :: nat]\<rparr> 30
     = Inr q' \<and> lqn_count q' = 3 \<and> lqn_queue q' = [20, 30]"
proof -
  let ?q = "\<lparr>lqn_headIndex = 1, lqn_tailIndex = 1, lqn_count = 2, lqn_queue = [20, 10 :: nat]\<rparr>"
  have "lqn_wf 2 ?q" "lqn_elems 2 ?q = [10, 20]"
    by (simp_all add: lqn_wf_def lqn_elems_def upt_rec)
  from lock_queue_bounded_ends[OF this, of id 0 Debug 30] show ?thesis by auto
qed

end
