(* ===== verification/Lock_Stack.thy ===== *)
theory Lock_Stack
  imports Contracts
begin

text \<open>
  \<^verbatim>\<open>DataStruct/LockStack\<close>: the bounded stack over a \<^verbatim>\<open>std::array\<close> and the unbounded one over a
  \<^verbatim>\<open>std::vector\<close>, which is the session pool of the server engine. As for the queue, an operation
  holds the mutex throughout (\<open>Lock_Threads\<close> has their single accesses), and \<open>mv\<close> is what a move leaves in its source. Both are proved to
  be the stack of \<open>Contracts\<close>, hence a pool that neither loses nor duplicates an element.
\<close>

section \<open>The bounded stack\<close>

record 'a LockStackN =
  lsn_topIndex :: UINT32
  lsn_stack :: "'a list"

definition LockStackN_new :: "'a list \<Rightarrow> 'a LockStackN" where
  "LockStackN_new slots = \<lparr>lsn_topIndex = 0, lsn_stack = slots\<rparr>"

text \<open>The second constructor fills every slot; \<open>mk\<close> is the constructor of the element type.\<close>

definition LockStackN_new_filled :: "('args \<Rightarrow> 'a) \<Rightarrow> UINT32 \<Rightarrow> 'args \<Rightarrow> 'a LockStackN" where
  "LockStackN_new_filled mk Size args =
     \<lparr>lsn_topIndex = Size, lsn_stack = replicate (unat Size) (mk args)\<rparr>"

definition overflow_message :: string where
  "overflow_message = ''Stack overflow. Size(%d) < topIndex(%d)''"

definition LockStackN_Push :: "build \<Rightarrow> UINT32 \<Rightarrow> 'a LockStackN \<Rightarrow> 'a \<Rightarrow> 'a LockStackN res" where
  "LockStackN_Push b Size s data =
     ASSERT b (lsn_topIndex s < Size) overflow_message
       (if length (lsn_stack s) \<le> unat (lsn_topIndex s) then Inl OutOfBounds
        else Inr (s\<lparr>lsn_stack := (lsn_stack s)[unat (lsn_topIndex s) := data],
                    lsn_topIndex := lsn_topIndex s + 1\<rparr>))"

definition LockStackN_PushMove ::
  "build \<Rightarrow> ('a \<Rightarrow> 'a) \<Rightarrow> UINT32 \<Rightarrow> 'a LockStackN \<Rightarrow> 'a \<Rightarrow> ('a \<times> 'a LockStackN) res" where
  "LockStackN_PushMove b mv Size s data =
     ASSERT b (lsn_topIndex s < Size) overflow_message
       (if length (lsn_stack s) \<le> unat (lsn_topIndex s) then Inl OutOfBounds
        else Inr (mv data,
                  s\<lparr>lsn_stack := (lsn_stack s)[unat (lsn_topIndex s) := data],
                    lsn_topIndex := lsn_topIndex s + 1\<rparr>))"

definition LockStackN_Emplace ::
  "build \<Rightarrow> ('args \<Rightarrow> 'a) \<Rightarrow> UINT32 \<Rightarrow> 'a LockStackN \<Rightarrow> 'args \<Rightarrow> 'a LockStackN res" where
  "LockStackN_Emplace b mk Size s args =
     ASSERT b (lsn_topIndex s < Size) overflow_message
       (if length (lsn_stack s) \<le> unat (lsn_topIndex s) then Inl OutOfBounds
        else Inr (s\<lparr>lsn_stack := (lsn_stack s)[unat (lsn_topIndex s) := mk args],
                    lsn_topIndex := lsn_topIndex s + 1\<rparr>))"

definition LockStackN_Pop ::
  "build \<Rightarrow> ('a \<Rightarrow> 'a) \<Rightarrow> 'a LockStackN \<Rightarrow> ('a \<times> 'a LockStackN) res" where
  "LockStackN_Pop b mv s =
     ASSERT b (0 < lsn_topIndex s) ''Stack is empty''
       (let top = lsn_topIndex s - 1
        in if length (lsn_stack s) \<le> unat top then Inl OutOfBounds
           else Inr (lsn_stack s ! unat top,
                     s\<lparr>lsn_topIndex := top,
                       lsn_stack := (lsn_stack s)[unat top := mv (lsn_stack s ! unat top)]\<rparr>))"

definition LockStackN_TryPop ::
  "('a \<Rightarrow> 'a) \<Rightarrow> 'a LockStackN \<Rightarrow> 'a \<Rightarrow> (bool \<times> 'a \<times> 'a LockStackN) res" where
  "LockStackN_TryPop mv s data =
     (if 0 = lsn_topIndex s then Inr (False, data, s)
      else let top = lsn_topIndex s - 1
           in if length (lsn_stack s) \<le> unat top then Inl OutOfBounds
              else Inr (True, lsn_stack s ! unat top,
                     s\<lparr>lsn_topIndex := top,
                       lsn_stack := (lsn_stack s)[unat top := mv (lsn_stack s ! unat top)]\<rparr>))"

definition LockStackN_GetSize :: "'a LockStackN \<Rightarrow> UINT32" where
  "LockStackN_GetSize s = lsn_topIndex s"

definition LockStackN_IsEmpty :: "'a LockStackN \<Rightarrow> bool" where
  "LockStackN_IsEmpty s \<longleftrightarrow> 0 = lsn_topIndex s"

section \<open>The unbounded stack\<close>

text \<open>The top is the last element of the vector, whose reserved capacity is kept beside it.\<close>

record 'a LockStack0 =
  ls0_stack :: "'a list"
  ls0_capacity :: nat

definition LockStack0_new :: "'a LockStack0" where
  "LockStack0_new = \<lparr>ls0_stack = [], ls0_capacity = 0\<rparr>"

text \<open>\<open>grow\<close> is the growth policy of the vector: any capacity that holds the elements.\<close>

definition vector_push :: "(nat \<Rightarrow> nat) \<Rightarrow> 'a LockStack0 \<Rightarrow> 'a \<Rightarrow> 'a LockStack0" where
  "vector_push grow s x =
     s\<lparr>ls0_stack := ls0_stack s @ [x],
       ls0_capacity := (if length (ls0_stack s) < ls0_capacity s then ls0_capacity s
                        else max (Suc (length (ls0_stack s))) (grow (ls0_capacity s)))\<rparr>"

definition LockStack0_Reserve :: "'a LockStack0 \<Rightarrow> UINT32 \<Rightarrow> 'a LockStack0" where
  "LockStack0_Reserve s n = s\<lparr>ls0_capacity := max (ls0_capacity s) (unat n)\<rparr>"

fun emplace_times :: "(nat \<Rightarrow> nat) \<Rightarrow> ('args \<Rightarrow> 'a) \<Rightarrow> 'args \<Rightarrow> nat \<Rightarrow> 'a LockStack0 \<Rightarrow> 'a LockStack0" where
  "emplace_times grow mk args 0 s = s"
| "emplace_times grow mk args (Suc k) s = emplace_times grow mk args k (vector_push grow s (mk args))"

definition LockStack0_new_filled ::
  "(nat \<Rightarrow> nat) \<Rightarrow> ('args \<Rightarrow> 'a) \<Rightarrow> UINT32 \<Rightarrow> 'args \<Rightarrow> 'a LockStack0" where
  "LockStack0_new_filled grow mk initSize args =
     emplace_times grow mk args (unat initSize) (LockStack0_Reserve LockStack0_new initSize)"

definition LockStack0_Push :: "(nat \<Rightarrow> nat) \<Rightarrow> 'a LockStack0 \<Rightarrow> 'a \<Rightarrow> 'a LockStack0 res" where
  "LockStack0_Push grow s data = Inr (vector_push grow s data)"

definition LockStack0_PushMove ::
  "(nat \<Rightarrow> nat) \<Rightarrow> ('a \<Rightarrow> 'a) \<Rightarrow> 'a LockStack0 \<Rightarrow> 'a \<Rightarrow> 'a \<times> 'a LockStack0" where
  "LockStack0_PushMove grow mv s data = (mv data, vector_push grow s data)"

definition LockStack0_Emplace ::
  "(nat \<Rightarrow> nat) \<Rightarrow> ('args \<Rightarrow> 'a) \<Rightarrow> 'a LockStack0 \<Rightarrow> 'args \<Rightarrow> 'a LockStack0" where
  "LockStack0_Emplace grow mk s args = vector_push grow s (mk args)"

definition LockStack0_Pop :: "build \<Rightarrow> 'a LockStack0 \<Rightarrow> ('a \<times> 'a LockStack0) res" where
  "LockStack0_Pop b s =
     ASSERT b (ls0_stack s \<noteq> []) ''Stack is empty''
       (if ls0_stack s = [] then Inl OutOfBounds
        else Inr (last (ls0_stack s), s\<lparr>ls0_stack := butlast (ls0_stack s)\<rparr>))"

definition LockStack0_TryPop :: "'a LockStack0 \<Rightarrow> 'a \<Rightarrow> bool \<times> 'a \<times> 'a LockStack0" where
  "LockStack0_TryPop s data =
     (if ls0_stack s = [] then (False, data, s)
      else (True, last (ls0_stack s), s\<lparr>ls0_stack := butlast (ls0_stack s)\<rparr>))"

definition LockStack0_GetSize :: "'a LockStack0 \<Rightarrow> UINT32" where
  "LockStack0_GetSize s = word_of_nat (length (ls0_stack s))"

definition LockStack0_IsEmpty :: "'a LockStack0 \<Rightarrow> bool" where
  "LockStack0_IsEmpty s \<longleftrightarrow> ls0_stack s = []"

interpretation lock_stack: lifo_pool "\<lambda>_. True" ls0_stack "LockStack0_Push grow" LockStack0_TryPop
  for grow
  by unfold_locales (auto simp: LockStack0_Push_def LockStack0_TryPop_def vector_push_def)

lemma LockStack0_run_total: "is_ok (pool_run (LockStack0_Push grow) LockStack0_TryPop d s ops)"
proof (induction ops arbitrary: s)
  case (Cons op ops)
  then show ?case
    by (cases op)
      (auto simp: LockStack0_Push_def LockStack0_TryPop_def is_ok_bind_pair is_ok_bind_total)
qed simp

lemma emplace_times_elems:
  "ls0_stack (emplace_times grow mk args k s) = ls0_stack s @ replicate k (mk args)"
  by (induction k arbitrary: s) (simp_all add: vector_push_def)

lemma emplace_times_capacity:
  "length (ls0_stack s) + k \<le> ls0_capacity s \<Longrightarrow>
   ls0_capacity (emplace_times grow mk args k s) = ls0_capacity s"
  by (induction k arbitrary: s) (simp_all add: vector_push_def)

section \<open>The bounded stack as a stack\<close>

definition lsn_wf :: "UINT32 \<Rightarrow> 'a LockStackN \<Rightarrow> bool" where
  "lsn_wf Size s \<longleftrightarrow> length (lsn_stack s) = unat Size \<and> lsn_topIndex s \<le> Size"

definition lsn_elems :: "'a LockStackN \<Rightarrow> 'a list" where
  "lsn_elems s = take (unat (lsn_topIndex s)) (lsn_stack s)"

lemma lsn_push_cases:
  assumes "lsn_wf Size s"
  shows "LockStackN_Push b Size s x =
    (if length (lsn_elems s) < unat Size
     then Inr (s\<lparr>lsn_stack := (lsn_stack s)[unat (lsn_topIndex s) := x], lsn_topIndex := lsn_topIndex s + 1\<rparr>)
     else Inl (if b = Debug then AssertFailed overflow_message else OutOfBounds))"
  using assms
  by (cases b) (auto simp: LockStackN_Push_def lsn_wf_def lsn_elems_def ASSERT_fail word_nat)

lemma lsn_push_wf:
  assumes "lsn_wf Size s" "LockStackN_Push b Size s x = Inr s'"
  shows "lsn_wf Size s' \<and> lsn_elems s' = lsn_elems s @ [x]"
proof -
  from assms have lt: "unat (lsn_topIndex s) < unat Size" and len: "length (lsn_stack s) = unat Size"
    and s': "s' = s\<lparr>lsn_stack := (lsn_stack s)[unat (lsn_topIndex s) := x], lsn_topIndex := lsn_topIndex s + 1\<rparr>"
    by (auto simp: lsn_push_cases lsn_elems_def lsn_wf_def split: if_splits)
  from lt have "unat (lsn_topIndex s + 1) = Suc (unat (lsn_topIndex s))"
    using unat_less32[of Size] by (simp add: unat_add_small32)
  with lt len show ?thesis
    by (simp add: s' lsn_wf_def lsn_elems_def word_nat take_Suc_conv_app_nth)
qed

lemma lsn_pop_wf:
  assumes "lsn_wf Size s" "lsn_elems s = xs @ [x]"
  obtains s' where "LockStackN_TryPop mv s d = Inr (True, x, s')"
    "LockStackN_Pop b mv s = Inr (x, s')" "lsn_wf Size s'" "lsn_elems s' = xs"
proof -
  let ?t = "unat (lsn_topIndex s)"
  from assms have len: "length (lsn_stack s) = unat Size" "?t \<le> unat Size"
    by (auto simp: lsn_wf_def word_nat)
  with assms(2) have t: "?t = Suc (length xs)"
    by (metis length_append_singleton length_take lsn_elems_def min.absorb2)
  have d: "unat (lsn_topIndex s - 1) = length xs"
    using t by (simp add: unat_sub_le)
  have nz: "lsn_topIndex s \<noteq> 0" "0 < lsn_topIndex s"
    using t by (auto simp: word_gt_0)
  have top: "lsn_stack s ! length xs = x" "take (length xs) (lsn_stack s) = xs"
    using assms(2) t len by (auto simp: lsn_elems_def take_Suc_conv_app_nth)
  then show thesis
    using that nz d t len
    by (simp add: LockStackN_TryPop_def LockStackN_Pop_def Let_def lsn_wf_def lsn_elems_def word_nat)
qed

definition lsn_try_pop ::
  "('a \<Rightarrow> 'a) \<Rightarrow> 'a LockStackN \<Rightarrow> 'a \<Rightarrow> bool \<times> 'a \<times> 'a LockStackN" where
  "lsn_try_pop mv s d = (case LockStackN_TryPop mv s d of Inr r \<Rightarrow> r | Inl _ \<Rightarrow> (False, d, s))"

lemma lsn_TryPop_empty: "lsn_wf Size s \<Longrightarrow> lsn_elems s = [] \<Longrightarrow> LockStackN_TryPop mv s d = Inr (False, d, s)"
  by (auto simp: LockStackN_TryPop_def lsn_elems_def lsn_wf_def unsigned_eq_0_iff)

interpretation bounded_stack: lifo_pool "lsn_wf Size" lsn_elems "LockStackN_Push b Size" "lsn_try_pop mv"
  for Size b mv
proof unfold_locales
  fix s :: "'a LockStackN" and x d :: 'a and xs
  assume wf: "lsn_wf Size s"
  show "LockStackN_Push b Size s x = Inr s' \<Longrightarrow> lsn_wf Size s' \<and> lsn_elems s' = lsn_elems s @ [x]" for s'
    by (rule lsn_push_wf[OF wf])
  show "lsn_elems s = [] \<Longrightarrow> lsn_try_pop mv s d = (False, d, s)"
    using lsn_TryPop_empty[OF wf] by (simp add: lsn_try_pop_def)
  show "lsn_elems s = xs @ [x] \<Longrightarrow>
      \<exists>s'. lsn_try_pop mv s d = (True, x, s') \<and> lsn_wf Size s' \<and> lsn_elems s' = xs"
    using lsn_pop_wf[OF wf, of xs x mv d] by (metis lsn_try_pop_def sum.case(2))
qed

lemma lsn_new_wf: "length slots = unat Size \<Longrightarrow> lsn_wf Size (LockStackN_new slots) \<and> lsn_elems (LockStackN_new slots) = []"
  by (simp add: lsn_wf_def lsn_elems_def LockStackN_new_def)

lemma lsn_filled_wf:
  "lsn_wf Size (LockStackN_new_filled mk Size args) \<and>
   lsn_elems (LockStackN_new_filled mk Size args) = replicate (unat Size) (mk args)"
  by (simp add: lsn_wf_def lsn_elems_def LockStackN_new_filled_def)

section \<open>Properties\<close>

text \<open>
  (container \<^verbatim>\<open>LockStack<T>\<close>, invariant) The unbounded stack, the session pool of the
  engine, neither loses nor duplicates an element under any sequence of whole operations: the
  elements handed out and those still inside are together, with their multiplicities, those it
  started with and those pushed. A push followed by a pop returns that element and restores the
  stack, and \<^verbatim>\<open>Reserve\<close> changes no element.
\<close>
theorem lock_stack_conserves:
  "(\<exists>xs t u. pool_run (LockStack0_Push grow) LockStack0_TryPop d s ops = Inr (xs, t) \<and>
     mset xs + mset (ls0_stack t) = mset (ls0_stack s) + mset (pushed ops) \<and>
     LockStack0_TryPop (vector_push grow t x) d = (True, x, u) \<and> ls0_stack u = ls0_stack t) \<and>
   ls0_stack (LockStack0_Reserve s n) = ls0_stack s"
proof -
  obtain xs t where run: "pool_run (LockStack0_Push grow) LockStack0_TryPop d s ops = Inr (xs, t)"
    using LockStack0_run_total[of grow d s ops] by (auto simp: is_ok_iff)
  from lock_stack.run_conserves_elems[OF _ run] have
    "mset xs + mset (ls0_stack t) = mset (ls0_stack s) + mset (pushed ops)" by simp
  moreover obtain u where "LockStack0_TryPop (vector_push grow t x) d = (True, x, u)"
    "ls0_stack u = ls0_stack t"
    using lock_stack.push_then_pop[of grow t x "vector_push grow t x" d]
    by (auto simp: LockStack0_Push_def)
  ultimately show ?thesis
    using run by (auto simp: LockStack0_Reserve_def)
qed

text \<open>
  A bounded stack run from its construction keeps
  its elements and never holds more than \<^verbatim>\<open>Size\<close>. The next push succeeds exactly while there
  are fewer; on a full stack it aborts where assertions are compiled in and writes past the
  array where they are not.
\<close>
theorem lock_stack_bounded_capacity:
  assumes "length slots = unat Size"
    and "pool_run (LockStackN_Push b Size) (lsn_try_pop mv) d (LockStackN_new slots) ops = Inr (xs, t)"
  shows "mset xs + mset (lsn_elems t) = mset (pushed ops) \<and>
    length (lsn_elems t) \<le> unat Size \<and>
    (if length (lsn_elems t) < unat Size
     then \<exists>t'. LockStackN_Push b Size t x = Inr t' \<and> lsn_elems t' = lsn_elems t @ [x]
     else LockStackN_Push b Size t x =
       Inl (if b = Debug then AssertFailed overflow_message else OutOfBounds))"
proof -
  from lsn_new_wf[OF assms(1)] have "lsn_wf Size (LockStackN_new slots)"
    "lsn_elems (LockStackN_new slots) = []" by auto
  from bounded_stack.run_conserves_elems[OF this(1) assms(2)] this(2)
  have t: "lsn_wf Size t" "mset xs + mset (lsn_elems t) = mset (pushed ops)" by auto
  moreover from t(1) have "length (lsn_elems t) \<le> unat Size"
    by (simp add: lsn_wf_def lsn_elems_def)
  moreover have "\<exists>t'. LockStackN_Push b Size t x = Inr t' \<and> lsn_elems t' = lsn_elems t @ [x]"
    if "length (lsn_elems t) < unat Size"
  proof -
    from that lsn_push_cases[OF t(1), of b x] obtain t' where
      p: "LockStackN_Push b Size t x = Inr t'" by simp
    with lsn_push_wf[OF t(1) p] show ?thesis by simp
  qed
  ultimately show ?thesis
    using lsn_push_cases[OF t(1), of b x] by auto
qed

lemma lock_stack_bounded_capacity_witness:
  "\<exists>t. pool_run (LockStackN_Push NoDebug 2) (lsn_try_pop id) 0 (LockStackN_new [0, 0 :: nat])
       [Push_op 5, Push_op 6, TryPop_op, Push_op 7] = Inr ([6], t) \<and>
     LockStackN_Push NoDebug 2 t 8 = Inl OutOfBounds"
proof -
  let ?run = "pool_run (LockStackN_Push NoDebug 2) (lsn_try_pop id) 0 (LockStackN_new [0, 0 :: nat])
       [Push_op 5, Push_op 6, TryPop_op, Push_op 7]"
  have "?run = Inr ([6], \<lparr>lsn_topIndex = 2, lsn_stack = [5, 7]\<rparr>)"
    by (simp add: LockStackN_Push_def LockStackN_TryPop_def lsn_try_pop_def LockStackN_new_def Let_def)
  from lock_stack_bounded_capacity[OF _ this, of 8] this show ?thesis
    by (simp add: lsn_elems_def)
qed

end
