(* ===== verification/Lock_Threads.thy ===== *)
theory Lock_Threads
  imports Mutex_Model Lock_Queue Lock_Stack
begin

text \<open>
  The four locked containers under threads. An operation is split into its accesses to the
  members, in the order in which the source makes them, and \<open>locked_object\<close> is interpreted on
  each container with the operations of \<open>Lock_Queue\<close> and \<open>Lock_Stack\<close>. As there, \<open>mv\<close> is what a
  move leaves behind; a push of an rvalue and an emplacement make the same accesses as a push.
\<close>

section \<open>Operations and answers\<close>

datatype 'a cont_op = OpPush 'a | OpPop | OpTryPop 'a | OpGetSize | OpIsEmpty

datatype 'a answer = Done | Value 'a | Found bool 'a | Number UINT32 | Flag bool

text \<open>An operation of the container as a whole: its answer and the container after it.\<close>

definition with_answer :: "('v \<Rightarrow> 'a answer) \<Rightarrow> ('v \<times> 'c) res \<Rightarrow> ('c \<times> 'a answer) res" where
  "with_answer f r = bind_res r (\<lambda>(v, c). Inr (c, f v))"

abbreviation found_answer :: "bool \<times> 'a \<times> 'c \<Rightarrow> 'c \<times> 'a answer" where
  "found_answer r \<equiv> (case r of (found, x, c) \<Rightarrow> (c, Found found x))"

section \<open>The bounded queue\<close>

datatype 'a qn_pc =
    QnPush 'a | QnStore 'a | QnTail | QnPushCount
  | QnPop | QnTryPop 'a | QnMove bool | QnHead bool 'a | QnPopCount bool 'a
  | QnGetSize | QnIsEmpty

fun qn_entry :: "'a cont_op \<Rightarrow> 'a qn_pc" where
  "qn_entry (OpPush x) = QnPush x"
| "qn_entry OpPop = QnPop"
| "qn_entry (OpTryPop d) = QnTryPop d"
| "qn_entry OpGetSize = QnGetSize"
| "qn_entry OpIsEmpty = QnIsEmpty"

text \<open>The flag tells \<^verbatim>\<open>TryPop\<close> from \<^verbatim>\<open>Pop\<close>, which share their last three accesses.\<close>

fun qn_access :: "build \<Rightarrow> ('a \<Rightarrow> 'a) \<Rightarrow> UINT32 \<Rightarrow> ('a qn_pc, 'a LockQueueN, 'a answer) access" where
  "qn_access b mv Size (QnPush x) q =
     (if lqn_count q < Size then Inl (Crashed ''Queue overflow.'') else Inr (q, Inl (QnStore x)))"
| "qn_access b mv Size (QnStore x) q =
     (if length (lqn_queue q) \<le> unat (lqn_tailIndex q) then Inl OutOfBounds
      else Inr (q\<lparr>lqn_queue := (lqn_queue q)[unat (lqn_tailIndex q) := x]\<rparr>, Inl QnTail))"
| "qn_access b mv Size QnTail q =
     Inr (q\<lparr>lqn_tailIndex := (lqn_tailIndex q + 1) mod Size\<rparr>, Inl QnPushCount)"
| "qn_access b mv Size QnPushCount q = Inr (q\<lparr>lqn_count := lqn_count q + 1\<rparr>, Inr Done)"
| "qn_access b mv Size QnPop q =
     ASSERT b (0 < lqn_count q) ''Queue is empty'' (Inr (q, Inl (QnMove False)))"
| "qn_access b mv Size (QnTryPop d) q =
     (if 0 = lqn_count q then Inr (q, Inr (Found False d)) else Inr (q, Inl (QnMove True)))"
| "qn_access b mv Size (QnMove try) q =
     (let i = unat (lqn_headIndex q)
      in if length (lqn_queue q) \<le> i then Inl OutOfBounds
         else Inr (q\<lparr>lqn_queue := (lqn_queue q)[i := mv (lqn_queue q ! i)]\<rparr>,
                   Inl (QnHead try (lqn_queue q ! i))))"
| "qn_access b mv Size (QnHead try x) q =
     Inr (q\<lparr>lqn_headIndex := (lqn_headIndex q + 1) mod Size\<rparr>, Inl (QnPopCount try x))"
| "qn_access b mv Size (QnPopCount try x) q =
     Inr (q\<lparr>lqn_count := lqn_count q - 1\<rparr>, Inr (if try then Found True x else Value x))"
| "qn_access b mv Size QnGetSize q = Inr (q, Inr (Number (lqn_count q)))"
| "qn_access b mv Size QnIsEmpty q = Inr (q, Inr (Flag (0 = lqn_count q)))"

fun qn_atomic :: "build \<Rightarrow> ('a \<Rightarrow> 'a) \<Rightarrow> UINT32 \<Rightarrow> 'a cont_op \<Rightarrow> 'a LockQueueN \<Rightarrow>
    ('a LockQueueN \<times> 'a answer) res" where
  "qn_atomic b mv Size (OpPush x) q = bind_res (LockQueueN_Push Size q x) (\<lambda>q. Inr (q, Done))"
| "qn_atomic b mv Size OpPop q = with_answer Value (LockQueueN_Pop b mv Size q)"
| "qn_atomic b mv Size (OpTryPop d) q = map_sum id found_answer (LockQueueN_TryPop mv Size q d)"
| "qn_atomic b mv Size OpGetSize q = Inr (q, Number (LockQueueN_GetSize q))"
| "qn_atomic b mv Size OpIsEmpty q = Inr (q, Flag (LockQueueN_IsEmpty q))"

lemmas accesses = numeral_eq_Suc with_answer_def ASSERT_def Assert_def Crash_def Let_def

interpretation queue_threads: locked_object qn_entry "qn_access b mv Size" "qn_atomic b mv Size" 4
  for b :: build and mv :: "'a \<Rightarrow> 'a" and Size :: UINT32
proof
  fix op :: "'a cont_op" and q
  show "run_accesses (qn_access b mv Size) 4 (qn_entry op) q = Some (qn_atomic b mv Size op q)"
    by (cases op; cases b) (simp_all add: accesses LockQueueN_Push_def LockQueueN_Pop_def LockQueueN_TryPop_def
        LockQueueN_GetSize_def LockQueueN_IsEmpty_def)
qed

section \<open>The bounded stack\<close>

datatype 'a sn_pc =
    SnPush 'a | SnIncr 'a | SnStore 'a UINT32
  | SnPop | SnTryPop 'a | SnDecr bool | SnMove bool UINT32
  | SnGetSize | SnIsEmpty

fun sn_entry :: "'a cont_op \<Rightarrow> 'a sn_pc" where
  "sn_entry (OpPush x) = SnPush x"
| "sn_entry OpPop = SnPop"
| "sn_entry (OpTryPop d) = SnTryPop d"
| "sn_entry OpGetSize = SnGetSize"
| "sn_entry OpIsEmpty = SnIsEmpty"

fun sn_access :: "build \<Rightarrow> ('a \<Rightarrow> 'a) \<Rightarrow> UINT32 \<Rightarrow> ('a sn_pc, 'a LockStackN, 'a answer) access" where
  "sn_access b mv Size (SnPush x) s =
     ASSERT b (lsn_topIndex s < Size) overflow_message (Inr (s, Inl (SnIncr x)))"
| "sn_access b mv Size (SnIncr x) s =
     Inr (s\<lparr>lsn_topIndex := lsn_topIndex s + 1\<rparr>, Inl (SnStore x (lsn_topIndex s)))"
| "sn_access b mv Size (SnStore x i) s =
     (if length (lsn_stack s) \<le> unat i then Inl OutOfBounds
      else Inr (s\<lparr>lsn_stack := (lsn_stack s)[unat i := x]\<rparr>, Inr Done))"
| "sn_access b mv Size SnPop s =
     ASSERT b (0 < lsn_topIndex s) ''Stack is empty'' (Inr (s, Inl (SnDecr False)))"
| "sn_access b mv Size (SnTryPop d) s =
     (if 0 = lsn_topIndex s then Inr (s, Inr (Found False d)) else Inr (s, Inl (SnDecr True)))"
| "sn_access b mv Size (SnDecr try) s =
     Inr (s\<lparr>lsn_topIndex := lsn_topIndex s - 1\<rparr>, Inl (SnMove try (lsn_topIndex s - 1)))"
| "sn_access b mv Size (SnMove try i) s =
     (if length (lsn_stack s) \<le> unat i then Inl OutOfBounds
      else Inr (s\<lparr>lsn_stack := (lsn_stack s)[unat i := mv (lsn_stack s ! unat i)]\<rparr>,
                Inr (if try then Found True (lsn_stack s ! unat i) else Value (lsn_stack s ! unat i))))"
| "sn_access b mv Size SnGetSize s = Inr (s, Inr (Number (lsn_topIndex s)))"
| "sn_access b mv Size SnIsEmpty s = Inr (s, Inr (Flag (0 = lsn_topIndex s)))"

fun sn_atomic :: "build \<Rightarrow> ('a \<Rightarrow> 'a) \<Rightarrow> UINT32 \<Rightarrow> 'a cont_op \<Rightarrow> 'a LockStackN \<Rightarrow>
    ('a LockStackN \<times> 'a answer) res" where
  "sn_atomic b mv Size (OpPush x) s = bind_res (LockStackN_Push b Size s x) (\<lambda>s. Inr (s, Done))"
| "sn_atomic b mv Size OpPop s = with_answer Value (LockStackN_Pop b mv s)"
| "sn_atomic b mv Size (OpTryPop d) s = map_sum id found_answer (LockStackN_TryPop mv s d)"
| "sn_atomic b mv Size OpGetSize s = Inr (s, Number (LockStackN_GetSize s))"
| "sn_atomic b mv Size OpIsEmpty s = Inr (s, Flag (LockStackN_IsEmpty s))"

interpretation stack_threads: locked_object sn_entry "sn_access b mv Size" "sn_atomic b mv Size" 3
  for b :: build and mv :: "'a \<Rightarrow> 'a" and Size :: UINT32
proof
  fix op :: "'a cont_op" and s
  show "run_accesses (sn_access b mv Size) 3 (sn_entry op) s = Some (sn_atomic b mv Size op s)"
    by (cases op; cases b) (simp_all add: accesses LockStackN_Push_def LockStackN_Pop_def LockStackN_TryPop_def
        LockStackN_GetSize_def LockStackN_IsEmpty_def)
qed

section \<open>The unbounded queue\<close>

datatype 'a q0_pc =
    Q0Push 'a | Q0Pop | Q0TryPop 'a | Q0Front bool | Q0Drop bool 'a | Q0GetSize | Q0IsEmpty

fun q0_entry :: "'a cont_op \<Rightarrow> 'a q0_pc" where
  "q0_entry (OpPush x) = Q0Push x"
| "q0_entry OpPop = Q0Pop"
| "q0_entry (OpTryPop d) = Q0TryPop d"
| "q0_entry OpGetSize = Q0GetSize"
| "q0_entry OpIsEmpty = Q0IsEmpty"

text \<open>An access is one call of \<^verbatim>\<open>std::queue\<close>.\<close>

fun q0_access :: "build \<Rightarrow> ('a \<Rightarrow> 'a) \<Rightarrow> ('a q0_pc, 'a LockQueue0, 'a answer) access" where
  "q0_access b mv (Q0Push x) q = Inr (q\<lparr>lq0_queue := lq0_queue q @ [x]\<rparr>, Inr Done)"
| "q0_access b mv Q0Pop q =
     ASSERT b (lq0_queue q \<noteq> []) ''Queue is empty'' (Inr (q, Inl (Q0Front False)))"
| "q0_access b mv (Q0TryPop d) q =
     (if lq0_queue q = [] then Inr (q, Inr (Found False d)) else Inr (q, Inl (Q0Front True)))"
| "q0_access b mv (Q0Front try) q =
     (case lq0_queue q of
        [] \<Rightarrow> Inl OutOfBounds
      | x # xs \<Rightarrow> Inr (q\<lparr>lq0_queue := mv x # xs\<rparr>, Inl (Q0Drop try x)))"
| "q0_access b mv (Q0Drop try x) q =
     Inr (q\<lparr>lq0_queue := tl (lq0_queue q)\<rparr>, Inr (if try then Found True x else Value x))"
| "q0_access b mv Q0GetSize q = Inr (q, Inr (Number (word_of_nat (length (lq0_queue q)))))"
| "q0_access b mv Q0IsEmpty q = Inr (q, Inr (Flag (lq0_queue q = [])))"

fun q0_atomic :: "build \<Rightarrow> 'a cont_op \<Rightarrow> 'a LockQueue0 \<Rightarrow> ('a LockQueue0 \<times> 'a answer) res" where
  "q0_atomic b (OpPush x) q = bind_res (LockQueue0_Push q x) (\<lambda>q. Inr (q, Done))"
| "q0_atomic b OpPop q = with_answer Value (LockQueue0_Pop b q)"
| "q0_atomic b (OpTryPop d) q = Inr (found_answer (LockQueue0_TryPop q d))"
| "q0_atomic b OpGetSize q = Inr (q, Number (LockQueue0_GetSize q))"
| "q0_atomic b OpIsEmpty q = Inr (q, Flag (LockQueue0_IsEmpty q))"

interpretation queue0_threads: locked_object q0_entry "q0_access b mv" "q0_atomic b" 3
  for b :: build and mv :: "'a \<Rightarrow> 'a"
proof
  fix op :: "'a cont_op" and q
  show "run_accesses (q0_access b mv) 3 (q0_entry op) q = Some (q0_atomic b op q)"
    by (cases op; cases b; cases "lq0_queue q") (simp_all add: accesses LockQueue0_Push_def LockQueue0_Pop_def
        LockQueue0_TryPop_def LockQueue0_GetSize_def LockQueue0_IsEmpty_def)
qed

section \<open>The unbounded stack\<close>

datatype 'a s0_op = S0Reserve UINT32 | S0Op "'a cont_op"

datatype 'a s0_pc =
    S0DoReserve UINT32 | S0Push 'a | S0Pop | S0TryPop 'a | S0Back bool | S0Drop bool 'a | S0GetSize | S0IsEmpty

fun s0_entry :: "'a s0_op \<Rightarrow> 'a s0_pc" where
  "s0_entry (S0Reserve n) = S0DoReserve n"
| "s0_entry (S0Op (OpPush x)) = S0Push x"
| "s0_entry (S0Op OpPop) = S0Pop"
| "s0_entry (S0Op (OpTryPop d)) = S0TryPop d"
| "s0_entry (S0Op OpGetSize) = S0GetSize"
| "s0_entry (S0Op OpIsEmpty) = S0IsEmpty"

text \<open>An access is one call of \<^verbatim>\<open>std::vector\<close>.\<close>

fun s0_access :: "build \<Rightarrow> (nat \<Rightarrow> nat) \<Rightarrow> ('a \<Rightarrow> 'a) \<Rightarrow> ('a s0_pc, 'a LockStack0, 'a answer) access" where
  "s0_access b grow mv (S0DoReserve n) s =
     Inr (s\<lparr>ls0_capacity := max (ls0_capacity s) (unat n)\<rparr>, Inr Done)"
| "s0_access b grow mv (S0Push x) s = Inr (vector_push grow s x, Inr Done)"
| "s0_access b grow mv S0Pop s =
     ASSERT b (ls0_stack s \<noteq> []) ''Stack is empty'' (Inr (s, Inl (S0Back False)))"
| "s0_access b grow mv (S0TryPop d) s =
     (if ls0_stack s = [] then Inr (s, Inr (Found False d)) else Inr (s, Inl (S0Back True)))"
| "s0_access b grow mv (S0Back try) s =
     (if ls0_stack s = [] then Inl OutOfBounds
      else Inr (s\<lparr>ls0_stack := butlast (ls0_stack s) @ [mv (last (ls0_stack s))]\<rparr>,
                Inl (S0Drop try (last (ls0_stack s)))))"
| "s0_access b grow mv (S0Drop try x) s =
     Inr (s\<lparr>ls0_stack := butlast (ls0_stack s)\<rparr>, Inr (if try then Found True x else Value x))"
| "s0_access b grow mv S0GetSize s = Inr (s, Inr (Number (word_of_nat (length (ls0_stack s)))))"
| "s0_access b grow mv S0IsEmpty s = Inr (s, Inr (Flag (ls0_stack s = [])))"

fun s0_atomic :: "build \<Rightarrow> (nat \<Rightarrow> nat) \<Rightarrow> 'a s0_op \<Rightarrow> 'a LockStack0 \<Rightarrow> ('a LockStack0 \<times> 'a answer) res" where
  "s0_atomic b grow (S0Reserve n) s = Inr (LockStack0_Reserve s n, Done)"
| "s0_atomic b grow (S0Op (OpPush x)) s = bind_res (LockStack0_Push grow s x) (\<lambda>s. Inr (s, Done))"
| "s0_atomic b grow (S0Op OpPop) s = with_answer Value (LockStack0_Pop b s)"
| "s0_atomic b grow (S0Op (OpTryPop d)) s = Inr (found_answer (LockStack0_TryPop s d))"
| "s0_atomic b grow (S0Op OpGetSize) s = Inr (s, Number (LockStack0_GetSize s))"
| "s0_atomic b grow (S0Op OpIsEmpty) s = Inr (s, Flag (LockStack0_IsEmpty s))"

interpretation stack0_threads: locked_object s0_entry "s0_access b grow mv" "s0_atomic b grow" 3
  for b :: build and grow and mv :: "'a \<Rightarrow> 'a"
proof
  fix op :: "'a s0_op" and s
  have "run_accesses (s0_access b grow mv) 3 (s0_entry (S0Op c)) s = Some (s0_atomic b grow (S0Op c) s)" for c
    by (cases c; cases b) (simp_all add: accesses LockStack0_Push_def LockStack0_Pop_def
        LockStack0_TryPop_def LockStack0_GetSize_def LockStack0_IsEmpty_def)
  moreover have "run_accesses (s0_access b grow mv) 3 (s0_entry (S0Reserve n)) s = Some (s0_atomic b grow (S0Reserve n) s)" for n
    by (simp add: accesses LockStack0_Reserve_def)
  ultimately show "run_accesses (s0_access b grow mv) 3 (s0_entry op) s = Some (s0_atomic b grow op s)"
    by (cases op) auto
qed

section \<open>Properties\<close>



end
