(* ===== verification/Serial_Generator.thy ===== *)
theory Serial_Generator
  imports Prelude
begin

text \<open>
  \<^verbatim>\<open>DataStruct/SerialGenerator\<close>: serial numbers made of the second, the server, the thread and
  a counter that starts again every second. The clock, \<^verbatim>\<open>time(nullptr)\<close>, is an argument. The
  fields can be read back, so generators of different threads or servers never agree; one
  generator's serials increase strictly as long as it makes at most 65536 a second, and repeat
  beyond that.
\<close>

section \<open>The generator\<close>

record SerialGenerator =
  sg_lastTime :: UINT32
  sg_kServerID :: UINT8
  sg_kThreadID :: UINT8
  sg_baseId :: UINT16

definition SerialGenerator_new :: "UINT8 \<Rightarrow> UINT8 \<Rightarrow> SerialGenerator" where
  "SerialGenerator_new serverID threadID =
     \<lparr>sg_lastTime = 0, sg_kServerID = serverID, sg_kThreadID = threadID, sg_baseId = 0\<rparr>"

definition serial_number :: "UINT32 \<Rightarrow> UINT8 \<Rightarrow> UINT8 \<Rightarrow> UINT16 \<Rightarrow> UINT64" where
  "serial_number now serverID threadID baseId =
     push_bit 32 (ucast now) OR push_bit 24 (ucast serverID) OR
     push_bit 16 (ucast threadID) OR ucast baseId"

definition SerialGenerator_CreateSerial :: "SerialGenerator \<Rightarrow> int \<Rightarrow> UINT64 \<times> SerialGenerator" where
  "SerialGenerator_CreateSerial g time =
     (let now = word_of_int time;
          g1 = (if sg_lastTime g \<noteq> now then g\<lparr>sg_lastTime := now, sg_baseId := 0\<rparr> else g)
      in (serial_number now (sg_kServerID g1) (sg_kThreadID g1) (sg_baseId g1),
          g1\<lparr>sg_baseId := sg_baseId g1 + 1\<rparr>))"

fun serials :: "SerialGenerator \<Rightarrow> int list \<Rightarrow> UINT64 list" where
  "serials g [] = []"
| "serials g (t # ts) =
     (case SerialGenerator_CreateSerial g t of (s, g') \<Rightarrow> s # serials g' ts)"

section \<open>The fields of a serial number\<close>

lemma serial_time: "drop_bit 32 (serial_number n s t b) = ucast n"
  by (rule bit_word_eqI) (auto simp: serial_number_def bit_simps dest: bit_imp_le_length)

lemma serial_server: "take_bit 8 (drop_bit 24 (serial_number n s t b)) = ucast s"
  by (rule bit_word_eqI) (auto simp: serial_number_def bit_simps dest: bit_imp_le_length)

lemma serial_thread: "take_bit 8 (drop_bit 16 (serial_number n s t b)) = ucast t"
  by (rule bit_word_eqI) (auto simp: serial_number_def bit_simps dest: bit_imp_le_length)

lemma serial_base: "take_bit 16 (serial_number n s t b) = ucast b"
  by (rule bit_word_eqI) (auto simp: serial_number_def bit_simps dest: bit_imp_le_length)

lemma serial_unat:
  "unat (serial_number n s t b) =
     unat n * 4294967296 + unat s * 16777216 + unat t * 65536 + unat b"
proof -
  let ?y = "unat (serial_number n s t b)"
  have "drop_bit 32 ?y = unat n"
    using arg_cong[OF serial_time[of n s t b], of unat] by (simp add: unat_drop_bit_eq unat_ucast_up)
  moreover have "take_bit 8 (drop_bit 24 ?y) = unat s"
    using arg_cong[OF serial_server[of n s t b], of unat]
    by (simp add: unat_drop_bit_eq unsigned_take_bit_eq unat_ucast_up)
  moreover have "take_bit 8 (drop_bit 16 ?y) = unat t"
    using arg_cong[OF serial_thread[of n s t b], of unat]
    by (simp add: unat_drop_bit_eq unsigned_take_bit_eq unat_ucast_up)
  moreover have "take_bit 16 ?y = unat b"
    using arg_cong[OF serial_base[of n s t b], of unat]
    by (simp add: unsigned_take_bit_eq unat_ucast_up)
  ultimately have "?y div 4294967296 = unat n" "?y div 16777216 mod 256 = unat s"
    "?y div 65536 mod 256 = unat t" "?y mod 65536 = unat b"
    by (simp_all add: drop_bit_eq_div take_bit_eq_mod)
  moreover have "?y div 16777216 = ?y div 65536 div 256" "?y div 4294967296 = ?y div 16777216 div 256"
    by (simp_all add: div_mult2_eq [symmetric])
  ultimately show ?thesis
    using div_mult_mod_eq[of ?y 65536] div_mult_mod_eq[of "?y div 65536" 256]
      div_mult_mod_eq[of "?y div 16777216" 256] by linarith
qed

section \<open>One generator over time\<close>

text \<open>
  After \<open>c\<close> serials in the second \<open>l\<close>, the next ones are at least as large as the serial with
  counter \<open>c\<close>, provided no second of the rest is asked for more than 65536 in all.
\<close>

definition serial_floor :: "SerialGenerator \<Rightarrow> nat \<Rightarrow> nat \<Rightarrow> nat" where
  "serial_floor g l c =
     l * 4294967296 + unat (sg_kServerID g) * 16777216 + unat (sg_kThreadID g) * 65536 + c"

lemma unat_of_int32: "0 \<le> t \<Longrightarrow> t < 4294967296 \<Longrightarrow> unat (word_of_int t :: UINT32) = nat t"
  by (simp add: unat_eq_nat_uint uint_word_of_int)

lemma CreateSerial_eq:
  assumes "0 \<le> t" "t < 4294967296"
  shows "SerialGenerator_CreateSerial g t = (s, g') \<Longrightarrow>
    sg_lastTime g' = word_of_int t \<and> sg_kServerID g' = sg_kServerID g \<and>
    sg_kThreadID g' = sg_kThreadID g \<and>
    (if sg_lastTime g = word_of_int t
     then unat s = serial_floor g (nat t) (unat (sg_baseId g)) \<and> sg_baseId g' = sg_baseId g + 1
     else unat s = serial_floor g (nat t) 0 \<and> sg_baseId g' = 1)"
  using assms
  by (auto simp: SerialGenerator_CreateSerial_def Let_def serial_unat serial_floor_def unat_of_int32
      split: if_splits)

lemma serials_increase:
  assumes "unat (sg_lastTime g) = l" "sg_baseId g = word_of_nat c" "c \<le> 65536"
    and "sorted (map id ts)" "\<forall>t\<in>set ts. int l \<le> t \<and> t < 4294967296"
    and "\<forall>t. count_list ts t + (if t = int l then c else 0) \<le> 65536"
  shows "sorted_wrt (<) (map unat (serials g ts)) \<and>
    (\<forall>s\<in>set (serials g ts). serial_floor g l c \<le> unat s)"
  using assms
proof (induction ts arbitrary: g l c)
  case (Cons t ts)
  have t: "int l \<le> t" "0 \<le> t" "t < 4294967296"
    using Cons.prems(5) by auto
  obtain s g' where cs: "SerialGenerator_CreateSerial g t = (s, g')" by force
  note eq = CreateSerial_eq[OF t(2,3) cs]
  have last: "unat (sg_lastTime g') = nat t"
    using eq t by (simp add: unat_of_int32)
  have floor: "serial_floor g' = serial_floor g"
    using eq by (simp add: serial_floor_def fun_eq_iff)
  have same: "sg_lastTime g = word_of_int t \<longleftrightarrow> t = int l"
    using t(2,3) Cons.prems(1) by (auto simp: word_unat_eq_iff unat_of_int32)
  have sorted: "sorted (map id ts)" "\<forall>u\<in>set ts. t \<le> u \<and> u < 4294967296"
    using Cons.prems(4,5) by auto
  have st: "serials g (t # ts) = s # serials g' ts"
    using cs by simp
  show ?case
  proof (cases "t = int l")
    case True
    with Cons.prems(6) have c: "c < 65536" "\<forall>u. count_list ts u + (if u = int l then Suc c else 0) \<le> 65536"
      by (auto dest: spec[of _ t] split: if_splits)
    have "unat (sg_baseId g) = c"
      using Cons.prems(2) c by (simp add: unat_of_nat)
    with eq same True have s: "unat s = serial_floor g l c" "sg_baseId g' = word_of_nat (Suc c)"
      using Cons.prems(2) by (auto simp: add.commute)
    have "sorted_wrt (<) (map unat (serials g' ts)) \<and>
        (\<forall>s\<in>set (serials g' ts). serial_floor g' l (Suc c) \<le> unat s)"
      using Cons.IH[of g' l "Suc c"] last s c sorted True by auto
    with st s floor show ?thesis
      by (fastforce simp: serial_floor_def)
  next
    case False
    have "count_list ts u + (if u = t then 1 else 0) \<le> 65536" for u
      using Cons.prems(6)[rule_format, of u] by (simp split: if_splits)
    then have cnt: "\<forall>u. count_list ts u + (if u = int (nat t) then 1 else 0) \<le> 65536"
      using t(2) by simp
    from eq same False have s: "unat s = serial_floor g (nat t) 0" "sg_baseId g' = word_of_nat 1"
      by auto
    have "sorted_wrt (<) (map unat (serials g' ts)) \<and>
        (\<forall>s\<in>set (serials g' ts). serial_floor g' (nat t) 1 \<le> unat s)"
      using Cons.IH[of g' "nat t" 1] last s cnt sorted t by auto
    moreover have "serial_floor g l c \<le> serial_floor g (nat t) 0"
    proof -
      have "Suc l \<le> nat t" using False t by linarith
      then have "Suc l * 4294967296 \<le> nat t * 4294967296" by (rule mult_le_mono1)
      with Cons.prems(3) show ?thesis by (simp add: serial_floor_def)
    qed
    ultimately show ?thesis
      using st s floor by (fastforce simp: serial_floor_def)
  qed
qed simp

lemma CreateSerial_fields:
  "fst (SerialGenerator_CreateSerial g t) =
     serial_number (word_of_int t) (sg_kServerID g) (sg_kThreadID g)
       (if sg_lastTime g = word_of_int t then sg_baseId g else 0)"
  by (simp add: SerialGenerator_CreateSerial_def Let_def)

lemma CreateSerial_ids:
  "sg_kServerID (snd (SerialGenerator_CreateSerial g t)) = sg_kServerID g \<and>
   sg_kThreadID (snd (SerialGenerator_CreateSerial g t)) = sg_kThreadID g"
  by (simp add: SerialGenerator_CreateSerial_def Let_def)

lemma serials_carry_ids:
  "x \<in> set (serials g ts) \<Longrightarrow>
   take_bit 8 (drop_bit 24 x) = ucast (sg_kServerID g) \<and> take_bit 8 (drop_bit 16 x) = ucast (sg_kThreadID g)"
proof (induction ts arbitrary: g)
  case (Cons t ts)
  obtain s g' where cs: "SerialGenerator_CreateSerial g t = (s, g')" by force
  with CreateSerial_fields[of g t] CreateSerial_ids[of g t] Cons show ?case
    by (auto simp: serial_server serial_thread)
qed simp

lemma serials_same_second:
  assumes "sg_lastTime g = word_of_int t" "k < n"
  shows "serials g (replicate n t) ! k =
    serial_number (word_of_int t) (sg_kServerID g) (sg_kThreadID g) (sg_baseId g + word_of_nat k)"
  using assms
proof (induction k arbitrary: g n)
  case 0
  then show ?case
    by (cases n) (simp_all add: SerialGenerator_CreateSerial_def Let_def)
next
  case (Suc k)
  then obtain m where m: "n = Suc m" "k < m" by (cases n) auto
  let ?g = "snd (SerialGenerator_CreateSerial g t)"
  have g': "sg_lastTime ?g = word_of_int t" "sg_baseId ?g = sg_baseId g + 1"
    using Suc.prems(1) by (simp_all add: SerialGenerator_CreateSerial_def Let_def)
  have "serials g (replicate n t) ! Suc k = serials ?g (replicate m t) ! k"
    by (simp add: m split: prod.split)
  with Suc.IH[OF g'(1) m(2)] g'(2) CreateSerial_ids[of g t] show ?case
    by (simp add: algebra_simps)
qed

section \<open>Properties\<close>

text \<open>
  C31: (component \<^verbatim>\<open>SerialGenerator\<close>, safety) A generator whose clock does not run backwards (and
  stays below \<open>2 ^ 32\<close> seconds) and that is asked for at most 65536 serials in any one second
  produces strictly increasing serials; in particular it never repeats one.
\<close>
theorem serials_strictly_increase:
  assumes "sorted ts" "\<forall>t\<in>set ts. 0 \<le> t \<and> t < 2 ^ 32" "\<forall>t. count_list ts t \<le> 65536"
  shows "sorted_wrt (<) (map unat (serials (SerialGenerator_new server thread) ts)) \<and>
    distinct (serials (SerialGenerator_new server thread) ts)"
proof -
  have "sorted_wrt (<) (map unat (serials (SerialGenerator_new server thread) ts))"
    using serials_increase[of "SerialGenerator_new server thread" 0 0 ts] assms
    by (simp add: SerialGenerator_new_def)
  then show ?thesis
    by (metis distinct_map strict_sorted_iff)
qed

lemma serials_strictly_increase_witness:
  "distinct (serials (SerialGenerator_new 1 2) [1700000000, 1700000000, 1700000001])"
  by (rule conjunct2[OF serials_strictly_increase]) simp_all

text \<open>
  The second, the server, the thread and the
  counter can be read back from a serial, so two generators with different identities never
  produce the same serial, whatever their clocks do.
\<close>
theorem serial_identities_disjoint:
  "(let s = fst (SerialGenerator_CreateSerial g t)
    in drop_bit 32 s = ucast (word_of_int t :: UINT32) \<and>
       take_bit 8 (drop_bit 24 s) = ucast (sg_kServerID g) \<and>
       take_bit 8 (drop_bit 16 s) = ucast (sg_kThreadID g) \<and>
       take_bit 16 s = ucast (if sg_lastTime g = word_of_int t then sg_baseId g else 0)) \<and>
   ((sg_kServerID g, sg_kThreadID g) \<noteq> (sg_kServerID h, sg_kThreadID h) \<longrightarrow>
      set (serials g ts) \<inter> set (serials h us) = {})"
proof -
  have "(sg_kServerID g, sg_kThreadID g) = (sg_kServerID h, sg_kThreadID h)"
    if "x \<in> set (serials g ts)" "x \<in> set (serials h us)" for x
  proof -
    from serials_carry_ids[OF that(1)] serials_carry_ids[OF that(2)]
    have "ucast (sg_kServerID g) = (ucast (sg_kServerID h) :: UINT64)"
      "ucast (sg_kThreadID g) = (ucast (sg_kThreadID h) :: UINT64)" by simp_all
    from this[THEN arg_cong[of _ _ unat]] show ?thesis
      by (simp add: unat_ucast_up word_unat_eq_iff)
  qed
  then show ?thesis
    unfolding Let_def CreateSerial_fields
    by (auto simp: serial_time serial_server serial_thread serial_base)
qed

lemma serial_identities_disjoint_witness:
  "set (serials (SerialGenerator_new 1 2) [5, 5, 6]) \<inter> set (serials (SerialGenerator_new 1 3) [5, 6]) = {}"
  using serial_identities_disjoint[of "SerialGenerator_new 1 2" 0 "SerialGenerator_new 1 3" "[5, 5, 6]" "[5, 6]"]
  by (simp add: SerialGenerator_new_def)

text \<open>
  The bound of 65536 a second is sharp: within one
  second the serial with index \<open>k + 65536\<close> is the serial with index \<open>k\<close> again, because the
  16-bit counter wraps and nothing waits for the next second.
\<close>
theorem serials_repeat_after_65536:
  assumes "k + 65536 < n"
  shows "serials (SerialGenerator_new server thread) (replicate n t) ! (k + 65536) =
    serials (SerialGenerator_new server thread) (replicate n t) ! k"
proof -
  let ?g = "SerialGenerator_new server thread"
  let ?g1 = "?g\<lparr>sg_lastTime := word_of_int t\<rparr>"
  have start: "SerialGenerator_CreateSerial ?g t = SerialGenerator_CreateSerial ?g1 t"
    by (auto simp: SerialGenerator_CreateSerial_def SerialGenerator_new_def Let_def)
  then have "serials ?g (replicate n t) = serials ?g1 (replicate n t)"
    using assms by (cases n) simp_all
  moreover have wrap: "(word_of_nat (k + 65536) :: UINT16) = word_of_nat k"
    by (simp only: word_unat_eq_iff unat_of_nat) simp
  moreover have "serials ?g1 (replicate n t) ! (k + 65536) = serials ?g1 (replicate n t) ! k"
    using serials_same_second[of ?g1 t "k + 65536" n] serials_same_second[of ?g1 t k n] assms
    unfolding wrap by simp
  ultimately show ?thesis by simp
qed

lemma serials_repeat_after_65536_witness:
  "serials (SerialGenerator_new 1 2) (replicate 65537 1700000000) ! 65536 =
     serials (SerialGenerator_new 1 2) (replicate 65537 1700000000) ! 0"
  using serials_repeat_after_65536[of 0 65537 1 2 1700000000] by simp

end
