(* ===== verification/Unlocked_Objects.thy ===== *)
theory Unlocked_Objects
  imports Mutex_Model Ring_Buffer Serial_Generator
begin

text \<open>
  The ring buffer and the serial generator in the hands of several threads. Neither has a mutex
  of its own. Their functions are taken apart into statements, run without interruption proved
  to be the functions of \<open>Ring_Buffer\<close> and \<open>Serial_Generator\<close>; so with a mutex around each
  call they are linearizable, as \<open>Mutex_Model\<close> shows of every such object. Without one the
  statements of different threads interleave, and the results can be such that no order of the
  calls gives them. The schedules that show it need no more than whole statements as steps; the
  finer steps of a machine only add to them.
\<close>

section \<open>Threads without a mutex\<close>

text \<open>As \<open>lk_do\<close>, except that a waiting thread enters whether or not another is inside.\<close>

fun free_do :: "('op \<Rightarrow> 'pc) \<Rightarrow> ('pc, 'c, 'v) access \<Rightarrow> ('c, 'op, 'pc, 'v) LockSys \<Rightarrow> 'op lk_event \<Rightarrow>
    ('c, 'op, 'pc, 'v) LockSys option" where
  "free_do entry access s (LkAcquire t) =
     (case lk_threads s t of
        Waiting op n \<Rightarrow>
          (if lk_failed s = None then Some (s\<lparr>lk_threads := (lk_threads s)(t := Inside op n (entry op))\<rparr>) else None)
      | _ \<Rightarrow> None)"
| "free_do entry access s ev = lk_do entry access s ev"

fun free_run :: "('op \<Rightarrow> 'pc) \<Rightarrow> ('pc, 'c, 'v) access \<Rightarrow> ('c, 'op, 'pc, 'v) LockSys \<Rightarrow> 'op lk_event list \<Rightarrow>
    ('c, 'op, 'pc, 'v) LockSys option" where
  "free_run entry access s [] = Some s"
| "free_run entry access s (ev # evs) =
     (case free_do entry access s ev of None \<Rightarrow> None | Some t \<Rightarrow> free_run entry access t evs)"

text \<open>
  Some run returns from all its calls, with results and an object that no order of the same
  calls has if they are run one after the other.
\<close>

definition unserializable ::
    "('op \<Rightarrow> 'pc) \<Rightarrow> ('pc, 'c, 'v) access \<Rightarrow> ('op \<Rightarrow> 'c \<Rightarrow> ('c \<times> 'v) res) \<Rightarrow> 'c \<Rightarrow> bool" where
  "unserializable entry access atomic c0 \<longleftrightarrow>
     (\<exists>s0 evs s. lk_init c0 s0 \<and> free_run entry access s0 evs = Some s \<and> lk_failed s = None \<and>
       lk_threads s = (\<lambda>_. Outside) \<and>
       (\<forall>h. mset h = mset (lk_history s) \<longrightarrow> replay atomic c0 h \<noteq> Some (lk_object s)))"

text \<open>The orders of a list.\<close>

fun insertions :: "'a \<Rightarrow> 'a list \<Rightarrow> 'a list list" where
  "insertions x [] = [[x]]"
| "insertions x (y # ys) = (x # y # ys) # map ((#) y) (insertions x ys)"

fun orders :: "'a list \<Rightarrow> 'a list list" where
  "orders [] = [[]]"
| "orders (x # xs) = concat (map (insertions x) (orders xs))"

lemma in_insertions: "us @ x # vs \<in> set (insertions x (us @ vs))"
  by (induction us) (cases vs; simp)+

lemma in_orders: "mset h = mset xs \<Longrightarrow> h \<in> set (orders xs)"
proof (induction xs arbitrary: h)
  case (Cons x xs)
  then have "x \<in> set h" by (metis list.set_intros(1) mset_eq_setD)
  then obtain us vs where h: "h = us @ x # vs" by (metis split_list)
  with Cons have "us @ vs \<in> set (orders xs)" by simp
  with h in_insertions[of us x vs] show ?case by auto
qed simp

section \<open>The serial generator\<close>

text \<open>\<^verbatim>\<open>m_baseId++\<close> loads the counter and stores its successor; the argument is what the clock returns.\<close>

datatype sg_pc = SgCompare int | SgStoreTime int | SgReset int | SgLoad int | SgIncrement int UINT16

fun sg_access :: "(sg_pc, SerialGenerator, UINT64) access" where
  "sg_access (SgCompare time) g =
     Inr (g, Inl (if sg_lastTime g \<noteq> word_of_int time then SgStoreTime time else SgLoad time))"
| "sg_access (SgStoreTime time) g = Inr (g\<lparr>sg_lastTime := word_of_int time\<rparr>, Inl (SgReset time))"
| "sg_access (SgReset time) g = Inr (g\<lparr>sg_baseId := 0\<rparr>, Inl (SgLoad time))"
| "sg_access (SgLoad time) g = Inr (g, Inl (SgIncrement time (sg_baseId g)))"
| "sg_access (SgIncrement time baseId) g =
     Inr (g\<lparr>sg_baseId := baseId + 1\<rparr>,
          Inr (serial_number (word_of_int time) (sg_kServerID g) (sg_kThreadID g) baseId))"

definition sg_atomic :: "int \<Rightarrow> SerialGenerator \<Rightarrow> (SerialGenerator \<times> UINT64) res" where
  "sg_atomic time g = (case SerialGenerator_CreateSerial g time of (serial, g') \<Rightarrow> Inr (g', serial))"

interpretation serial_threads: locked_object SgCompare sg_access sg_atomic 5
proof
  fix time g
  show "run_accesses sg_access 5 (SgCompare time) g = Some (sg_atomic time g)"
    by (simp add: numeral_eq_Suc sg_atomic_def SerialGenerator_CreateSerial_def Let_def)
qed

section \<open>The ring buffer\<close>

text \<open>
  Where a thread stands in the four functions the writing and the reading thread call. The handle
  is the thread's own; the bytes go through it and are not touched here.
\<close>

datatype rt_op =
    RtCreateWriter UINT32 | RtCommitWrite RingBufferWriter UINT32
  | RtCreateAllReader | RtCommitRead RingBufferReader UINT32

datatype rt_answer = WriterHandle RingBufferWriter | ReaderHandle RingBufferReader

datatype wr_stmt =
    WrAssert | WrFull | WrBranch | WrTail | WrSkip | WrSkipTail | WrSkipCursor | WrSkipActive | WrRemain | WrActive | WrReturn

datatype cw_stmt = CwAssert | CwCursor | CwFull | CwInactive

datatype ar_stmt =
    ArAssert | ArTail | ArReadCursor | ArTailCursor | ArEmpty | ArBranch | ArAhead | ArBehind | ArActive | ArReturn

datatype cr_stmt =
    CrAssert | CrCursor | CrOverflow | CrTail | CrReadCursor | CrTailCursor | CrFull | CrInactive | CrDrained
  | CrClear | CrClearWrite | CrClearRead | CrClearTail | CrClearFull

text \<open>The statement and the local variables; \<open>contiguousSize\<close> is 0 until it is assigned.\<close>

datatype rt_pc =
    Wr wr_stmt UINT32 | Cw cw_stmt RingBufferWriter UINT32
  | Ar ar_stmt UINT32 | Cr cr_stmt RingBufferReader UINT32

fun rt_entry :: "rt_op \<Rightarrow> rt_pc" where
  "rt_entry (RtCreateWriter n) = Wr WrAssert n"
| "rt_entry (RtCommitWrite h n) = Cw CwAssert h n"
| "rt_entry RtCreateAllReader = Ar ArAssert 0"
| "rt_entry (RtCommitRead h n) = Cr CrAssert h n"

text \<open>A statement: the thread goes on, or returns a handle.\<close>

abbreviation goes :: "RingBuffer \<Rightarrow> rt_pc \<Rightarrow> (RingBuffer \<times> (rt_pc + rt_answer)) res" where
  "goes rb pc \<equiv> Inr (rb, Inl pc)"

abbreviation returns_writer :: "RingBuffer \<Rightarrow> RingBufferWriter \<Rightarrow> (RingBuffer \<times> (rt_pc + rt_answer)) res" where
  "returns_writer rb h \<equiv> Inr (rb, Inr (WriterHandle h))"

abbreviation returns_reader :: "RingBuffer \<Rightarrow> RingBufferReader \<Rightarrow> (RingBuffer \<times> (rt_pc + rt_answer)) res" where
  "returns_reader rb h \<equiv> Inr (rb, Inr (ReaderHandle h))"

definition requested :: "UINT32 \<Rightarrow> UINT32 \<Rightarrow> UINT32" where
  "requested reserved n = (if 0 = n then reserved else n)"

text \<open>\<^verbatim>\<open>CreateWriter\<close>.\<close>

fun wr_access :: "build \<Rightarrow> wr_stmt \<Rightarrow> UINT32 \<Rightarrow> RingBuffer \<Rightarrow> (RingBuffer \<times> (rt_pc + rt_answer)) res" where
  "wr_access b WrAssert n rb =
     ASSERT b (0 < n) ''Write size is 0'' (
     ASSERT b (\<not> m_isActiveWriter rb) ''Writer is already active'' (goes rb (Wr WrFull n)))"
| "wr_access b WrFull n rb =
     (if m_isFull rb then returns_writer rb RingBufferWriter_null else goes rb (Wr WrBranch n))"
| "wr_access b WrBranch n rb = goes rb (if m_readCursor rb \<le> m_writeCursor rb then Wr WrTail n else Wr WrRemain n)"
| "wr_access b WrTail n rb = goes rb (if n \<le> kCapacity - m_writeCursor rb then Wr WrActive n else Wr WrSkip n)"
| "wr_access b WrSkip n rb =
     (if n \<le> m_readCursor rb then goes rb (Wr WrSkipTail n) else returns_writer rb RingBufferWriter_null)"
| "wr_access b WrSkipTail n rb = goes (rb\<lparr>m_tailCursor := m_writeCursor rb\<rparr>) (Wr WrSkipCursor n)"
| "wr_access b WrSkipCursor n rb = goes (rb\<lparr>m_writeCursor := 0\<rparr>) (Wr WrSkipActive n)"
| "wr_access b WrSkipActive n rb =
     bind_res (RingBufferWriter_make b (Some (m_this rb)) (Some 0) n)
       (\<lambda>h. returns_writer (rb\<lparr>m_isActiveWriter := True\<rparr>) h)"
| "wr_access b WrRemain n rb =
     (if n \<le> m_readCursor rb - m_writeCursor rb then goes rb (Wr WrActive n)
      else returns_writer rb RingBufferWriter_null)"
| "wr_access b WrActive n rb = goes (rb\<lparr>m_isActiveWriter := True\<rparr>) (Wr WrReturn n)"
| "wr_access b WrReturn n rb =
     bind_res (RingBufferWriter_make b (Some (m_this rb)) (Some (m_writeCursor rb)) n) (returns_writer rb)"

text \<open>\<^verbatim>\<open>CommitWrite\<close>.\<close>

fun cw_access :: "build \<Rightarrow> cw_stmt \<Rightarrow> RingBufferWriter \<Rightarrow> UINT32 \<Rightarrow> RingBuffer \<Rightarrow> (RingBuffer \<times> (rt_pc + rt_answer)) res" where
  "cw_access b CwAssert h n rb =
     ASSERT b (RingBufferWriter_IsValid h) ''Writer is invalid'' (
     ASSERT b (m_isActiveWriter rb) ''No active writer'' (
     let n = requested (RingBufferWriter_GetSize h) n
     in ASSERT b (n \<le> RingBufferWriter_GetSize h) ''Write size exceeds reserved size'' (
        ASSERT b (m_writeCursor rb + n \<le> kCapacity) ''Write cursor overflow'' (goes rb (Cw CwCursor h n)))))"
| "cw_access b CwCursor h n rb =
     goes (rb\<lparr>m_writeCursor := (m_writeCursor rb + n) mod kCapacity\<rparr>) (Cw CwFull h n)"
| "cw_access b CwFull h n rb =
     goes (rb\<lparr>m_isFull := (m_writeCursor rb = m_readCursor rb)\<rparr>) (Cw CwInactive h n)"
| "cw_access b CwInactive h n rb =
     returns_writer (rb\<lparr>m_isActiveWriter := False\<rparr>) (RingBufferWriter_Clear h)"

text \<open>\<^verbatim>\<open>CreateAllReader\<close>.\<close>

fun ar_access :: "build \<Rightarrow> ar_stmt \<Rightarrow> UINT32 \<Rightarrow> RingBuffer \<Rightarrow> (RingBuffer \<times> (rt_pc + rt_answer)) res" where
  "ar_access b ArAssert n rb =
     ASSERT b (\<not> m_isActiveReader rb) ''Reader is already active'' (goes rb (Ar ArTail n))"
| "ar_access b ArTail n rb = goes rb (Ar (if m_readCursor rb = m_tailCursor rb then ArReadCursor else ArEmpty) n)"
| "ar_access b ArReadCursor n rb = goes (rb\<lparr>m_readCursor := 0\<rparr>) (Ar ArTailCursor n)"
| "ar_access b ArTailCursor n rb = goes (rb\<lparr>m_tailCursor := kCapacity\<rparr>) (Ar ArEmpty n)"
| "ar_access b ArEmpty n rb =
     (if RingBuffer_IsEmpty rb then returns_reader rb RingBufferReader_null else goes rb (Ar ArBranch n))"
| "ar_access b ArBranch n rb = goes rb (Ar (if m_readCursor rb < m_writeCursor rb then ArAhead else ArBehind) n)"
| "ar_access b ArAhead n rb =
     (if m_writeCursor rb - m_readCursor rb = 0 then returns_reader rb RingBufferReader_null
      else goes rb (Ar ArActive (m_writeCursor rb - m_readCursor rb)))"
| "ar_access b ArBehind n rb =
     (if m_tailCursor rb - m_readCursor rb = 0 then returns_reader rb RingBufferReader_null
      else goes rb (Ar ArActive (m_tailCursor rb - m_readCursor rb)))"
| "ar_access b ArActive n rb = goes (rb\<lparr>m_isActiveReader := True\<rparr>) (Ar ArReturn n)"
| "ar_access b ArReturn n rb =
     bind_res (RingBufferReader_make b (Some (m_this rb)) (Some (m_readCursor rb)) n) (returns_reader rb)"

text \<open>\<^verbatim>\<open>CommitRead\<close>, and the \<^verbatim>\<open>Clear\<close> it ends with on a drained buffer.\<close>

fun cr_access :: "build \<Rightarrow> cr_stmt \<Rightarrow> RingBufferReader \<Rightarrow> UINT32 \<Rightarrow> RingBuffer \<Rightarrow> (RingBuffer \<times> (rt_pc + rt_answer)) res" where
  "cr_access b CrAssert h n rb =
     ASSERT b (RingBufferReader_IsValid h) ''Reader is invalid'' (
     ASSERT b (m_isActiveReader rb) ''No active reader'' (
     let n = requested (RingBufferReader_GetSize h) n
     in ASSERT b (n \<le> RingBufferReader_GetSize h) ''Read size exceeds reserved size'' (goes rb (Cr CrCursor h n))))"
| "cr_access b CrCursor h n rb = goes (rb\<lparr>m_readCursor := m_readCursor rb + n\<rparr>) (Cr CrOverflow h n)"
| "cr_access b CrOverflow h n rb =
     ASSERT b (m_readCursor rb \<le> m_tailCursor rb) ''Read cursor overflow'' (goes rb (Cr CrTail h n))"
| "cr_access b CrTail h n rb = goes rb (if m_readCursor rb = m_tailCursor rb then Cr CrReadCursor h n else Cr CrFull h n)"
| "cr_access b CrReadCursor h n rb = goes (rb\<lparr>m_readCursor := 0\<rparr>) (Cr CrTailCursor h n)"
| "cr_access b CrTailCursor h n rb = goes (rb\<lparr>m_tailCursor := kCapacity\<rparr>) (Cr CrFull h n)"
| "cr_access b CrFull h n rb = goes (rb\<lparr>m_isFull := False\<rparr>) (Cr CrInactive h n)"
| "cr_access b CrInactive h n rb = goes (rb\<lparr>m_isActiveReader := False\<rparr>) (Cr CrDrained h n)"
| "cr_access b CrDrained h n rb =
     (if \<not> m_isActiveWriter rb \<and> m_readCursor rb = m_writeCursor rb then goes rb (Cr CrClear h n)
      else returns_reader rb (RingBufferReader_Clear h))"
| "cr_access b CrClear h n rb =
     ASSERT b (\<not> m_isActiveWriter rb) ''Writer is still active'' (
     ASSERT b (\<not> m_isActiveReader rb) ''Reader is still active'' (goes rb (Cr CrClearWrite h n)))"
| "cr_access b CrClearWrite h n rb = goes (rb\<lparr>m_writeCursor := 0\<rparr>) (Cr CrClearRead h n)"
| "cr_access b CrClearRead h n rb = goes (rb\<lparr>m_readCursor := 0\<rparr>) (Cr CrClearTail h n)"
| "cr_access b CrClearTail h n rb = goes (rb\<lparr>m_tailCursor := kCapacity\<rparr>) (Cr CrClearFull h n)"
| "cr_access b CrClearFull h n rb = returns_reader (rb\<lparr>m_isFull := False\<rparr>) (RingBufferReader_Clear h)"

fun rt_access :: "build \<Rightarrow> (rt_pc, RingBuffer, rt_answer) access" where
  "rt_access b (Wr st n) rb = wr_access b st n rb"
| "rt_access b (Cw st h n) rb = cw_access b st h n rb"
| "rt_access b (Ar st n) rb = ar_access b st n rb"
| "rt_access b (Cr st h n) rb = cr_access b st h n rb"

fun rt_atomic :: "build \<Rightarrow> rt_op \<Rightarrow> RingBuffer \<Rightarrow> (RingBuffer \<times> rt_answer) res" where
  "rt_atomic b (RtCreateWriter n) rb =
     bind_res (RingBuffer_CreateWriter b rb n) (\<lambda>(h, rb). Inr (rb, WriterHandle h))"
| "rt_atomic b (RtCommitWrite h n) rb =
     bind_res (RingBuffer_CommitWrite b rb h n) (\<lambda>(h, rb). Inr (rb, WriterHandle h))"
| "rt_atomic b RtCreateAllReader rb =
     bind_res (RingBuffer_CreateAllReader b rb) (\<lambda>(h, rb). Inr (rb, ReaderHandle h))"
| "rt_atomic b (RtCommitRead h n) rb =
     bind_res (RingBuffer_CommitRead b rb h n) (\<lambda>(h, rb). Inr (rb, ReaderHandle h))"

lemmas rt_defs = numeral_eq_Suc Let_def requested_def ASSERT_def Assert_def

lemma bind_returns [simp]: "bind_res (bind_res m (\<lambda>x. Inr (x, y))) (\<lambda>(h, r). Inr (r, f h)) = bind_res m (\<lambda>h. Inr (y, f h))"
  by (cases m) auto

lemma case_returns [simp]:
  "(case bind_res m (\<lambda>h. Inr (rb, Inr (f h))) of
      Inl e \<Rightarrow> Some (Inl e)
    | Inr (c', Inl pc') \<Rightarrow> g c' pc'
    | Inr (c', Inr v) \<Rightarrow> Some (Inr (c', v))) = Some (bind_res m (\<lambda>h. Inr (rb, f h)))"
  by (cases m) auto

lemma rt_create_writer:
  "run_accesses (rt_access b) 16 (Wr WrAssert n) rb = Some (rt_atomic b (RtCreateWriter n) rb)"
  by (cases b) (simp_all add: rt_defs RingBuffer_CreateWriter_def)

lemma rt_commit_write:
  "run_accesses (rt_access b) 16 (Cw CwAssert h n) rb = Some (rt_atomic b (RtCommitWrite h n) rb)"
  by (cases b) (simp_all add: rt_defs RingBuffer_CommitWrite_def)

lemma rt_create_all_reader:
  "run_accesses (rt_access b) 16 (Ar ArAssert n) rb = Some (rt_atomic b RtCreateAllReader rb)"
  by (cases b) (auto simp: rt_defs RingBuffer_CreateAllReader_def)

lemma rt_commit_read:
  "run_accesses (rt_access b) 16 (Cr CrAssert h n) rb = Some (rt_atomic b (RtCommitRead h n) rb)"
  by (cases b) (simp_all add: rt_defs RingBuffer_CommitRead_def RingBuffer_Clear_def)

interpretation ring_threads: locked_object rt_entry "rt_access b" "rt_atomic b" 16 for b
proof
  fix op rb
  show "run_accesses (rt_access b) 16 (rt_entry op) rb = Some (rt_atomic b op rb)"
    by (cases op) (simp_all only: rt_entry.simps rt_create_writer rt_commit_write rt_create_all_reader rt_commit_read)
qed

section \<open>Schedules that lose\<close>

lemma unserializableI:
  assumes "free_run entry access \<lparr>lk_object = c0, lk_holder = None, lk_threads = \<lambda>_. Outside, lk_history = [],
      lk_failed = None\<rparr> evs = Some s"
    and "lk_failed s = None" "lk_threads s = (\<lambda>_. Outside)"
    and "\<forall>h\<in>set (orders (lk_history s)). replay atomic c0 h \<noteq> Some (lk_object s)"
  shows "unserializable entry access atomic c0"
  unfolding unserializable_def lk_init_def using assms in_orders by blast

text \<open>The calls of two threads, each of which runs its next accesses.\<close>

definition accesses_of :: "nat \<Rightarrow> nat \<Rightarrow> 'op lk_event list" where
  "accesses_of t n = replicate n (LkAccess t)"

definition enters :: "nat \<Rightarrow> 'op \<Rightarrow> 'op lk_event list" where
  "enters t op = [LkCall t op, LkAcquire t]"

definition serial_schedule :: "int \<Rightarrow> int lk_event list" where
  "serial_schedule time =
     enters 0 time @ enters 1 time @ accesses_of 0 2 @ accesses_of 1 2 @ accesses_of 0 1 @ accesses_of 1 1 @
     [LkReturn 0, LkReturn 1]"

text \<open>
  The reader has read the one byte there is and decided that the buffer is drained. The writer
  reserves a byte and commits it; then the reader resets the cursors.
\<close>

definition ring_schedule :: "addr \<Rightarrow> rt_op lk_event list" where
  "ring_schedule this =
     enters 0 RtCreateAllReader @ accesses_of 0 7 @ [LkReturn 0] @
     enters 0 (RtCommitRead \<lparr>rd_owner = Some this, rd_ptr = Some 0, rd_size = 1\<rparr> 0) @ accesses_of 0 8 @
     enters 1 (RtCreateWriter 1) @ accesses_of 1 6 @ [LkReturn 1] @
     enters 1 (RtCommitWrite \<lparr>wr_owner = Some this, wr_ptr = Some 1, wr_size = 1\<rparr> 0) @ accesses_of 1 4 @ [LkReturn 1] @
     accesses_of 0 4 @ [LkReturn 0]"

definition one_byte :: "addr \<Rightarrow> BYTE list \<Rightarrow> RingBuffer" where
  "one_byte this memory = (RingBuffer_new this memory)\<lparr>m_writeCursor := 1\<rparr>"

lemma accesses_of_simps:
  "accesses_of t 0 = []" "accesses_of t (Suc n) = LkAccess t # accesses_of t n"
  "accesses_of t (numeral k) = LkAccess t # accesses_of t (pred_numeral k)"
  by (simp_all add: accesses_of_def numeral_eq_Suc)

lemmas free_eval = enters_def accesses_of_simps

lemmas ring_eval = one_byte_def RingBuffer_new_def kCapacity_def RingBuffer_IsEmpty_def requested_def
  RingBufferReader_make_def RingBufferReader_IsValid_def RingBufferReader_GetSize_def RingBufferReader_Clear_def
  RingBufferWriter_make_def RingBufferWriter_IsValid_def RingBufferWriter_GetSize_def RingBufferWriter_Clear_def
  RingBufferReader_null_def RingBufferWriter_null_def

lemma serial_run:
  "\<exists>s. free_run SgCompare sg_access \<lparr>lk_object = g\<lparr>sg_lastTime := word_of_int time\<rparr>, lk_holder = None,
      lk_threads = \<lambda>_. Outside, lk_history = [], lk_failed = None\<rparr> (serial_schedule time) = Some s \<and>
    lk_failed s = None \<and> lk_threads s = (\<lambda>_. Outside) \<and>
    lk_history s = (let x = serial_number (word_of_int time) (sg_kServerID g) (sg_kThreadID g) (sg_baseId g)
      in [(time, x), (time, x)]) \<and>
    lk_object s = g\<lparr>sg_lastTime := word_of_int time, sg_baseId := sg_baseId g + 1\<rparr>"
  by (simp add: serial_schedule_def free_eval Let_def fun_eq_iff)

lemma ring_run:
  "\<exists>s. free_run rt_entry (rt_access b) \<lparr>lk_object = one_byte this memory, lk_holder = None,
      lk_threads = \<lambda>_. Outside, lk_history = [], lk_failed = None\<rparr> (ring_schedule this) = Some s \<and>
    lk_failed s = None \<and> lk_threads s = (\<lambda>_. Outside) \<and>
    lk_history s =
      [(RtCreateAllReader, ReaderHandle \<lparr>rd_owner = Some this, rd_ptr = Some 0, rd_size = 1\<rparr>),
       (RtCreateWriter 1, WriterHandle \<lparr>wr_owner = Some this, wr_ptr = Some 1, wr_size = 1\<rparr>),
       (RtCommitWrite \<lparr>wr_owner = Some this, wr_ptr = Some 1, wr_size = 1\<rparr> 0, WriterHandle RingBufferWriter_null),
       (RtCommitRead \<lparr>rd_owner = Some this, rd_ptr = Some 0, rd_size = 1\<rparr> 0, ReaderHandle RingBufferReader_null)] \<and>
    lk_object s = RingBuffer_new this memory"
  by (simp add: ring_schedule_def free_eval ring_eval Let_def fun_eq_iff)

lemma serial_number_next: "serial_number n s t b \<noteq> serial_number n s t (b + 1)"
proof
  assume "serial_number n s t b = serial_number n s t (b + 1)"
  then have "(ucast b :: UINT64) = ucast (b + 1)" by (metis serial_base)
  then have "unat b = unat (b + 1)"
    using unat_ucast_up[of b, where 'b = 64] unat_ucast_up[of "b + 1", where 'b = 64] by simp
  then have "b = b + 1" by (simp only: word_unat_eq_iff)
  then show False by simp
qed

text \<open>Of the four calls, whatever their order, either one fails or answers otherwise, or a byte is left.\<close>

lemma ring_orders:
  "\<forall>h\<in>set (orders
      [(RtCreateAllReader, ReaderHandle \<lparr>rd_owner = Some this, rd_ptr = Some 0, rd_size = 1\<rparr>),
       (RtCreateWriter 1, WriterHandle \<lparr>wr_owner = Some this, wr_ptr = Some 1, wr_size = 1\<rparr>),
       (RtCommitWrite \<lparr>wr_owner = Some this, wr_ptr = Some 1, wr_size = 1\<rparr> 0, WriterHandle RingBufferWriter_null),
       (RtCommitRead \<lparr>rd_owner = Some this, rd_ptr = Some 0, rd_size = 1\<rparr> 0, ReaderHandle RingBufferReader_null)]).
     replay (rt_atomic b) (one_byte this memory) h \<noteq> Some (RingBuffer_new this memory)"
  by (cases b) (simp_all add: ring_eval Let_def RingBuffer_CreateAllReader_def RingBuffer_CreateWriter_def
      RingBuffer_CommitWrite_def RingBuffer_CommitRead_def RingBuffer_Clear_def ASSERT_def Assert_def)

section \<open>Properties\<close>

text \<open>
  A generator is for one thread, or for a
  mutex. With a mutex around \<^verbatim>\<open>CreateSerial\<close> any number of threads get what they would get one
  after the other. Without one two threads that ask in the same second can get the same serial,
  which no order of the two calls gives, and the counter has advanced by one.
\<close>
theorem serial_generator_needs_lock:
  "linearizable SgCompare sg_access sg_atomic g \<and>
   unserializable SgCompare sg_access sg_atomic (g\<lparr>sg_lastTime := word_of_int time\<rparr>) \<and>
   (\<exists>s serial. free_run SgCompare sg_access \<lparr>lk_object = g\<lparr>sg_lastTime := word_of_int time\<rparr>, lk_holder = None,
       lk_threads = \<lambda>_. Outside, lk_history = [], lk_failed = None\<rparr> (serial_schedule time) = Some s \<and>
     lk_history s = [(time, serial), (time, serial)] \<and> sg_baseId (lk_object s) = sg_baseId g + 1)"
proof -
  let ?g = "g\<lparr>sg_lastTime := word_of_int time\<rparr>"
  let ?x = "serial_number (word_of_int time) (sg_kServerID g) (sg_kThreadID g) (sg_baseId g)"
  obtain s where s: "free_run SgCompare sg_access \<lparr>lk_object = ?g, lk_holder = None,
      lk_threads = \<lambda>_. Outside, lk_history = [], lk_failed = None\<rparr> (serial_schedule time) = Some s"
    "lk_failed s = None" "lk_threads s = (\<lambda>_. Outside)" "lk_history s = [(time, ?x), (time, ?x)]"
    "lk_object s = ?g\<lparr>sg_baseId := sg_baseId g + 1\<rparr>"
    using serial_run[where g = g and time = time] by (auto simp: Let_def)
  have "\<forall>h\<in>set (orders (lk_history s)). replay sg_atomic ?g h \<noteq> Some (lk_object s)"
    using serial_number_next[of "word_of_int time" "sg_kServerID g" "sg_kThreadID g" "sg_baseId g"]
    by (simp add: s(4) sg_atomic_def SerialGenerator_CreateSerial_def Let_def)
  with unserializableI[OF s(1-3)] s serial_threads.is_linearizable show ?thesis by simp
qed

text \<open>
  C15: (component \<^verbatim>\<open>DataStruct/RingBuffer\<close>, safety) The ring buffer of a writing and a reading thread
  needs a mutex, as the notes on the choice of the session's buffers say. With a mutex around
  each call the four calls of the two threads are linearizable, in both builds. Without one, from
  a buffer that holds one byte, the commit of the reader can reset the cursors after the writer
  has reserved and committed a second byte: all calls succeed, no assertion fails, and the buffer
  is as new, with the committed byte lost, which no order of the calls gives.
\<close>
theorem ring_buffer_needs_lock:
  "linearizable rt_entry (rt_access b) (rt_atomic b) rb \<and>
   unserializable rt_entry (rt_access b) (rt_atomic b) (one_byte this memory) \<and>
   (\<exists>s. free_run rt_entry (rt_access b) \<lparr>lk_object = one_byte this memory, lk_holder = None,
       lk_threads = \<lambda>_. Outside, lk_history = [], lk_failed = None\<rparr> (ring_schedule this) = Some s \<and>
     lk_failed s = None \<and> lk_object s = RingBuffer_new this memory \<and>
     (\<exists>w. (RtCreateWriter 1, WriterHandle w) \<in> set (lk_history s) \<and> RingBufferWriter_IsValid w \<and>
       (RtCommitWrite w 0, WriterHandle RingBufferWriter_null) \<in> set (lk_history s)))"
proof -
  obtain s where s: "free_run rt_entry (rt_access b) \<lparr>lk_object = one_byte this memory, lk_holder = None,
      lk_threads = \<lambda>_. Outside, lk_history = [], lk_failed = None\<rparr> (ring_schedule this) = Some s"
    "lk_failed s = None" "lk_threads s = (\<lambda>_. Outside)"
    "lk_history s =
      [(RtCreateAllReader, ReaderHandle \<lparr>rd_owner = Some this, rd_ptr = Some 0, rd_size = 1\<rparr>),
       (RtCreateWriter 1, WriterHandle \<lparr>wr_owner = Some this, wr_ptr = Some 1, wr_size = 1\<rparr>),
       (RtCommitWrite \<lparr>wr_owner = Some this, wr_ptr = Some 1, wr_size = 1\<rparr> 0, WriterHandle RingBufferWriter_null),
       (RtCommitRead \<lparr>rd_owner = Some this, rd_ptr = Some 0, rd_size = 1\<rparr> 0, ReaderHandle RingBufferReader_null)]"
    "lk_object s = RingBuffer_new this memory"
    using ring_run[of b this memory] by blast
  then have "\<forall>h\<in>set (orders (lk_history s)). replay (rt_atomic b) (one_byte this memory) h \<noteq> Some (lk_object s)"
    using ring_orders by simp
  from unserializableI[OF s(1-3) this] ring_threads.is_linearizable s(1,2,5) show ?thesis
    by (intro conjI exI[of _ s] exI[of _ "\<lparr>wr_owner = Some this, wr_ptr = Some 1, wr_size = 1\<rparr>"])
      (simp_all add: s(4) RingBufferWriter_IsValid_def)
qed

end
