(* ===== verification/Stop_Watch.thy ===== *)
theory Stop_Watch
  imports Prelude
begin

text \<open>
  \<^verbatim>\<open>Time/StopWatch\<close>. The steady clock is an argument: the count of nanoseconds since its
  epoch at the moment of the call, which \<^verbatim>\<open>GetNow\<close> casts to 64 bits. Durations are differences
  of such counts, on words.
\<close>

record StopWatch =
  sw_startPoint :: UINT64
  sw_endPoint :: UINT64

definition StopWatch_new :: StopWatch where
  "StopWatch_new = \<lparr>sw_startPoint = 0, sw_endPoint = 0\<rparr>"

definition StopWatch_GetNow :: "int \<Rightarrow> UINT64" where
  "StopWatch_GetNow clock = word_of_int clock"

definition StopWatch_Start :: "StopWatch \<Rightarrow> int \<Rightarrow> StopWatch" where
  "StopWatch_Start sw clock = sw\<lparr>sw_startPoint := StopWatch_GetNow clock\<rparr>"

definition StopWatch_Stop :: "StopWatch \<Rightarrow> int \<Rightarrow> StopWatch" where
  "StopWatch_Stop sw clock = sw\<lparr>sw_endPoint := StopWatch_GetNow clock\<rparr>"

definition StopWatch_Reset :: "StopWatch \<Rightarrow> StopWatch" where
  "StopWatch_Reset sw = sw\<lparr>sw_startPoint := 0, sw_endPoint := 0\<rparr>"

definition StopWatch_GetDurationNs :: "StopWatch \<Rightarrow> int \<Rightarrow> UINT64" where
  "StopWatch_GetDurationNs sw clock =
     (if 0 < sw_startPoint sw \<and> 0 = sw_endPoint sw
      then StopWatch_GetNow clock - sw_startPoint sw
      else sw_endPoint sw - sw_startPoint sw)"

definition StopWatch_GetDurationUs :: "StopWatch \<Rightarrow> int \<Rightarrow> UINT64" where
  "StopWatch_GetDurationUs sw clock = StopWatch_GetDurationNs sw clock div 1000"

definition StopWatch_GetDurationMs :: "StopWatch \<Rightarrow> int \<Rightarrow> UINT64" where
  "StopWatch_GetDurationMs sw clock = StopWatch_GetDurationNs sw clock div 1000000"

definition StopWatch_GetDurationSec :: "StopWatch \<Rightarrow> int \<Rightarrow> UINT64" where
  "StopWatch_GetDurationSec sw clock = StopWatch_GetDurationNs sw clock div 1000000000"

lemma unat_less64: "unat (n :: UINT64) < 18446744073709551616"
proof -
  have "unat n < 2 ^ LENGTH(64)" by (rule unsigned_less)
  then show ?thesis by simp
qed

lemma unat_GetNow:
  "0 \<le> t \<Longrightarrow> t < 2 ^ 63 \<Longrightarrow> unat (StopWatch_GetNow t) = nat t"
  by (simp add: StopWatch_GetNow_def unat_eq_nat_uint uint_word_of_int)

lemma GetNow_positive: "0 < t \<Longrightarrow> t < 2 ^ 63 \<Longrightarrow> 0 < StopWatch_GetNow t"
  by (simp add: word_less_nat_alt unat_GetNow)

lemma GetNow_diff:
  assumes "0 \<le> s" "s \<le> t" "t < 2 ^ 63"
  shows "unat (StopWatch_GetNow t - StopWatch_GetNow s) = nat (t - s)"
  using assms by (simp add: unat_sub_le unat_GetNow nat_diff_distrib)

lemma GetNow_diff_wrap:
  assumes "0 \<le> s" "s < t" "t < 2 ^ 63"
  shows "unat (StopWatch_GetNow s - StopWatch_GetNow t) = 2 ^ 64 - nat (t - s)"
proof -
  obtain a b where "s = int a" "t = int b"
    using assms by (metis order.strict_trans1 order_less_imp_le zero_le_imp_eq_int)
  with assms show ?thesis by (simp add: unat_sub_if' unat_GetNow nat_diff_distrib)
qed

section \<open>Properties\<close>

text \<open>
  On a clock that is past its epoch and does not run
  backwards, a fresh (or reset) watch that was started reads the time since the start while it
  runs and, once stopped, the time between start and stop whatever the clock does afterwards;
  the four units are that duration rounded down, each also obtained from the next finer one.
\<close>
theorem stop_watch_measures:
  assumes "0 < t0" "t0 \<le> t1" "t1 < 2 ^ 63"
  shows "(let running = StopWatch_Start (StopWatch_Reset sw) t0;
              stopped = StopWatch_Stop running t1
    in unat (StopWatch_GetDurationNs running t1) = nat (t1 - t0) \<and>
       unat (StopWatch_GetDurationNs stopped later) = nat (t1 - t0) \<and>
       unat (StopWatch_GetDurationSec stopped later) = nat (t1 - t0) div 1000000000 \<and>
       StopWatch_GetDurationUs stopped later = StopWatch_GetDurationNs stopped later div 1000 \<and>
       StopWatch_GetDurationMs stopped later = StopWatch_GetDurationUs stopped later div 1000 \<and>
       StopWatch_GetDurationSec stopped later = StopWatch_GetDurationMs stopped later div 1000 \<and>
       StopWatch_Reset stopped = StopWatch_Reset sw)"
proof -
  from assms have pos: "0 < StopWatch_GetNow t0" "0 < StopWatch_GetNow t1"
    by (auto intro: GetNow_positive)
  then have nz: "StopWatch_GetNow t1 \<noteq> 0" by (simp add: word_gt_0)
  have div2: "d div a div b = d div (a * b)" if "unat a * unat b < 2 ^ 64" for d a b :: UINT64
    using that by (simp add: word_unat_eq_iff unat_div div_mult2_eq unat_mult_lem [THEN iffD1])
  show ?thesis
    using assms pos nz GetNow_diff[of t0 t1]
    by (simp add: Let_def StopWatch_Start_def StopWatch_Stop_def StopWatch_Reset_def
        StopWatch_GetDurationNs_def StopWatch_GetDurationUs_def StopWatch_GetDurationMs_def
        StopWatch_GetDurationSec_def unat_div div2)
qed

lemma stop_watch_measures_witness:
  "unat (StopWatch_GetDurationSec (StopWatch_Stop (StopWatch_Start (StopWatch_Reset StopWatch_new) 1000)
     2500001000) 0) = 2"
proof -
  have times: "(0::int) < 1000" "(1000::int) \<le> 2500001000" "(2500001000::int) < 2 ^ 63" by simp_all
  from stop_watch_measures[OF times, of StopWatch_new 0]
  have "unat (StopWatch_GetDurationSec (StopWatch_Stop (StopWatch_Start (StopWatch_Reset StopWatch_new) 1000)
     2500001000) 0) = nat (2500001000 - 1000) div 1000000000"
    unfolding Let_def by blast
  then show ?thesis by simp
qed

text \<open>
  \<^verbatim>\<open>Start\<close> does not clear the end point. A watch that is
  started again after a stop without \<^verbatim>\<open>Reset\<close> keeps comparing with the old stop, so that
  while it runs it reads the same value just below \<open>2 ^ 64\<close> at every later moment; a watch
  stopped without having been started reads the clock itself.
\<close>
theorem stop_watch_restart_keeps_old_stop:
  assumes "0 < t0" "t0 \<le> t1" "t1 < t2" "t2 < 2 ^ 63"
  shows "(let again = StopWatch_Start (StopWatch_Stop (StopWatch_Start sw t0) t1) t2
    in unat (StopWatch_GetDurationNs again now) = 2 ^ 64 - nat (t2 - t1)) \<and>
    unat (StopWatch_GetDurationNs (StopWatch_Stop StopWatch_new t1) now) = nat t1"
proof -
  have "StopWatch_GetNow t1 \<noteq> 0"
    using GetNow_positive[of t1] assms by (simp add: word_gt_0)
  then show ?thesis
    using assms GetNow_diff_wrap[of t1 t2] unat_GetNow[of t1]
    by (simp add: Let_def StopWatch_Start_def StopWatch_Stop_def StopWatch_GetDurationNs_def
        StopWatch_new_def)
qed

lemma stop_watch_restart_keeps_old_stop_witness:
  "unat (StopWatch_GetDurationNs (StopWatch_Start (StopWatch_Stop (StopWatch_Start StopWatch_new 10) 20) 50) 90)
     = 2 ^ 64 - 30"
  using stop_watch_restart_keeps_old_stop[of 10 20 50 StopWatch_new 90] by (simp add: Let_def)

end
