(* ===== verification/Stop_Watch_Test.thy ===== *)
theory Stop_Watch_Test
  imports Stop_Watch Complex_Main
begin

text \<open>
  \<^verbatim>\<open>99_Test/Source/01_ServerBase/Time/StopWatchTest.cpp\<close>: the five tests of the stop watch as
  functions of the readings of the steady clock, one argument for each call that reads it.
  Double arithmetic is exact arithmetic followed by a rounding, which is a parameter: of the
  rounding of the platform the proofs use only that it is monotone and leaves the integers up
  to \<open>2 ^ 53\<close> as they are.
\<close>

definition double_rounding :: "(rat \<Rightarrow> rat) \<Rightarrow> bool" where
  "double_rounding rnd \<longleftrightarrow> mono rnd \<and> (\<forall>n :: int. \<bar>n\<bar> \<le> 2 ^ 53 \<longrightarrow> rnd (of_int n) = of_int n)"

definition double_of_u64 :: "(rat \<Rightarrow> rat) \<Rightarrow> UINT64 \<Rightarrow> rat" where
  "double_of_u64 rnd w = rnd (of_nat (unat w))"

definition EXPECT_NEAR :: "(rat \<Rightarrow> rat) \<Rightarrow> rat \<Rightarrow> rat \<Rightarrow> rat \<Rightarrow> bool" where
  "EXPECT_NEAR rnd a b abs_error \<longleftrightarrow> \<bar>rnd (a - b)\<bar> \<le> abs_error"

definition StopWatchTest_SetUp :: "StopWatch \<Rightarrow> StopWatch" where
  "StopWatchTest_SetUp sw = StopWatch_Reset sw"

definition StopWatchTest_Init :: "int \<Rightarrow> int \<Rightarrow> bool" where
  "StopWatchTest_Init c1 c2 \<longleftrightarrow>
     (let sw = StopWatchTest_SetUp StopWatch_new
      in StopWatch_GetDurationNs sw c1 = 0 \<and> StopWatch_GetDurationMs sw c2 = 0)"

definition StopWatchTest_Tick :: "int \<Rightarrow> int \<Rightarrow> bool" where
  "StopWatchTest_Tick c1 c2 \<longleftrightarrow>
     (let sw = StopWatch_Start (StopWatchTest_SetUp StopWatch_new) c1;
          duration = StopWatch_GetDurationMs sw c2
      in 10 \<le> duration)"

definition StopWatchTest_Stop :: "int \<Rightarrow> int \<Rightarrow> int \<Rightarrow> int \<Rightarrow> bool" where
  "StopWatchTest_Stop c1 c2 c3 c4 \<longleftrightarrow>
     (let sw = StopWatch_Stop (StopWatch_Start (StopWatchTest_SetUp StopWatch_new) c1) c2;
          durationAtStop = StopWatch_GetDurationMs sw c3
      in StopWatch_GetDurationMs sw c4 = durationAtStop)"

definition StopWatchTest_Reset :: "int \<Rightarrow> int \<Rightarrow> int \<Rightarrow> bool" where
  "StopWatchTest_Reset c1 c2 c3 \<longleftrightarrow>
     (let sw = StopWatch_Stop (StopWatch_Start (StopWatchTest_SetUp StopWatch_new) c1) c2;
          sw = StopWatch_Reset sw
      in StopWatch_GetDurationNs sw c3 = 0)"

definition StopWatchTest_GetValueType :: "(rat \<Rightarrow> rat) \<Rightarrow> int \<Rightarrow> int \<Rightarrow> int \<Rightarrow> int \<Rightarrow> int \<Rightarrow> int \<Rightarrow> bool" where
  "StopWatchTest_GetValueType rnd c1 c2 c3 c4 c5 c6 \<longleftrightarrow>
     (let sw = StopWatch_Stop (StopWatch_Start (StopWatchTest_SetUp StopWatch_new) c1) c2;
          ns = StopWatch_GetDurationNs sw c3;
          us = StopWatch_GetDurationUs sw c4;
          ms = StopWatch_GetDurationMs sw c5;
          sec = StopWatch_GetDurationSec sw c6
      in 1 \<le> sec \<and>
         EXPECT_NEAR rnd (double_of_u64 rnd ms) (rnd (double_of_u64 rnd ns / 1000000)) 1 \<and>
         EXPECT_NEAR rnd (double_of_u64 rnd us) (rnd (double_of_u64 rnd ns / 1000)) 1 \<and>
         sec = ms div 1000)"

lemmas stop_watch_eval = StopWatchTest_SetUp_def StopWatch_new_def StopWatch_Start_def StopWatch_Stop_def
  StopWatch_Reset_def StopWatch_GetDurationNs_def StopWatch_GetDurationUs_def
  StopWatch_GetDurationMs_def StopWatch_GetDurationSec_def

text \<open>A duration in a coarser unit is near the exact quotient, also in double arithmetic.\<close>

lemma rounded_quotient:
  assumes rnd: "double_rounding rnd" and n: "N \<le> 2 ^ 53" and d: "0 < D"
  shows "rnd (of_nat N) = of_nat N" "rnd (of_nat (N div D)) = of_nat (N div D)"
    "\<bar>rnd (of_nat (N div D) - rnd (of_nat N / of_nat D))\<bar> \<le> 1"
proof -
  let ?q = "N div D" and ?x = "of_nat N / of_nat D :: rat"
  have m: "x \<le> y \<Longrightarrow> rnd x \<le> rnd y" for x y
    using rnd by (auto simp: double_rounding_def mono_def)
  have ex: "rnd (of_int k) = of_int k" if "\<bar>k\<bar> \<le> 2 ^ 53" for k :: int
    using rnd that by (simp add: double_rounding_def)
  have exn: "rnd (of_nat k) = of_nat k" if "k \<le> 2 ^ 53" for k :: nat
    using ex[of "int k"] that by simp
  have q: "?q \<le> N" by simp
  show "rnd (of_nat N) = of_nat N" "rnd (of_nat ?q) = of_nat ?q"
    using exn[OF n] exn[OF order_trans[OF q n]] by simp_all
  have n_eq: "D * ?q \<le> N" "N \<le> D * (?q + 1)"
    using mult_div_mod_eq[of D N] mod_less_divisor[OF d, of N]
    unfolding distrib_left by linarith+
  then have "of_nat (D * ?q) \<le> (of_nat N :: rat)" "(of_nat N :: rat) \<le> of_nat (D * (?q + 1))"
    by (simp_all only: of_nat_le_iff)
  then have lo: "of_nat ?q \<le> ?x" and hi: "?x \<le> of_nat ?q + 1"
    using d by (simp_all add: field_simps)
  have "of_nat ?q \<le> rnd ?x" using m[OF lo] exn[OF order_trans[OF q n]] by simp
  moreover have "rnd ?x \<le> of_nat ?q + 1"
  proof (cases "?q + 1 \<le> 2 ^ 53")
    case True
    with m[OF hi] exn[OF True] show ?thesis by (simp add: add.commute)
  next
    case False
    with q n have "?q = N" by linarith
    moreover have "?x \<le> of_nat N"
      using d by (simp add: divide_le_eq mult_le_cancel_left1)
    ultimately show ?thesis
      using m[of ?x "of_nat N"] exn[OF n] by simp
  qed
  ultimately have "-1 \<le> of_nat ?q - rnd ?x" "of_nat ?q - rnd ?x \<le> 0" by simp_all
  with m[of "-1" "of_nat ?q - rnd ?x"] m[of "of_nat ?q - rnd ?x" 0] ex[of "-1"] ex[of 0]
  show "\<bar>rnd (of_nat ?q - rnd ?x)\<bar> \<le> 1" by simp
qed

lemma unit_near:
  assumes "double_rounding rnd" "unat n \<le> 2 ^ 53" "0 < unat d"
  shows "EXPECT_NEAR rnd (double_of_u64 rnd (n div d)) (rnd (double_of_u64 rnd n / of_nat (unat d))) 1"
  unfolding EXPECT_NEAR_def double_of_u64_def unat_div rounded_quotient(1,2)[OF assms]
  by (rule rounded_quotient(3)[OF assms])

text \<open>
  The five tests of the stop watch pass on every clock
  that is past its epoch and on which a sleep lasts at least as long as asked for: the later
  readings are arbitrary. The comparison of the units in floating point holds for every
  rounding that is monotone and exact on integers, for durations up to \<open>2 ^ 53\<close> nanoseconds.
\<close>
theorem stop_watch_tests_pass:
  assumes "0 < c1" "c1 + 10000000 \<le> c2" "c2 < 2 ^ 63"
    and "0 < d1" "d1 + 1100000000 \<le> d2" "d2 < 2 ^ 63" "d2 - d1 \<le> 2 ^ 53" "double_rounding rnd"
  shows "StopWatchTest_Init x1 x2 \<and> StopWatchTest_Tick c1 c2 \<and> StopWatchTest_Stop c1 c2 x1 x2 \<and>
    StopWatchTest_Reset c1 c2 x1 \<and> StopWatchTest_GetValueType rnd d1 d2 x1 x2 x3 x4"
proof -
  have "StopWatchTest_Init x1 x2" "StopWatchTest_Reset c1 c2 x1"
    by (simp_all add: StopWatchTest_Init_def StopWatchTest_Reset_def stop_watch_eval)
  moreover have "StopWatchTest_Stop c1 c2 x1 x2"
    using GetNow_positive[of c2] assms(1-3)
    by (simp add: StopWatchTest_Stop_def stop_watch_eval word_gt_0)
  moreover have "StopWatchTest_Tick c1 c2"
  proof -
    have "10000000 \<le> nat (c2 - c1)" using assms(2) by linarith
    then have "10 \<le> nat (c2 - c1) div 1000000" by (simp add: less_eq_div_iff_mult_less_eq)
    then show ?thesis
      using assms(1-3) GetNow_positive[of c1] GetNow_diff[of c1 c2]
      by (simp add: StopWatchTest_Tick_def stop_watch_eval word_le_nat_alt unat_div)
  qed
  moreover have "StopWatchTest_GetValueType rnd d1 d2 x1 x2 x3 x4"
  proof -
    let ?n = "StopWatch_GetNow d2 - StopWatch_GetNow d1"
    have pos: "0 < StopWatch_GetNow d1" "0 < StopWatch_GetNow d2"
      using assms(4-6) by (auto intro: GetNow_positive)
    have n: "unat ?n = nat (d2 - d1)" using GetNow_diff[of d1 d2] assms(4-6) by simp
    then have "unat ?n \<le> 2 ^ 53" using assms(7) by simp
    note near = unit_near[OF assms(8) this]
    have "1100000000 \<le> unat ?n" using n assms(5) by linarith
    then have "1 \<le> unat ?n div 1000000000" by (simp add: less_eq_div_iff_mult_less_eq)
    then have "1 \<le> ?n div 1000000000" by (simp add: word_le_nat_alt unat_div)
    moreover have "?n div 1000000000 = ?n div 1000000 div 1000"
      by (simp add: word_unat_eq_iff unat_div div_mult2_eq)
    ultimately show ?thesis
      using near[of 1000000] near[of 1000] pos
      by (simp add: StopWatchTest_GetValueType_def stop_watch_eval word_gt_0)
  qed
  ultimately show ?thesis by blast
qed

lemma double_rounding_id: "double_rounding id"
  by (simp add: double_rounding_def mono_def)

lemma stop_watch_tests_pass_witness:
  "StopWatchTest_GetValueType id 5 1100000005 0 0 0 0"
proof -
  have times: "(0 :: int) < 5" "(5 :: int) + 10000000 \<le> 10000005" "(10000005 :: int) < 2 ^ 63"
    "(0 :: int) < 5" "(5 :: int) + 1100000000 \<le> 1100000005" "(1100000005 :: int) < 2 ^ 63"
    "(1100000005 :: int) - 5 \<le> 2 ^ 53" by simp_all
  from stop_watch_tests_pass[OF times double_rounding_id] show ?thesis by blast
qed

end
