(* ===== verification/Logger_Model.thy ===== *)
theory Logger_Model
  imports Prelude
begin

text \<open>
  \<^verbatim>\<open>Logger/\<close>: levels, the logger with its name of at most 29 characters and its level filter,
  and the sinks it writes to. Sinks refer to each other by pointer, so they live in a store;
  logging to a sink runs with fuel, because a multi sink can contain itself. The time stamp is
  formatted by the libraries \<^verbatim>\<open>chrono\<close> and \<^verbatim>\<open>fmt\<close> and is an argument, and the colour of the
  console output is left out.
\<close>

section \<open>Levels\<close>

datatype eLogLevel = kTrace | kDebug | kInfo | kWarning | kError | kFatal

fun level_value :: "eLogLevel \<Rightarrow> nat" where
  "level_value kTrace = 0"
| "level_value kDebug = 1"
| "level_value kInfo = 2"
| "level_value kWarning = 3"
| "level_value kError = 4"
| "level_value kFatal = 5"

lemma level_value_inj: "level_value a = level_value b \<longleftrightarrow> a = b"
  by (cases a; cases b) simp_all

instantiation eLogLevel :: linorder
begin

definition less_eq_eLogLevel :: "eLogLevel \<Rightarrow> eLogLevel \<Rightarrow> bool" where
  "less_eq_eLogLevel a b \<longleftrightarrow> level_value a \<le> level_value b"

definition less_eLogLevel :: "eLogLevel \<Rightarrow> eLogLevel \<Rightarrow> bool" where
  "less_eLogLevel a b \<longleftrightarrow> level_value a < level_value b"

instance
  by standard (auto simp: less_eq_eLogLevel_def less_eLogLevel_def level_value_inj)

end

fun GetLevelString :: "eLogLevel \<Rightarrow> string" where
  "GetLevelString kTrace = ''TRACE''"
| "GetLevelString kDebug = ''DEBUG''"
| "GetLevelString kInfo = ''INFO''"
| "GetLevelString kWarning = ''WARNING''"
| "GetLevelString kError = ''ERROR''"
| "GetLevelString kFatal = ''FATAL''"

section \<open>Sinks\<close>

text \<open>
  A file sink keeps whether its stream is open and the contents of its file; a stream that is
  not open drops what is written to it. The console is the list of the lines printed.
\<close>

datatype Sink =
    NullSink
  | ConsoleSink
  | FileSink bool string
  | MultiSink "addr option list"

record LogWorld =
  lw_sinks :: "addr \<Rightarrow> Sink option"
  lw_stdout :: "string list"

definition FileSink_new :: "bool \<Rightarrow> string \<Rightarrow> Sink res" where
  "FileSink_new opened contents =
     (if \<not> opened then Crash ''Failed to open log file.'' else Inr (FileSink True contents))"

definition MultiSink_AddSink :: "addr option list \<Rightarrow> addr option \<Rightarrow> Sink" where
  "MultiSink_AddSink sinks sink = MultiSink (sinks @ [sink])"

definition FileSink_Log :: "build \<Rightarrow> LogWorld \<Rightarrow> addr \<Rightarrow> bool \<Rightarrow> string \<Rightarrow> string \<Rightarrow> LogWorld res" where
  "FileSink_Log b w a opened contents message =
     ASSERT b opened ''file stream is not open''
       (Inr (if opened
             then w\<lparr>lw_sinks := (lw_sinks w)(a := Some (FileSink True (contents @ message)))\<rparr>
             else w))"

definition NullSink_Log :: "LogWorld \<Rightarrow> eLogLevel \<Rightarrow> string \<Rightarrow> LogWorld" where
  [simp]: "NullSink_Log w level message = w"

definition ConsoleSink_Log :: "LogWorld \<Rightarrow> eLogLevel \<Rightarrow> string \<Rightarrow> LogWorld" where
  [simp]: "ConsoleSink_Log w level message = w\<lparr>lw_stdout := lw_stdout w @ [message]\<rparr>"

text \<open>
  The virtual call \<^verbatim>\<open>sink->Log(level, message)\<close>; \<open>None\<close> is that the fuel did not suffice. A
  pointer to no sink is a null or dangling pointer.
\<close>

function Sink_Log :: "build \<Rightarrow> nat \<Rightarrow> LogWorld \<Rightarrow> addr option \<Rightarrow> eLogLevel \<Rightarrow> string \<Rightarrow>
    LogWorld res option"
  and MultiSink_Log :: "build \<Rightarrow> nat \<Rightarrow> LogWorld \<Rightarrow> addr option list \<Rightarrow> eLogLevel \<Rightarrow> string \<Rightarrow>
    LogWorld res option" where
  "Sink_Log b 0 w sink level message = None"
| "Sink_Log b (Suc n) w sink level message =
     (case sink of
        None \<Rightarrow> Some (Inl NullDeref)
      | Some a \<Rightarrow>
          (case lw_sinks w a of
             None \<Rightarrow> Some (Inl NullDeref)
           | Some NullSink \<Rightarrow> Some (Inr (NullSink_Log w level message))
           | Some ConsoleSink \<Rightarrow> Some (Inr (ConsoleSink_Log w level message))
           | Some (FileSink opened contents) \<Rightarrow> Some (FileSink_Log b w a opened contents message)
           | Some (MultiSink sinks) \<Rightarrow> MultiSink_Log b n w sinks level message))"
| "MultiSink_Log b n w [] level message = Some (Inr w)"
| "MultiSink_Log b n w (sink # sinks) level message =
     (case Sink_Log b n w sink level message of
        None \<Rightarrow> None
      | Some (Inl e) \<Rightarrow> Some (Inl e)
      | Some (Inr w') \<Rightarrow> MultiSink_Log b n w' sinks level message)"
  by pat_completeness auto

termination
  by (relation "measures [\<lambda>x. case x of Inl (_, n, _) \<Rightarrow> n | Inr (_, n, _) \<Rightarrow> n,
        \<lambda>x. case x of Inl _ \<Rightarrow> 0 | Inr (_, _, _, sinks, _) \<Rightarrow> Suc (length sinks)]") auto

section \<open>The logger\<close>

definition kMaxNameLength :: nat where
  "kMaxNameLength = 30"

record Logger =
  lg_name :: string
  lg_level :: eLogLevel
  lg_sink :: "addr option"

definition Logger_new :: "string \<Rightarrow> eLogLevel \<Rightarrow> Logger" where
  "Logger_new loggerName level =
     \<lparr>lg_name = (strncpy (replicate kMaxNameLength NUL) loggerName (kMaxNameLength - 1))
        [kMaxNameLength - 1 := NUL],
      lg_level = level, lg_sink = None\<rparr>"

definition Logger_SetSink :: "build \<Rightarrow> Logger \<Rightarrow> addr option \<Rightarrow> Logger res" where
  "Logger_SetSink b lg sink =
     ASSERT b (sink \<noteq> None) ''sink is nullptr'' (Inr (lg\<lparr>lg_sink := sink\<rparr>))"

definition format_message :: "string \<Rightarrow> eLogLevel \<Rightarrow> string \<Rightarrow> string \<Rightarrow> string" where
  "format_message stamp level name message =
     ''['' @ stamp @ ''][''  @ GetLevelString level @ ''][''  @ c_str name @ ''] '' @ c_str message"

definition Logger_Log ::
  "build \<Rightarrow> nat \<Rightarrow> LogWorld \<Rightarrow> Logger \<Rightarrow> eLogLevel \<Rightarrow> string \<Rightarrow> string \<Rightarrow> LogWorld res option" where
  "Logger_Log b fuel w lg level stamp message =
     (if lg_level lg \<le> level
      then Sink_Log b fuel w (lg_sink lg) level (format_message stamp level (lg_name lg) message)
      else Some (Inr w))"

lemma Logger_name: "c_str (lg_name (Logger_new name level)) = take 29 (c_str name)"
  using c_str_strncpy_terminated[of "replicate 30 NUL" 29 name]
  by (simp add: Logger_new_def kMaxNameLength_def)

lemma Logger_new_fields:
  "lg_level (Logger_new name level) = level" "lg_sink (Logger_new name level) = None"
  by (simp_all add: Logger_new_def)

section \<open>Trees of sinks\<close>

text \<open>
  A sink that is reached through at most \<open>k\<close> pointers from the root, all of them to living sinks
  with open files, and its leaves from left to right; what a delivery to a leaf does.
\<close>

fun sink_tree :: "nat \<Rightarrow> LogWorld \<Rightarrow> addr \<Rightarrow> bool" where
  "sink_tree 0 w a = False"
| "sink_tree (Suc k) w a =
     (case lw_sinks w a of
        None \<Rightarrow> False
      | Some (MultiSink sinks) \<Rightarrow>
          list_all (\<lambda>s. case s of None \<Rightarrow> False | Some c \<Rightarrow> sink_tree k w c) sinks
      | Some (FileSink opened _) \<Rightarrow> opened
      | Some _ \<Rightarrow> True)"

fun leaves :: "nat \<Rightarrow> LogWorld \<Rightarrow> addr \<Rightarrow> addr list" where
  "leaves 0 w a = []"
| "leaves (Suc k) w a =
     (case lw_sinks w a of
        Some (MultiSink sinks) \<Rightarrow> concat (map (\<lambda>s. case s of None \<Rightarrow> [] | Some c \<Rightarrow> leaves k w c) sinks)
      | _ \<Rightarrow> [a])"

definition deliver :: "string \<Rightarrow> addr \<Rightarrow> LogWorld \<Rightarrow> LogWorld" where
  "deliver message a w =
     (case lw_sinks w a of
        Some ConsoleSink \<Rightarrow> w\<lparr>lw_stdout := lw_stdout w @ [message]\<rparr>
      | Some (FileSink _ contents) \<Rightarrow>
          w\<lparr>lw_sinks := (lw_sinks w)(a := Some (FileSink True (contents @ message)))\<rparr>
      | _ \<Rightarrow> w)"

text \<open>Logging changes what sinks hold, never which sinks there are.\<close>

fun forget_contents :: "Sink \<Rightarrow> Sink" where
  "forget_contents (FileSink opened _) = FileSink opened []"
| "forget_contents s = s"

definition same_shape :: "LogWorld \<Rightarrow> LogWorld \<Rightarrow> bool" where
  "same_shape v w \<longleftrightarrow> (\<forall>a. map_option forget_contents (lw_sinks v a) = map_option forget_contents (lw_sinks w a))"

lemma same_shape_cases:
  assumes "same_shape v w"
  shows "(lw_sinks v a = None \<longleftrightarrow> lw_sinks w a = None) \<and>
    (lw_sinks v a = Some NullSink \<longleftrightarrow> lw_sinks w a = Some NullSink) \<and>
    (lw_sinks v a = Some ConsoleSink \<longleftrightarrow> lw_sinks w a = Some ConsoleSink) \<and>
    (lw_sinks v a = Some (MultiSink ss) \<longleftrightarrow> lw_sinks w a = Some (MultiSink ss)) \<and>
    ((\<exists>c. lw_sinks v a = Some (FileSink opened c)) \<longleftrightarrow> (\<exists>c. lw_sinks w a = Some (FileSink opened c)))"
proof -
  have "map_option forget_contents (lw_sinks v a) = map_option forget_contents (lw_sinks w a)"
    using assms by (simp add: same_shape_def)
  then show ?thesis
    by (cases "lw_sinks v a"; cases "lw_sinks w a"; cases "the (lw_sinks v a)"; cases "the (lw_sinks w a)")
      auto
qed

lemma same_shape_refl [simp]: "same_shape w w"
  by (simp add: same_shape_def)

lemma same_shape_trans: "same_shape u v \<Longrightarrow> same_shape v w \<Longrightarrow> same_shape u w"
  by (simp add: same_shape_def)

lemma sink_tree_shape: "same_shape v w \<Longrightarrow> sink_tree k v a = sink_tree k w a \<and> leaves k v a = leaves k w a"
proof (induction k arbitrary: a)
  case (Suc k)
  note sh = same_shape_cases[OF Suc.prems, of a]
  show ?case
  proof (cases "lw_sinks w a")
    case (Some s)
    show ?thesis
    proof (cases s)
      case (FileSink opened c)
      with sh Some obtain c' where "lw_sinks v a = Some (FileSink opened c')" by blast
      with Some FileSink show ?thesis by simp
    next
      case (MultiSink ss)
      with sh Some have "lw_sinks v a = Some (MultiSink ss)" by blast
      moreover from Suc.IH Suc.prems have "sink_tree k v = sink_tree k w" "leaves k v = leaves k w"
        by auto
      ultimately show ?thesis using Some MultiSink by simp
    qed (use sh Some in auto)
  qed (use sh in auto)
qed simp

lemma deliver_shape:
  "(case lw_sinks w a of Some (FileSink opened _) \<Rightarrow> opened | _ \<Rightarrow> True) \<Longrightarrow> same_shape (deliver m a w) w"
  by (auto simp: same_shape_def deliver_def split: option.splits Sink.splits)

lemma MultiSink_Log_delivers:
  assumes "\<And>v a. same_shape v w \<Longrightarrow> sink_tree k v a \<Longrightarrow>
      Sink_Log b n v (Some a) level m = Some (Inr (fold (deliver m) (leaves k v a) v)) \<and>
      same_shape (fold (deliver m) (leaves k v a) v) v"
    and "same_shape v w"
    and "list_all (\<lambda>s. case s of None \<Rightarrow> False | Some c \<Rightarrow> sink_tree k v c) ss"
  shows "MultiSink_Log b n v ss level m =
      Some (Inr (fold (deliver m) (concat (map (\<lambda>s. case s of None \<Rightarrow> [] | Some c \<Rightarrow> leaves k v c) ss)) v)) \<and>
    same_shape (fold (deliver m) (concat (map (\<lambda>s. case s of None \<Rightarrow> [] | Some c \<Rightarrow> leaves k v c) ss)) v) v"
  using assms(2,3)
proof (induction ss arbitrary: v)
  case (Cons s ss)
  then obtain c where c: "s = Some c" "sink_tree k v c" by (auto split: option.splits)
  let ?v = "fold (deliver m) (leaves k v c) v"
  from assms(1)[OF Cons.prems(1) c(2)] have
    one: "Sink_Log b n v (Some c) level m = Some (Inr ?v)" and sh: "same_shape ?v v" by auto
  have w: "same_shape ?v w"
    using sh Cons.prems(1) same_shape_trans by blast
  have eq: "sink_tree k ?v = sink_tree k v" "leaves k ?v = leaves k v"
    using sink_tree_shape[OF sh] by auto
  from Cons.prems(2) have rest: "list_all (\<lambda>s. case s of None \<Rightarrow> False | Some c \<Rightarrow> sink_tree k v c) ss"
    by simp
  from Cons.IH[OF w, unfolded eq, OF rest] have
    "MultiSink_Log b n ?v ss level m =
      Some (Inr (fold (deliver m) (concat (map (\<lambda>s. case s of None \<Rightarrow> [] | Some c \<Rightarrow> leaves k v c) ss)) ?v))"
    "same_shape (fold (deliver m) (concat (map (\<lambda>s. case s of None \<Rightarrow> [] | Some c \<Rightarrow> leaves k v c) ss)) ?v) ?v"
    by auto
  with one sh c show ?case
    using same_shape_trans by fastforce
qed simp

lemma Sink_Log_delivers:
  "sink_tree k w a \<Longrightarrow> k \<le> n \<Longrightarrow>
   Sink_Log b n w (Some a) level m = Some (Inr (fold (deliver m) (leaves k w a) w)) \<and>
   same_shape (fold (deliver m) (leaves k w a) w) w"
proof (induction k arbitrary: n w a)
  case (Suc k)
  then obtain n' where n: "n = Suc n'" "k \<le> n'" by (cases n) auto
  from Suc.prems obtain s where s: "lw_sinks w a = Some s" by (auto split: option.splits)
  show ?case
  proof (cases s)
    case (MultiSink ss)
    have "Sink_Log b n' v (Some c) level m = Some (Inr (fold (deliver m) (leaves k v c) v)) \<and>
        same_shape (fold (deliver m) (leaves k v c) v) v" if "sink_tree k v c" for v c
      using Suc.IH[OF that n(2)] .
    from MultiSink_Log_delivers[of w k b n' level m w ss, OF this] Suc.prems(1) s MultiSink n
    show ?thesis by simp
  qed (use Suc.prems s n in \<open>auto simp: deliver_def FileSink_Log_def same_shape_def\<close>)
qed simp

section \<open>Properties\<close>

text \<open>
  A logger drops the messages below its level and
  hands every other one to its sink, once, as one line with the time stamp, the level and the
  first 29 characters of its name; a logger whose sink was never set dereferences null at the
  first message it does not drop, and \<^verbatim>\<open>SetSink\<close> accepts exactly the non-null sinks where
  assertions are compiled in.
\<close>
theorem logger_filters_and_formats:
  assumes "lw_sinks w a = Some ConsoleSink" "0 < fuel"
  shows "\<exists>lg. Logger_SetSink b (Logger_new name minimum) (Some a) = Inr lg \<and>
    Logger_Log b fuel w lg level stamp message =
      Some (Inr (if minimum \<le> level
                 then w\<lparr>lw_stdout := lw_stdout w @
                   [''['' @ stamp @ ''][''  @ GetLevelString level @ ''][''  @ take 29 (c_str name) @ ''] '' @
                    c_str message]\<rparr>
                 else w)) \<and>
    Logger_Log b fuel w (Logger_new name minimum) level stamp message =
      Some (if minimum \<le> level then Inl NullDeref else Inr w) \<and>
    (is_ok (Logger_SetSink b lg None) \<longleftrightarrow> b = NoDebug)"
proof -
  obtain n where "fuel = Suc n" using assms(2) by (cases fuel) auto
  with assms show ?thesis
    by (cases b)
      (auto simp: Logger_SetSink_def Logger_Log_def format_message_def Logger_name Logger_new_fields ok_simps)
qed

lemma logger_filters_and_formats_witness:
  "\<exists>lg. Logger_SetSink Debug (Logger_new ''a-logger-with-a-name-of-36-chars....'' kWarning) (Some 0) = Inr lg \<and>
     Logger_Log Debug 1 \<lparr>lw_sinks = [0 \<mapsto> ConsoleSink], lw_stdout = []\<rparr> lg kError ''10:00'' ''disk full'' =
       Some (Inr \<lparr>lw_sinks = [0 \<mapsto> ConsoleSink],
         lw_stdout = [''[10:00][ERROR][a-logger-with-a-name-of-36-ch] disk full'']\<rparr>)"
proof -
  let ?w = "\<lparr>lw_sinks = [0 \<mapsto> ConsoleSink], lw_stdout = []\<rparr>"
  have "lw_sinks ?w 0 = Some ConsoleSink" "0 < (1 :: nat)" by simp_all
  from logger_filters_and_formats[OF this, of Debug "''a-logger-with-a-name-of-36-chars....''" kWarning kError
      "''10:00''" "''disk full''"]
  show ?thesis by (auto simp: less_eq_eLogLevel_def c_str_def NUL_def)
qed



end
