(* ===== verification/Boost_Session.thy ===== *)
theory Boost_Session
  imports Recv_Buffer
begin

text \<open>
  \<^verbatim>\<open>Boost/BoostSession\<close>: the send path of a session. What the code uses of Boost.Asio is kept
  beside the session's own fields: the handlers posted to the executor and not yet run, the
  \<^verbatim>\<open>async_write\<close> operations in progress with the bytes they have still to transmit, and the
  bytes that have gone out. The code holds the session's mutex over blocks, not over whole
  functions, so each function is composed of its blocks, and any number of threads interleave
  at block boundaries. The receive path of the source is commented out and its functions have
  empty bodies.
\<close>

section \<open>State\<close>

definition kMaxSendQueueSize :: UINT32 where
  "kMaxSendQueueSize = 1024"

text \<open>An error code; \<open>None\<close> is success. Null pointers to send buffers are \<open>None\<close> as well.\<close>

type_synonym ErrorCode = "string option"

record BoostSession =
  bs_sessionID :: UINT32
  bs_netEngine :: "addr option"
  bs_open :: bool
  bs_noDelay :: bool
  bs_linger :: "(bool \<times> nat) option"
  bs_sendQueue :: "SendBuffer option list"
  bs_isSending :: bool
  bs_sendingBuffers :: "SendBuffer option list"

datatype task = RunReceive | RunCloseSocket | RunFlushSendQueue | RunCompleteSend ErrorCode

record SessionWorld = BoostSession +
  sw_tasks :: "task list"
  sw_writes :: "BYTE list list"
  sw_wire :: "BYTE list"

definition BoostSession_new :: "build \<Rightarrow> addr option \<Rightarrow> UINT32 \<Rightarrow> SessionWorld res" where
  "BoostSession_new b netEngine sessionID =
     ASSERT b (netEngine \<noteq> None) ''NetEngine is null''
       (Inr \<lparr>bs_sessionID = sessionID, bs_netEngine = netEngine, bs_open = False, bs_noDelay = False,
             bs_linger = None, bs_sendQueue = [], bs_isSending = False, bs_sendingBuffers = [],
             sw_tasks = [], sw_writes = [], sw_wire = []\<rparr>)"

definition GetSessionID :: "SessionWorld \<Rightarrow> UINT32" where
  "GetSessionID w = bs_sessionID w"

definition post :: "task \<Rightarrow> SessionWorld \<Rightarrow> SessionWorld" where
  "post t w = w\<lparr>sw_tasks := sw_tasks w @ [t]\<rparr>"

section \<open>Operations\<close>

text \<open>Without an error code argument \<^verbatim>\<open>set_option\<close> throws on a socket that is not open.\<close>

definition BoostSession_Start :: "SessionWorld \<Rightarrow> SessionWorld res" where
  "BoostSession_Start w =
     (if \<not> bs_open w then Inl (Thrown ''boost::system::system_error'')
      else Inr (post RunReceive (w\<lparr>bs_noDelay := True, bs_linger := Some (True, 0)\<rparr>)))"

definition BoostSession_CloseSocket :: "SessionWorld \<Rightarrow> SessionWorld" where
  "BoostSession_CloseSocket w = w\<lparr>bs_open := False\<rparr>"

definition BoostSession_Receive :: "SessionWorld \<Rightarrow> SessionWorld" where
  "BoostSession_Receive w = w"

definition BoostSession_CompleteReceive :: "SessionWorld \<Rightarrow> ErrorCode \<Rightarrow> nat \<Rightarrow> SessionWorld" where
  "BoostSession_CompleteReceive w errorCode recvSize = w"

definition BoostSession_ProcessRecvPackets :: "SessionWorld \<Rightarrow> bool \<times> SessionWorld" where
  "BoostSession_ProcessRecvPackets w = (True, w)"

text \<open>\<^verbatim>\<open>Send\<close>: the block under the mutex, which yields \<open>isOverflow\<close> and \<open>needFlush\<close>, and the rest.\<close>

definition Send_lock :: "SessionWorld \<Rightarrow> SendBuffer option \<Rightarrow> bool \<times> bool \<times> SessionWorld" where
  "Send_lock w sendBuffer =
     (if unat kMaxSendQueueSize \<le> length (bs_sendQueue w) then (True, False, w)
      else (False, \<not> bs_isSending w,
            w\<lparr>bs_sendQueue := bs_sendQueue w @ [sendBuffer], bs_isSending := True\<rparr>))"

definition Send_post :: "bool \<Rightarrow> bool \<Rightarrow> SessionWorld \<Rightarrow> bool \<times> SessionWorld" where
  "Send_post isOverflow needFlush w =
     (if isOverflow then (False, post RunCloseSocket w)
      else if needFlush then (True, post RunFlushSendQueue w)
      else (True, w))"

definition BoostSession_Send ::
  "build \<Rightarrow> SessionWorld \<Rightarrow> SendBuffer option \<Rightarrow> (bool \<times> SessionWorld) res" where
  "BoostSession_Send b w sendBuffer =
     ASSERT b (sendBuffer \<noteq> None) ''Send buffer is null''
       (case Send_lock w sendBuffer of
          (isOverflow, needFlush, w1) \<Rightarrow> Inr (Send_post isOverflow needFlush w1))"

text \<open>
  \<^verbatim>\<open>FlushSendQueue\<close>: the block under the mutex, which tells whether there is something to write,
  and the start of the gathered write, which dereferences every queued pointer.
\<close>

definition Flush_lock :: "SessionWorld \<Rightarrow> bool \<times> SessionWorld" where
  "Flush_lock w =
     (if bs_sendQueue w = [] then (False, w\<lparr>bs_isSending := False\<rparr>)
      else (True, w\<lparr>bs_sendingBuffers := bs_sendQueue w, bs_sendQueue := bs_sendingBuffers w\<rparr>))"

definition buffers_bytes :: "SendBuffer option list \<Rightarrow> BYTE list" where
  "buffers_bytes bufs = concat (map (\<lambda>sb. case sb of None \<Rightarrow> [] | Some sb \<Rightarrow> span_bytes sb) bufs)"

definition Flush_write :: "SessionWorld \<Rightarrow> SessionWorld res" where
  "Flush_write w =
     (if None \<in> set (bs_sendingBuffers w) then Inl NullDeref
      else Inr (w\<lparr>sw_writes := sw_writes w @ [buffers_bytes (bs_sendingBuffers w)]\<rparr>))"

definition BoostSession_FlushSendQueue :: "SessionWorld \<Rightarrow> SessionWorld res" where
  "BoostSession_FlushSendQueue w =
     (case Flush_lock w of
        (False, w1) \<Rightarrow> Inr w1
      | (True, w1) \<Rightarrow> Flush_write w1)"

text \<open>\<^verbatim>\<open>CompleteSend\<close>: before the mutex, and the block under it on the error path.\<close>

definition CompleteSend_clear :: "SessionWorld \<Rightarrow> SessionWorld" where
  "CompleteSend_clear w = w\<lparr>bs_sendingBuffers := []\<rparr>"

definition CompleteSend_error :: "SessionWorld \<Rightarrow> SessionWorld" where
  "CompleteSend_error w = w\<lparr>bs_sendQueue := [], bs_isSending := False\<rparr>"

definition BoostSession_CompleteSend :: "SessionWorld \<Rightarrow> ErrorCode \<Rightarrow> SessionWorld res" where
  "BoostSession_CompleteSend w errorCode =
     (let w1 = CompleteSend_clear w
      in if errorCode \<noteq> None then Inr (BoostSession_CloseSocket (CompleteSend_error w1))
         else BoostSession_FlushSendQueue w1)"

definition run_task :: "task \<Rightarrow> SessionWorld \<Rightarrow> SessionWorld res" where
  "run_task t w =
     (case t of
        RunReceive \<Rightarrow> Inr (BoostSession_Receive w)
      | RunCloseSocket \<Rightarrow> Inr (BoostSession_CloseSocket w)
      | RunFlushSendQueue \<Rightarrow> BoostSession_FlushSendQueue w
      | RunCompleteSend ec \<Rightarrow> BoostSession_CompleteSend w ec)"

section \<open>Interleavings\<close>

text \<open>
  A thread between two blocks: in \<^verbatim>\<open>Send\<close> after the mutex, in \<^verbatim>\<open>FlushSendQueue\<close> after the swap,
  in \<^verbatim>\<open>CompleteSend\<close> after the clear, and before its \<^verbatim>\<open>CloseSocket\<close>. The system records, for the
  statements only, the buffers \<^verbatim>\<open>Send\<close> accepted and whether a write has failed.
\<close>

datatype pc = InSend bool bool | InFlush | InComplete ErrorCode | InClose

record SessionSys =
  sy_world :: SessionWorld
  sy_threads :: "pc list"
  sy_accepted :: "SendBuffer option list"
  sy_failed :: bool

datatype sy_event =
    EvSend SendBuffer
  | EvThread pc
  | EvTask task
  | EvTransmit nat nat
  | EvWriteDone nat
  | EvWriteFail nat string
  | EvCloseSocket

definition begin_flush :: "SessionSys \<Rightarrow> SessionSys" where
  "begin_flush s =
     (case Flush_lock (sy_world s) of
        (False, w1) \<Rightarrow> s\<lparr>sy_world := w1\<rparr>
      | (True, w1) \<Rightarrow> s\<lparr>sy_world := w1, sy_threads := sy_threads s @ [InFlush]\<rparr>)"

fun resume :: "pc \<Rightarrow> SessionSys \<Rightarrow> SessionSys option" where
  "resume (InSend isOverflow needFlush) s =
     Some (s\<lparr>sy_world := snd (Send_post isOverflow needFlush (sy_world s))\<rparr>)"
| "resume InFlush s =
     (case Flush_write (sy_world s) of Inl _ \<Rightarrow> None | Inr w \<Rightarrow> Some (s\<lparr>sy_world := w\<rparr>))"
| "resume (InComplete None) s = Some (begin_flush s)"
| "resume (InComplete (Some e)) s =
     Some (s\<lparr>sy_world := CompleteSend_error (sy_world s), sy_threads := sy_threads s @ [InClose]\<rparr>)"
| "resume InClose s = Some (s\<lparr>sy_world := BoostSession_CloseSocket (sy_world s)\<rparr>)"

fun start_task :: "task \<Rightarrow> SessionSys \<Rightarrow> SessionSys" where
  "start_task RunReceive s = s\<lparr>sy_world := BoostSession_Receive (sy_world s)\<rparr>"
| "start_task RunCloseSocket s = s\<lparr>sy_world := BoostSession_CloseSocket (sy_world s)\<rparr>"
| "start_task RunFlushSendQueue s = begin_flush s"
| "start_task (RunCompleteSend ec) s =
     s\<lparr>sy_world := CompleteSend_clear (sy_world s), sy_threads := sy_threads s @ [InComplete ec]\<rparr>"

definition drop_nth :: "nat \<Rightarrow> 'a list \<Rightarrow> 'a list" where
  "drop_nth i xs = take i xs @ drop (Suc i) xs"

text \<open>\<open>None\<close>: the event is not possible now.\<close>

fun sy_do :: "SessionSys \<Rightarrow> sy_event \<Rightarrow> SessionSys option" where
  "sy_do s (EvSend sb) =
     (case Send_lock (sy_world s) (Some sb) of
        (isOverflow, needFlush, w) \<Rightarrow>
          Some (s\<lparr>sy_world := w, sy_threads := sy_threads s @ [InSend isOverflow needFlush],
                  sy_accepted := (if isOverflow then sy_accepted s else sy_accepted s @ [Some sb])\<rparr>))"
| "sy_do s (EvThread p) =
     (if p \<in> set (sy_threads s) then resume p (s\<lparr>sy_threads := remove1 p (sy_threads s)\<rparr>) else None)"
| "sy_do s (EvTask t) =
     (if t \<in> set (sw_tasks (sy_world s))
      then Some (start_task t (s\<lparr>sy_world := (sy_world s)\<lparr>sw_tasks := remove1 t (sw_tasks (sy_world s))\<rparr>\<rparr>))
      else None)"
| "sy_do s (EvTransmit i n) =
     (let w = sy_world s
      in if i < length (sw_writes w) \<and> bs_open w \<and> n \<le> length (sw_writes w ! i)
         then Some (s\<lparr>sy_world := w\<lparr>sw_wire := sw_wire w @ take n (sw_writes w ! i),
                                  sw_writes := (sw_writes w)[i := drop n (sw_writes w ! i)]\<rparr>\<rparr>)
         else None)"
| "sy_do s (EvWriteDone i) =
     (let w = sy_world s
      in if i < length (sw_writes w) \<and> sw_writes w ! i = []
         then Some (s\<lparr>sy_world := post (RunCompleteSend None) (w\<lparr>sw_writes := drop_nth i (sw_writes w)\<rparr>)\<rparr>)
         else None)"
| "sy_do s (EvWriteFail i e) =
     (let w = sy_world s
      in if i < length (sw_writes w)
         then Some (s\<lparr>sy_world := post (RunCompleteSend (Some e)) (w\<lparr>sw_writes := drop_nth i (sw_writes w)\<rparr>),
                      sy_failed := True\<rparr>)
         else None)"
| "sy_do s EvCloseSocket = Some (s\<lparr>sy_world := BoostSession_CloseSocket (sy_world s)\<rparr>)"

inductive sy_step :: "SessionSys \<Rightarrow> SessionSys \<Rightarrow> bool" where
  sy_stepI: "sy_do s ev = Some t \<Longrightarrow> sy_step s t"

inductive_cases sy_stepE: "sy_step s t"

text \<open>A connected session: constructed, with an open socket.\<close>

definition sy_init :: "SessionSys \<Rightarrow> bool" where
  "sy_init s \<longleftrightarrow> (\<exists>b e i w. BoostSession_new b e i = Inr w \<and>
     s = \<lparr>sy_world = w\<lparr>bs_open := True\<rparr>, sy_threads = [], sy_accepted = [], sy_failed = False\<rparr>)"

fun sy_run :: "SessionSys \<Rightarrow> sy_event list \<Rightarrow> SessionSys option" where
  "sy_run s [] = Some s"
| "sy_run s (ev # evs) = (case sy_do s ev of None \<Rightarrow> None | Some t \<Rightarrow> sy_run t evs)"

end
