(* ===== verification/Boost_Session_Inv.thy ===== *)
theory Boost_Session_Inv
  imports Boost_Session
begin

text \<open>
  The sending chain of a session: where the one flush that may be under way stands. The
  invariant says that the tasks, threads and writes of a reachable state belong to one stage,
  and relates the accepted bytes to those written, under way and queued. Then the properties of
  the session.
\<close>

section \<open>Stages\<close>

datatype stage =
    Idle | Posting | Queued | Swapped | Writing "BYTE list" | Written ErrorCode | Cleared ErrorCode

fun chain_pc :: "pc \<Rightarrow> bool" where
  "chain_pc (InSend isOverflow needFlush) \<longleftrightarrow> needFlush"
| "chain_pc InClose \<longleftrightarrow> False"
| "chain_pc _ \<longleftrightarrow> True"

fun chain_task :: "task \<Rightarrow> bool" where
  "chain_task RunFlushSendQueue \<longleftrightarrow> True"
| "chain_task (RunCompleteSend _) \<longleftrightarrow> True"
| "chain_task _ \<longleftrightarrow> False"

fun stage_pcs :: "stage \<Rightarrow> pc list" where
  "stage_pcs Posting = [InSend False True]"
| "stage_pcs Swapped = [InFlush]"
| "stage_pcs (Cleared ec) = [InComplete ec]"
| "stage_pcs _ = []"

fun stage_tasks :: "stage \<Rightarrow> task list" where
  "stage_tasks Queued = [RunFlushSendQueue]"
| "stage_tasks (Written ec) = [RunCompleteSend ec]"
| "stage_tasks _ = []"

fun stage_writes :: "stage \<Rightarrow> BYTE list list" where
  "stage_writes (Writing r) = [r]"
| "stage_writes _ = []"

text \<open>What \<open>m_sendingBuffers\<close> holds in each stage, and the bytes that are neither out nor queued.\<close>

fun sending_ok :: "stage \<Rightarrow> SendBuffer option list \<Rightarrow> bool" where
  "sending_ok (Writing r) bufs \<longleftrightarrow> bufs \<noteq> [] \<and> (\<exists>sent. buffers_bytes bufs = sent @ r)"
| "sending_ok Swapped bufs \<longleftrightarrow> bufs \<noteq> []"
| "sending_ok (Written _) bufs \<longleftrightarrow> bufs \<noteq> []"
| "sending_ok _ bufs \<longleftrightarrow> bufs = []"

fun under_way :: "stage \<Rightarrow> SendBuffer option list \<Rightarrow> BYTE list" where
  "under_way Swapped bufs = buffers_bytes bufs"
| "under_way (Writing r) bufs = r"
| "under_way _ bufs = []"

fun failing :: "stage \<Rightarrow> bool" where
  "failing (Written ec) \<longleftrightarrow> ec \<noteq> None"
| "failing (Cleared ec) \<longleftrightarrow> ec \<noteq> None"
| "failing _ \<longleftrightarrow> False"

definition flow_ok :: "SessionSys \<Rightarrow> stage \<Rightarrow> bool" where
  "flow_ok s st \<longleftrightarrow>
     filter chain_pc (sy_threads s) = stage_pcs st \<and>
     filter chain_task (sw_tasks (sy_world s)) = stage_tasks st \<and>
     sw_writes (sy_world s) = stage_writes st \<and>
     (bs_isSending (sy_world s) \<longleftrightarrow> st \<noteq> Idle) \<and>
     (st = Idle \<longrightarrow> bs_sendQueue (sy_world s) = []) \<and>
     sending_ok st (bs_sendingBuffers (sy_world s)) \<and>
     (failing st \<longrightarrow> sy_failed s)"

definition data_ok :: "SessionSys \<Rightarrow> stage \<Rightarrow> bool" where
  "data_ok s st \<longleftrightarrow>
     length (bs_sendQueue (sy_world s)) \<le> 1024 \<and>
     length (bs_sendingBuffers (sy_world s)) \<le> 1024 \<and>
     None \<notin> set (bs_sendQueue (sy_world s)) \<and> None \<notin> set (bs_sendingBuffers (sy_world s)) \<and>
     InSend True True \<notin> set (sy_threads s) \<and>
     (\<not> sy_failed s \<longrightarrow> buffers_bytes (sy_accepted s) =
        sw_wire (sy_world s) @ under_way st (bs_sendingBuffers (sy_world s)) @
        buffers_bytes (bs_sendQueue (sy_world s)))"

definition session_inv :: "SessionSys \<Rightarrow> bool" where
  "session_inv s \<longleftrightarrow> (\<exists>st. flow_ok s st \<and> data_ok s st)"

lemma buffers_bytes_simps [simp]:
  "buffers_bytes [] = []"
  "buffers_bytes (xs @ ys) = buffers_bytes xs @ buffers_bytes ys"
  "buffers_bytes (Some sb # xs) = sb_data sb @ buffers_bytes xs"
  by (simp_all add: buffers_bytes_def)

lemma filter_remove1_keep: "\<not> P x \<Longrightarrow> filter P (remove1 x xs) = filter P xs"
  by (induction xs) auto

lemma filter_remove1_drop: "P x \<Longrightarrow> filter P xs = [x] \<Longrightarrow> filter P (remove1 x xs) = []"
  by (metis filter_remove1 remove1.simps(2))

text \<open>A thread or task of the chain that is there tells the stage.\<close>

lemma chain_pc_stage:
  assumes "flow_ok s st" "p \<in> set (sy_threads s)" "chain_pc p"
  shows "stage_pcs st = [p]"
proof -
  have "p \<in> set (filter chain_pc (sy_threads s))"
    using assms by simp
  moreover have "filter chain_pc (sy_threads s) = stage_pcs st"
    using assms(1) by (simp add: flow_ok_def)
  ultimately have "p \<in> set (stage_pcs st)" by (simp only:)
  then show ?thesis by (cases st) auto
qed

lemma chain_task_stage:
  assumes "flow_ok s st" "t \<in> set (sw_tasks (sy_world s))" "chain_task t"
  shows "stage_tasks st = [t]"
proof -
  have "t \<in> set (filter chain_task (sw_tasks (sy_world s)))"
    using assms by simp
  moreover have "filter chain_task (sw_tasks (sy_world s)) = stage_tasks st"
    using assms(1) by (simp add: flow_ok_def)
  ultimately have "t \<in> set (stage_tasks st)" by (simp only:)
  then show ?thesis by (cases st) auto
qed

lemma stage_pcs_cases:
  "stage_pcs st = [p] \<Longrightarrow> (st = Posting \<and> p = InSend False True) \<or> (st = Swapped \<and> p = InFlush) \<or>
     (\<exists>ec. st = Cleared ec \<and> p = InComplete ec)"
  by (cases st) auto

lemma stage_tasks_cases:
  "stage_tasks st = [t] \<Longrightarrow> (st = Queued \<and> t = RunFlushSendQueue) \<or>
     (\<exists>ec. st = Written ec \<and> t = RunCompleteSend ec)"
  by (cases st) auto

section \<open>Every event keeps the invariant\<close>

lemma begin_flush_stage:
  assumes "filter chain_pc (sy_threads s) = []" "filter chain_task (sw_tasks (sy_world s)) = []"
    and "sw_writes (sy_world s) = []" "bs_sendingBuffers (sy_world s) = []"
    and "data_ok s Queued" "bs_isSending (sy_world s)"
  defines "st \<equiv> if bs_sendQueue (sy_world s) = [] then Idle else Swapped"
  shows "flow_ok (begin_flush s) st \<and> data_ok (begin_flush s) st"
proof (cases "bs_sendQueue (sy_world s) = []")
  case True
  with assms show ?thesis
    by (simp add: begin_flush_def Flush_lock_def flow_ok_def data_ok_def)
next
  case False
  with assms show ?thesis
    by (auto simp: begin_flush_def Flush_lock_def flow_ok_def data_ok_def)
qed

lemma begin_flush_keeps:
  "bs_open (sy_world (begin_flush s)) = bs_open (sy_world s) \<and> sy_failed (begin_flush s) = sy_failed s \<and>
   sy_accepted (begin_flush s) = sy_accepted s \<and>
   (bs_sendingBuffers (sy_world s) = [] \<longrightarrow> bs_sendQueue (sy_world (begin_flush s)) = [])"
  by (simp add: begin_flush_def Flush_lock_def)

lemma send_inv:
  assumes "session_inv s" "sy_do s (EvSend sb) = Some t"
  shows "session_inv t"
proof -
  from assms(1) obtain st where st: "flow_ok s st" "data_ok s st"
    unfolding session_inv_def by blast
  have cap: "unat kMaxSendQueueSize = 1024" by (simp add: kMaxSendQueueSize_def)
  show ?thesis
  proof (cases "1024 \<le> length (bs_sendQueue (sy_world s))")
    case True
    with assms(2) cap have t: "t = s\<lparr>sy_threads := sy_threads s @ [InSend True False]\<rparr>"
      by (simp add: Send_lock_def)
    have "flow_ok t st" using st(1) by (simp add: t flow_ok_def)
    moreover have "data_ok t st" using st(2) by (simp add: t data_ok_def)
    ultimately show ?thesis unfolding session_inv_def by blast
  next
    case False
    let ?w = "(sy_world s)\<lparr>bs_sendQueue := bs_sendQueue (sy_world s) @ [Some sb], bs_isSending := True\<rparr>"
    from False assms(2) cap have t: "t = s\<lparr>sy_world := ?w,
        sy_threads := sy_threads s @ [InSend False (\<not> bs_isSending (sy_world s))],
        sy_accepted := sy_accepted s @ [Some sb]\<rparr>"
      by (simp add: Send_lock_def)
    have d: "data_ok t st" using st(2) False by (simp add: t data_ok_def)
    show ?thesis
    proof (cases "st = Idle")
      case True
      from st(1) have "flow_ok t Posting" by (simp add: t True flow_ok_def)
      moreover have "data_ok t Posting" using d by (simp add: True data_ok_def)
      ultimately show ?thesis unfolding session_inv_def by blast
    next
      case False
      with st(1) have "flow_ok t st" by (simp add: t flow_ok_def)
      with d show ?thesis unfolding session_inv_def by blast
    qed
  qed
qed

lemma remove1_notin: "x \<notin> set xs \<Longrightarrow> x \<notin> set (remove1 y xs)"
  by (meson notin_set_remove1)

text \<open>The steps of the chain, each with the stage it leads to.\<close>

lemma chain_rest:
  assumes "flow_ok s st" "stage_pcs st = [p]" "chain_pc p"
  shows "filter chain_pc (remove1 p (sy_threads s)) = []"
  using assms by (intro filter_remove1_drop) (auto simp: flow_ok_def)

lemma task_rest:
  assumes "flow_ok s st" "stage_tasks st = [k]" "chain_task k"
  shows "filter chain_task (remove1 k (sw_tasks (sy_world s))) = []"
  using assms by (intro filter_remove1_drop) (auto simp: flow_ok_def)

lemma posting_step:
  assumes "flow_ok s Posting" "data_ok s Posting"
    and "resume (InSend False True) (s\<lparr>sy_threads := remove1 (InSend False True) (sy_threads s)\<rparr>) = Some t"
  shows "flow_ok t Queued \<and> data_ok t Queued"
proof -
  from assms(3) have t: "t = s\<lparr>sy_threads := remove1 (InSend False True) (sy_threads s),
      sy_world := post RunFlushSendQueue (sy_world s)\<rparr>"
    by (simp add: Send_post_def)
  have "flow_ok t Queued"
    using assms(1) chain_rest[OF assms(1), of "InSend False True"] by (simp add: t post_def flow_ok_def)
  moreover have "data_ok t Queued"
    using assms(2) by (simp add: t post_def data_ok_def remove1_notin)
  ultimately show ?thesis by simp
qed

lemma swapped_step:
  assumes "flow_ok s Swapped" "data_ok s Swapped"
  defines "r \<equiv> buffers_bytes (bs_sendingBuffers (sy_world s))"
  shows "\<exists>t. resume InFlush (s\<lparr>sy_threads := remove1 InFlush (sy_threads s)\<rparr>) = Some t \<and>
    flow_ok t (Writing r) \<and> data_ok t (Writing r) \<and>
    bs_open (sy_world t) = bs_open (sy_world s) \<and> sy_failed t = sy_failed s \<and>
    sy_accepted t = sy_accepted s \<and> bs_sendQueue (sy_world t) = bs_sendQueue (sy_world s)"
proof -
  let ?t = "s\<lparr>sy_threads := remove1 InFlush (sy_threads s),
      sy_world := (sy_world s)\<lparr>sw_writes := sw_writes (sy_world s) @ [r]\<rparr>\<rparr>"
  have "resume InFlush (s\<lparr>sy_threads := remove1 InFlush (sy_threads s)\<rparr>) = Some ?t"
    using assms(2) by (simp add: Flush_write_def data_ok_def r_def)
  moreover have "flow_ok ?t (Writing r)"
    using assms(1) chain_rest[OF assms(1), of InFlush] by (simp add: flow_ok_def r_def)
  moreover have "data_ok ?t (Writing r)"
    using assms(2) by (simp add: data_ok_def r_def remove1_notin)
  ultimately show ?thesis by (intro exI[of _ ?t]) simp
qed

lemma cleared_error_step:
  assumes "flow_ok s (Cleared (Some e))" "data_ok s (Cleared (Some e))"
    and "resume (InComplete (Some e)) (s\<lparr>sy_threads := remove1 (InComplete (Some e)) (sy_threads s)\<rparr>) = Some t"
  shows "flow_ok t Idle \<and> data_ok t Idle"
proof -
  from assms(3) have t: "t = s\<lparr>sy_threads := remove1 (InComplete (Some e)) (sy_threads s) @ [InClose],
      sy_world := CompleteSend_error (sy_world s)\<rparr>" by auto
  have "flow_ok t Idle"
    using assms(1) chain_rest[OF assms(1), of "InComplete (Some e)"]
    by (simp add: t CompleteSend_error_def flow_ok_def)
  moreover have "data_ok t Idle"
    using assms(1,2) by (simp add: t CompleteSend_error_def data_ok_def flow_ok_def remove1_notin)
  ultimately show ?thesis by simp
qed

lemma cleared_step:
  assumes "flow_ok s (Cleared None)" "data_ok s (Cleared None)"
  defines "t \<equiv> begin_flush (s\<lparr>sy_threads := remove1 (InComplete None) (sy_threads s)\<rparr>)"
    and "st \<equiv> if bs_sendQueue (sy_world s) = [] then Idle else Swapped"
  shows "flow_ok t st \<and> data_ok t st"
  unfolding t_def st_def
  using begin_flush_stage[of "s\<lparr>sy_threads := remove1 (InComplete None) (sy_threads s)\<rparr>"]
    chain_rest[OF assms(1), of "InComplete None"] assms(1,2)
  by (simp add: flow_ok_def data_ok_def remove1_notin)

lemma thread_inv:
  assumes "session_inv s" "sy_do s (EvThread p) = Some t"
  shows "session_inv t"
proof -
  from assms(1) obtain st where st: "flow_ok s st" "data_ok s st"
    unfolding session_inv_def by blast
  from assms(2) have p: "p \<in> set (sy_threads s)"
    and t: "resume p (s\<lparr>sy_threads := remove1 p (sy_threads s)\<rparr>) = Some t"
    by (auto split: if_splits)
  show ?thesis
  proof (cases "chain_pc p")
    case False
    then consider ov where "p = InSend ov False" | "p = InClose"
      by (cases p) auto
    then have t': "sy_threads t = remove1 p (sy_threads s)" "sy_accepted t = sy_accepted s"
      "sy_failed t = sy_failed s"
      "sy_world t = sy_world s \<or> sy_world t = post RunCloseSocket (sy_world s) \<or>
       sy_world t = BoostSession_CloseSocket (sy_world s)"
      using t by (cases; auto simp: Send_post_def)+
    let ?w = "sy_world t"
    have threads: "filter chain_pc (sy_threads t) = filter chain_pc (sy_threads s)"
      "InSend True True \<notin> set (sy_threads s) \<Longrightarrow> InSend True True \<notin> set (sy_threads t)"
      using False by (simp_all add: t' filter_remove1_keep remove1_notin)
    have world: "filter chain_task (sw_tasks ?w) = filter chain_task (sw_tasks (sy_world s))"
      "sw_writes ?w = sw_writes (sy_world s)" "bs_isSending ?w = bs_isSending (sy_world s)"
      "bs_sendQueue ?w = bs_sendQueue (sy_world s)" "sw_wire ?w = sw_wire (sy_world s)"
      "bs_sendingBuffers ?w = bs_sendingBuffers (sy_world s)"
      using t'(4) by (elim disjE; simp add: post_def BoostSession_CloseSocket_def)+
    have "flow_ok t st"
      using st(1) threads(1) world unfolding flow_ok_def by (simp add: t')
    moreover have "data_ok t st"
      using st(2) threads(2) world unfolding data_ok_def by (simp add: t')
    ultimately have "flow_ok t st \<and> data_ok t st" by blast
    then show ?thesis unfolding session_inv_def by blast
  next
    case True
    from chain_pc_stage[OF st(1) p True] have sp: "stage_pcs st = [p]" .
    from stage_pcs_cases[OF sp] consider "st = Posting" "p = InSend False True"
      | "st = Swapped" "p = InFlush" | "st = Cleared None" "p = InComplete None"
      | e where "st = Cleared (Some e)" "p = InComplete (Some e)"
      by (metis option.exhaust)
    then have "\<exists>st'. flow_ok t st' \<and> data_ok t st'"
    proof cases
      case 1 with st t posting_step show ?thesis by blast
    next
      case 2 with st t swapped_step show ?thesis by (metis option.inject)
    next
      case 3 with st t cleared_step show ?thesis by (metis option.inject resume.simps(3))
    next
      case 4 with st t cleared_error_step show ?thesis by blast
    qed
    then show ?thesis unfolding session_inv_def by blast
  qed
qed

abbreviation without_task :: "task \<Rightarrow> SessionSys \<Rightarrow> SessionSys" where
  "without_task k s \<equiv> s\<lparr>sy_world := (sy_world s)\<lparr>sw_tasks := remove1 k (sw_tasks (sy_world s))\<rparr>\<rparr>"

lemma queued_step:
  assumes "flow_ok s Queued" "data_ok s Queued"
  defines "t \<equiv> start_task RunFlushSendQueue (without_task RunFlushSendQueue s)"
    and "st \<equiv> if bs_sendQueue (sy_world s) = [] then Idle else Swapped"
  shows "flow_ok t st \<and> data_ok t st"
  unfolding t_def st_def
  using begin_flush_stage[of "without_task RunFlushSendQueue s"]
    task_rest[OF assms(1), of RunFlushSendQueue] assms(1,2)
  by (simp add: flow_ok_def data_ok_def)

lemma written_step:
  assumes "flow_ok s (Written ec)" "data_ok s (Written ec)"
  defines "t \<equiv> start_task (RunCompleteSend ec) (without_task (RunCompleteSend ec) s)"
  shows "flow_ok t (Cleared ec) \<and> data_ok t (Cleared ec)"
proof
  show "flow_ok t (Cleared ec)"
    using assms(1) task_rest[OF assms(1), of "RunCompleteSend ec"]
    by (simp add: t_def CompleteSend_clear_def flow_ok_def)
  show "data_ok t (Cleared ec)"
    using assms(2) by (simp add: t_def CompleteSend_clear_def data_ok_def)
qed

lemma task_inv:
  assumes "session_inv s" "sy_do s (EvTask k) = Some t"
  shows "session_inv t"
proof -
  from assms(1) obtain st where st: "flow_ok s st" "data_ok s st"
    unfolding session_inv_def by blast
  let ?s = "s\<lparr>sy_world := (sy_world s)\<lparr>sw_tasks := remove1 k (sw_tasks (sy_world s))\<rparr>\<rparr>"
  from assms(2) have k: "k \<in> set (sw_tasks (sy_world s))" and t: "t = start_task k ?s"
    by (auto split: if_splits)
  show ?thesis
  proof (cases "chain_task k")
    case False
    with st t have "flow_ok t st \<and> data_ok t st"
      by (cases k) (auto simp: BoostSession_CloseSocket_def BoostSession_Receive_def flow_ok_def data_ok_def
          filter_remove1_keep)
    then show ?thesis unfolding session_inv_def by blast
  next
    case True
    from chain_task_stage[OF st(1) k True] have sp: "stage_tasks st = [k]" .
    from stage_tasks_cases[OF sp] consider "st = Queued" "k = RunFlushSendQueue"
      | ec where "st = Written ec" "k = RunCompleteSend ec" by blast
    then have "\<exists>st'. flow_ok t st' \<and> data_ok t st'"
    proof cases
      case 1 with st t queued_step show ?thesis by blast
    next
      case 2 with st t written_step show ?thesis by blast
    qed
    then show ?thesis unfolding session_inv_def by blast
  qed
qed

lemma write_stage:
  assumes "flow_ok s st" "i < length (sw_writes (sy_world s))"
  shows "\<exists>r. st = Writing r \<and> i = 0 \<and> sw_writes (sy_world s) = [r]"
  using assms by (cases st) (auto simp: flow_ok_def)

lemma transmit_step:
  assumes "flow_ok s (Writing r)" "data_ok s (Writing r)" "bs_open (sy_world s)" "n \<le> length r"
  defines "t \<equiv> s\<lparr>sy_world := (sy_world s)\<lparr>sw_wire := sw_wire (sy_world s) @ take n r,
      sw_writes := [drop n r]\<rparr>\<rparr>"
  shows "sy_do s (EvTransmit 0 n) = Some t \<and> flow_ok t (Writing (drop n r)) \<and> data_ok t (Writing (drop n r))"
proof (intro conjI)
  have w: "sw_writes (sy_world s) = [r]"
    using assms(1) by (simp add: flow_ok_def)
  with assms(3,4) show "sy_do s (EvTransmit 0 n) = Some t"
    by (simp add: t_def Let_def)
  have "\<exists>sent'. sent @ r = sent' @ drop n r" for sent
    by (metis append.assoc append_take_drop_id)
  with assms(1) show "flow_ok t (Writing (drop n r))"
    by (auto simp: t_def flow_ok_def)
  show "data_ok t (Writing (drop n r))"
    using assms(2) by (simp add: t_def data_ok_def)
qed

lemma done_step:
  assumes "flow_ok s (Writing [])" "data_ok s (Writing [])"
  defines "t \<equiv> s\<lparr>sy_world := post (RunCompleteSend None) ((sy_world s)\<lparr>sw_writes := []\<rparr>)\<rparr>"
  shows "sy_do s (EvWriteDone 0) = Some t \<and> flow_ok t (Written None) \<and> data_ok t (Written None)"
proof (intro conjI)
  have "sw_writes (sy_world s) = [[]]"
    using assms(1) by (simp add: flow_ok_def)
  then show "sy_do s (EvWriteDone 0) = Some t"
    by (simp add: t_def Let_def drop_nth_def)
  show "flow_ok t (Written None)"
    using assms(1) by (auto simp: t_def post_def flow_ok_def)
  show "data_ok t (Written None)"
    using assms(2) by (simp add: t_def post_def data_ok_def)
qed

lemma fail_step:
  assumes "flow_ok s (Writing r)" "data_ok s (Writing r)" "sy_do s (EvWriteFail 0 e) = Some t"
  shows "flow_ok t (Written (Some e)) \<and> data_ok t (Written (Some e))"
proof -
  have "sw_writes (sy_world s) = [r]"
    using assms(1) by (simp add: flow_ok_def)
  with assms(3) have t: "t = s\<lparr>sy_world := post (RunCompleteSend (Some e)) ((sy_world s)\<lparr>sw_writes := []\<rparr>),
      sy_failed := True\<rparr>" by (simp add: Let_def drop_nth_def)
  have "flow_ok t (Written (Some e))"
    using assms(1) by (auto simp: t post_def flow_ok_def)
  moreover have "data_ok t (Written (Some e))"
    using assms(2) by (simp add: t post_def data_ok_def)
  ultimately show ?thesis by simp
qed

lemma write_inv:
  assumes "session_inv s" "sy_do s ev = Some t"
    and "ev = EvTransmit i n \<or> ev = EvWriteDone i \<or> ev = EvWriteFail i e"
  shows "session_inv t"
proof -
  from assms(1) obtain st where st: "flow_ok s st" "data_ok s st"
    unfolding session_inv_def by blast
  from assms(2,3) have "i < length (sw_writes (sy_world s))"
    by (auto simp: Let_def split: if_splits)
  from write_stage[OF st(1) this] obtain r where r: "st = Writing r" "i = 0" "sw_writes (sy_world s) = [r]"
    by blast
  from assms(3) have "\<exists>st'. flow_ok t st' \<and> data_ok t st'"
  proof (elim disjE)
    assume ev: "ev = EvTransmit i n"
    with assms(2) r have "bs_open (sy_world s)" "n \<le> length r"
      by (auto simp: Let_def split: if_splits)
    from transmit_step[OF _ _ this] ev assms(2) r st show ?thesis by (metis option.inject)
  next
    assume ev: "ev = EvWriteDone i"
    with assms(2) r have "r = []"
      by (auto simp: Let_def split: if_splits)
    with done_step[of s] ev assms(2) r st show ?thesis by (metis option.inject)
  next
    assume "ev = EvWriteFail i e"
    with fail_step assms(2) r st show ?thesis by blast
  qed
  then show ?thesis unfolding session_inv_def by blast
qed

lemma event_inv:
  assumes "session_inv s" "sy_do s ev = Some t"
  shows "session_inv t"
proof (cases ev)
  case EvCloseSocket
  with assms show ?thesis
    by (auto simp: session_inv_def flow_ok_def data_ok_def BoostSession_CloseSocket_def)
qed (use assms send_inv thread_inv task_inv write_inv in blast)+

lemma init_inv: "sy_init s \<Longrightarrow> session_inv s"
proof -
  assume "sy_init s"
  then have "flow_ok s Idle \<and> data_ok s Idle"
    by (auto simp: sy_init_def BoostSession_new_def res_simps flow_ok_def data_ok_def)
  then show ?thesis unfolding session_inv_def by blast
qed

interpretation session_sys: invariant_system sy_init sy_step session_inv
  by unfold_locales (auto intro: init_inv event_inv elim: sy_stepE)

abbreviation session_reachable :: "SessionSys \<Rightarrow> bool" where
  "session_reachable \<equiv> reach sy_init sy_step"

lemma sy_run_reachable: "session_reachable s \<Longrightarrow> sy_run s evs = Some t \<Longrightarrow> session_reachable t"
proof (induction evs arbitrary: s)
  case (Cons ev evs)
  then obtain u where "sy_do s ev = Some u" "sy_run u evs = Some t" by (auto split: option.splits)
  with Cons show ?case by (meson reach_step sy_stepI)
qed simp

lemma sy_run_append:
  "sy_run s evs = Some t \<Longrightarrow> sy_run t evs' = Some u \<Longrightarrow> sy_run s (evs @ evs') = Some u"
  by (induction evs arbitrary: s) (auto split: option.splits)

end
