(* ===== verification/Boost_Session_Props.thy ===== *)
theory Boost_Session_Props
  imports Boost_Session_Inv
begin

text \<open>
  The properties of a session's send path, and the progress argument behind the last of them:
  without failures every event of the chain brings it nearer to its end.
\<close>

section \<open>Progress\<close>

fun rank :: "stage \<Rightarrow> nat" where
  "rank Idle = 0"
| "rank (Cleared _) = 1"
| "rank (Written _) = 2"
| "rank (Writing r) = (if r = [] then 3 else 4)"
| "rank Swapped = 5"
| "rank Queued = 6"
| "rank Posting = 7"

definition work :: "SessionSys \<Rightarrow> stage \<Rightarrow> nat" where
  "work s st = (if bs_sendQueue (sy_world s) = [] then 0 else 10) + rank st"

definition healthy :: "SessionSys \<Rightarrow> stage \<Rightarrow> bool" where
  "healthy s st \<longleftrightarrow> flow_ok s st \<and> data_ok s st \<and> bs_open (sy_world s) \<and> \<not> sy_failed s"

lemma chain_pc_there: "flow_ok s st \<Longrightarrow> p \<in> set (stage_pcs st) \<Longrightarrow> p \<in> set (sy_threads s)"
  by (metis filter_is_subset flow_ok_def subset_iff)

lemma chain_task_there: "flow_ok s st \<Longrightarrow> k \<in> set (stage_tasks st) \<Longrightarrow> k \<in> set (sw_tasks (sy_world s))"
  by (metis filter_is_subset flow_ok_def subset_iff)

lemma begin_flush_progress:
  assumes "bs_sendingBuffers (sy_world s) = []" "5 < rank st \<or> rank st = 1"
  shows "work (begin_flush s) (if bs_sendQueue (sy_world s) = [] then Idle else Swapped) <
    (if bs_sendQueue (sy_world s) = [] then 0 else 10) + rank st"
  using assms begin_flush_keeps[of s] by (auto simp: work_def)

lemma progress:
  assumes h: "healthy s st" and "st \<noteq> Idle"
  shows "\<exists>ev t st'. sy_do s ev = Some t \<and> healthy t st' \<and> sy_accepted t = sy_accepted s \<and> work t st' < work s st"
proof -
  from h have f: "flow_ok s st" and d: "data_ok s st" and o: "bs_open (sy_world s)" "\<not> sy_failed s"
    by (simp_all add: healthy_def)
  show ?thesis
  proof (cases st)
    case Posting
    from chain_pc_there[OF f] Posting have "InSend False True \<in> set (sy_threads s)" by simp
    then have "sy_do s (EvThread (InSend False True)) = Some (s\<lparr>sy_threads := remove1 (InSend False True) (sy_threads s),
        sy_world := post RunFlushSendQueue (sy_world s)\<rparr>)" (is "_ = Some ?t")
      by (simp add: Send_post_def)
    moreover have "flow_ok ?t Queued \<and> data_ok ?t Queued"
      using posting_step[of s ?t] f d Posting by (simp add: Send_post_def)
    ultimately show ?thesis
      using o Posting by (intro exI[of _ "EvThread (InSend False True)"] exI[of _ ?t] exI[of _ Queued])
        (simp add: healthy_def work_def post_def)
  next
    case Queued
    let ?t = "start_task RunFlushSendQueue (without_task RunFlushSendQueue s)"
    let ?st = "if bs_sendQueue (sy_world s) = [] then Idle else Swapped"
    from chain_task_there[OF f] Queued have "RunFlushSendQueue \<in> set (sw_tasks (sy_world s))" by simp
    then have "sy_do s (EvTask RunFlushSendQueue) = Some ?t" by simp
    moreover have "flow_ok ?t ?st \<and> data_ok ?t ?st"
      using queued_step f d Queued by blast
    moreover have "work ?t ?st < work s st"
      using begin_flush_progress[of "without_task RunFlushSendQueue s" Queued] f Queued
      by (simp add: work_def flow_ok_def)
    ultimately show ?thesis
      using o begin_flush_keeps[of "without_task RunFlushSendQueue s"]
      by (intro exI[of _ "EvTask RunFlushSendQueue"] exI[of _ ?t] exI[of _ ?st]) (simp add: healthy_def)
  next
    case Swapped
    from chain_pc_there[OF f] Swapped have "InFlush \<in> set (sy_threads s)" by simp
    with swapped_step[of s] f d Swapped obtain t r where t: "sy_do s (EvThread InFlush) = Some t"
      "flow_ok t (Writing r)" "data_ok t (Writing r)" "bs_open (sy_world t) = bs_open (sy_world s)"
      "sy_failed t = sy_failed s" "sy_accepted t = sy_accepted s" "bs_sendQueue (sy_world t) = bs_sendQueue (sy_world s)"
      by auto
    with o Swapped show ?thesis
      by (intro exI[of _ "EvThread InFlush"] exI[of _ t] exI[of _ "Writing r"]) (simp add: healthy_def work_def)
  next
    case (Writing r)
    show ?thesis
    proof (cases "r = []")
      case True
      with done_step[of s] f d Writing o show ?thesis
        by (intro exI[of _ "EvWriteDone 0"] exI[of _ "s\<lparr>sy_world := post (RunCompleteSend None) ((sy_world s)\<lparr>sw_writes := []\<rparr>)\<rparr>"]
            exI[of _ "Written None"]) (simp add: healthy_def work_def post_def)
    next
      case False
      with transmit_step[of s r "length r"] f d Writing o show ?thesis
        by (intro exI[of _ "EvTransmit 0 (length r)"] exI[of _ "s\<lparr>sy_world := (sy_world s)\<lparr>sw_wire := sw_wire (sy_world s) @ r,
            sw_writes := [[]]\<rparr>\<rparr>"] exI[of _ "Writing []"]) (simp add: healthy_def work_def)
    qed
  next
    case (Written ec)
    with f o have ec: "ec = None" by (auto simp: flow_ok_def)
    let ?t = "start_task (RunCompleteSend None) (without_task (RunCompleteSend None) s)"
    from chain_task_there[OF f] Written ec have "RunCompleteSend None \<in> set (sw_tasks (sy_world s))" by simp
    then have "sy_do s (EvTask (RunCompleteSend None)) = Some ?t" by simp
    moreover have "flow_ok ?t (Cleared None) \<and> data_ok ?t (Cleared None)"
      using written_step f d Written ec by blast
    ultimately show ?thesis
      using o Written by (intro exI[of _ "EvTask (RunCompleteSend None)"] exI[of _ ?t] exI[of _ "Cleared None"])
        (simp add: healthy_def work_def CompleteSend_clear_def)
  next
    case (Cleared ec)
    with f o have ec: "ec = None" by (auto simp: flow_ok_def)
    let ?s = "s\<lparr>sy_threads := remove1 (InComplete None) (sy_threads s)\<rparr>"
    let ?st = "if bs_sendQueue (sy_world s) = [] then Idle else Swapped"
    from chain_pc_there[OF f] Cleared ec have "InComplete None \<in> set (sy_threads s)" by simp
    then have "sy_do s (EvThread (InComplete None)) = Some (begin_flush ?s)" by simp
    moreover have "flow_ok (begin_flush ?s) ?st \<and> data_ok (begin_flush ?s) ?st"
      using cleared_step f d Cleared ec by blast
    moreover have "work (begin_flush ?s) ?st < work s st"
      using begin_flush_progress[of ?s "Cleared None"] f Cleared ec by (simp add: work_def flow_ok_def)
    ultimately show ?thesis
      using o begin_flush_keeps[of ?s]
      by (intro exI[of _ "EvThread (InComplete None)"] exI[of _ "begin_flush ?s"] exI[of _ ?st])
        (simp add: healthy_def)
  qed (use assms in simp)
qed

lemma healthy_drains:
  "healthy s st \<Longrightarrow>
   \<exists>evs t. sy_run s evs = Some t \<and> healthy t Idle \<and> sy_accepted t = sy_accepted s"
proof (induction "work s st" arbitrary: s st rule: less_induct)
  case less
  show ?case
  proof (cases "st = Idle")
    case True
    with less.prems show ?thesis
      by (intro exI[of _ "[]"] exI[of _ s]) simp
  next
    case False
    from progress[OF less.prems False] obtain ev t st' where
      t: "sy_do s ev = Some t" "healthy t st'" "sy_accepted t = sy_accepted s" "work t st' < work s st" by blast
    from less.hyps[OF t(4,2)] obtain evs u where
      "sy_run t evs = Some u" "healthy u Idle" "sy_accepted u = sy_accepted t" by blast
    with t show ?thesis
      by (intro exI[of _ "ev # evs"] exI[of _ u]) simp
  qed
qed

section \<open>Facts for the statements\<close>

lemma reachable_stage:
  assumes "session_reachable s"
  obtains st where "flow_ok s st" "data_ok s st"
  using session_sys.reach_inv[OF assms] by (auto simp: session_inv_def)

lemma flow_count:
  assumes "flow_ok s st"
  shows "length (filter chain_pc (sy_threads s)) + length (filter chain_task (sw_tasks (sy_world s))) +
    length (sw_writes (sy_world s)) = (if bs_isSending (sy_world s) then 1 else 0)"
  using assms by (cases st) (auto simp: flow_ok_def)

lemma flow_InFlush:
  assumes "flow_ok s st"
  shows "InFlush \<in> set (sy_threads s) \<longleftrightarrow> st = Swapped"
proof -
  have "InFlush \<in> set (sy_threads s) \<longleftrightarrow> InFlush \<in> set (stage_pcs st)"
    using assms chain_pc_there chain_pc_stage[OF assms, of InFlush] by force
  then show ?thesis by (cases st) auto
qed

lemma flow_under_way:
  assumes "flow_ok s st"
  shows "under_way st (bs_sendingBuffers (sy_world s)) =
    (if InFlush \<in> set (sy_threads s) then buffers_bytes (bs_sendingBuffers (sy_world s))
     else concat (sw_writes (sy_world s)))"
  using assms flow_InFlush[OF assms] by (cases st) (auto simp: flow_ok_def)

definition connected :: SessionSys where
  "connected = \<lparr>sy_world = \<lparr>bs_sessionID = 1, bs_netEngine = Some 0, bs_open = True, bs_noDelay = False,
      bs_linger = None, bs_sendQueue = [], bs_isSending = False, bs_sendingBuffers = [],
      sw_tasks = [], sw_writes = [], sw_wire = []\<rparr>,
     sy_threads = [], sy_accepted = [], sy_failed = False\<rparr>"

lemma connected_init: "sy_init connected"
proof -
  have "BoostSession_new Debug (Some 0) 1 = Inr ((sy_world connected)\<lparr>bs_open := False\<rparr>)"
    by (simp add: BoostSession_new_def connected_def)
  moreover have "connected = \<lparr>sy_world = ((sy_world connected)\<lparr>bs_open := False\<rparr>)\<lparr>bs_open := True\<rparr>,
      sy_threads = [], sy_accepted = [], sy_failed = False\<rparr>"
    by (simp add: connected_def)
  ultimately show "sy_init connected"
    unfolding sy_init_def by blast
qed

lemma connected_reachable: "session_reachable connected"
  by (rule reach_init) (rule connected_init)

lemmas session_eval = connected_def Send_lock_def Send_post_def post_def begin_flush_def Flush_lock_def
  Flush_write_def CompleteSend_clear_def CompleteSend_error_def BoostSession_CloseSocket_def Let_def
  drop_nth_def kMaxSendQueueSize_def

section \<open>Properties\<close>

text \<open>
  C8: (component \<^verbatim>\<open>BoostSession\<close>, invariant) However threads interleave, a session has at most
  one sending chain: the posted flushes, the threads inside the flush or the completion, the
  writes in progress and the completions to be run are together one if \<^verbatim>\<open>m_isSending\<close> is set and
  none if it is not. So writes never overlap on the socket. While a write is in progress,
  \<^verbatim>\<open>m_sendingBuffers\<close> keeps the buffers it reads; the queue never exceeds its limit, and a flush
  finds no null pointer.
\<close>
theorem session_one_sending_chain:
  assumes "session_reachable s"
  shows "length (filter chain_pc (sy_threads s)) + length (filter chain_task (sw_tasks (sy_world s))) +
      length (sw_writes (sy_world s)) = (if bs_isSending (sy_world s) then 1 else 0) \<and>
    (\<forall>r\<in>set (sw_writes (sy_world s)). \<exists>sent. buffers_bytes (bs_sendingBuffers (sy_world s)) = sent @ r) \<and>
    length (bs_sendQueue (sy_world s)) \<le> unat kMaxSendQueueSize \<and>
    is_ok (Flush_write (sy_world s))"
proof -
  obtain st where st: "flow_ok s st" "data_ok s st"
    using reachable_stage[OF assms] .
  have "\<exists>sent. buffers_bytes (bs_sendingBuffers (sy_world s)) = sent @ r"
    if "r \<in> set (sw_writes (sy_world s))" for r
    using st(1) that by (cases st) (auto simp: flow_ok_def)
  with flow_count[OF st(1)] st(2) show ?thesis
    by (simp add: data_ok_def kMaxSendQueueSize_def Flush_write_def)
qed

lemma session_one_sending_chain_witness:
  "\<exists>s. session_reachable s \<and> bs_isSending (sy_world s) \<and> length (sw_writes (sy_world s)) = 1 \<and>
     filter chain_pc (sy_threads s) = []"
proof -
  let ?evs = "[EvSend \<lparr>sb_data = [1, 2]\<rparr>, EvSend \<lparr>sb_data = [3]\<rparr>, EvThread (InSend False True),
     EvTask RunFlushSendQueue, EvThread InFlush]"
  have "\<exists>s. sy_run connected ?evs = Some s \<and> bs_isSending (sy_world s) \<and> length (sw_writes (sy_world s)) = 1"
    by (simp add: session_eval)
  then obtain s where s: "sy_run connected ?evs = Some s" "bs_isSending (sy_world s)" "length (sw_writes (sy_world s)) = 1"
    by blast
  have r: "session_reachable s"
    using sy_run_reachable[OF connected_reachable s(1)] .
  from session_one_sending_chain[OF r] s r show ?thesis by auto
qed

text \<open>
  C2: (component \<^verbatim>\<open>BoostSession\<close>, refinement) As long as no write has failed, a session is a
  reliable byte stream: the bytes of the accepted buffers, in the order \<^verbatim>\<open>Send\<close> accepted them,
  are exactly the bytes transmitted, followed by those of the batch under way, followed by those
  in the queue. Nothing is lost, repeated or reordered, whatever the interleaving.
\<close>
theorem session_delivers_in_order:
  assumes "session_reachable s" "\<not> sy_failed s"
  shows "buffers_bytes (sy_accepted s) =
    sw_wire (sy_world s) @
    (if InFlush \<in> set (sy_threads s) then buffers_bytes (bs_sendingBuffers (sy_world s))
     else concat (sw_writes (sy_world s))) @
    buffers_bytes (bs_sendQueue (sy_world s))"
proof -
  obtain st where st: "flow_ok s st" "data_ok s st"
    using reachable_stage[OF assms(1)] .
  with assms(2) flow_under_way[OF st(1)] show ?thesis
    by (simp add: data_ok_def)
qed

lemma session_delivers_in_order_witness:
  "\<exists>s. session_reachable s \<and> sw_wire (sy_world s) = [1] \<and>
     buffers_bytes (sy_accepted s) = [1] @ concat (sw_writes (sy_world s)) @ buffers_bytes (bs_sendQueue (sy_world s))"
proof -
  let ?evs = "[EvSend \<lparr>sb_data = [1, 2]\<rparr>, EvThread (InSend False True), EvTask RunFlushSendQueue,
     EvThread InFlush, EvTransmit 0 1, EvSend \<lparr>sb_data = [3]\<rparr>]"
  have "\<exists>s. sy_run connected ?evs = Some s \<and> sw_wire (sy_world s) = [1] \<and> \<not> sy_failed s \<and> InFlush \<notin> set (sy_threads s)"
    by (simp add: session_eval)
  then obtain s where s: "sy_run connected ?evs = Some s" "sw_wire (sy_world s) = [1]" "\<not> sy_failed s"
    "InFlush \<notin> set (sy_threads s)" by blast
  have r: "session_reachable s"
    using sy_run_reachable[OF connected_reachable s(1)] .
  from session_delivers_in_order[OF r s(3)] s r show ?thesis by auto
qed

text \<open>
  No accepted buffer is stuck: from every reachable
  state without failed write whose socket is open, running the handlers and threads that are
  there and letting the socket transmit leads to a state in which everything accepted has been
  transmitted and the session is idle again.
\<close>
theorem session_drains:
  assumes "session_reachable s" "\<not> sy_failed s" "bs_open (sy_world s)"
  shows "\<exists>evs t. sy_run s evs = Some t \<and> sy_accepted t = sy_accepted s \<and>
    sw_wire (sy_world t) = buffers_bytes (sy_accepted s) \<and>
    bs_sendQueue (sy_world t) = [] \<and> \<not> bs_isSending (sy_world t)"
proof -
  obtain st where "flow_ok s st" "data_ok s st"
    using reachable_stage[OF assms(1)] .
  with assms(2,3) have "healthy s st" by (simp add: healthy_def)
  from healthy_drains[OF this] obtain evs t where
    t: "sy_run s evs = Some t" "healthy t Idle" "sy_accepted t = sy_accepted s" by blast
  then have "sw_wire (sy_world t) = buffers_bytes (sy_accepted s)"
    by (auto simp: healthy_def flow_ok_def data_ok_def)
  with t show ?thesis
    by (intro exI[of _ evs] exI[of _ t]) (auto simp: healthy_def flow_ok_def)
qed

lemma session_drains_witness:
  "\<exists>s evs t. sy_run connected [EvSend \<lparr>sb_data = [1, 2]\<rparr>] = Some s \<and> sy_run s evs = Some t \<and>
     sw_wire (sy_world t) = [1, 2]"
proof -
  have "\<exists>s. sy_run connected [EvSend \<lparr>sb_data = [1, 2]\<rparr>] = Some s \<and> \<not> sy_failed s \<and> bs_open (sy_world s) \<and>
      buffers_bytes (sy_accepted s) = [1, 2]"
    by (simp add: session_eval)
  then obtain s where s: "sy_run connected [EvSend \<lparr>sb_data = [1, 2]\<rparr>] = Some s" "\<not> sy_failed s" "bs_open (sy_world s)"
    "buffers_bytes (sy_accepted s) = [1, 2]" by blast
  from session_drains[OF sy_run_reachable[OF connected_reachable s(1)] s(2,3)] s show ?thesis by metis
qed

text \<open>
  \<^verbatim>\<open>Send\<close> appends the buffer and posts a flush
  exactly if none is under way; on a full queue it changes nothing, asks for the socket to be
  closed and returns false. A null buffer aborts where assertions are compiled in; where they
  are not it is accepted like any other, and the next flush dereferences it.
\<close>
theorem session_send:
  "BoostSession_Send b w (Some sb) =
     Inr (if length (bs_sendQueue w) < 1024
          then (True, w\<lparr>bs_sendQueue := bs_sendQueue w @ [Some sb], bs_isSending := True,
                        sw_tasks := sw_tasks w @ (if bs_isSending w then [] else [RunFlushSendQueue])\<rparr>)
          else (False, w\<lparr>sw_tasks := sw_tasks w @ [RunCloseSocket]\<rparr>)) \<and>
   BoostSession_Send Debug w None = Inl (AssertFailed ''Send buffer is null'') \<and>
   (if length (bs_sendQueue w) < 1024
    then \<exists>w'. BoostSession_Send NoDebug w None = Inr (True, w') \<and>
           BoostSession_FlushSendQueue w' = Inl NullDeref
    else \<exists>w'. BoostSession_Send NoDebug w None = Inr (False, w'))"
  by (simp add: BoostSession_Send_def Send_lock_def Send_post_def kMaxSendQueueSize_def post_def
      ASSERT_fail BoostSession_FlushSendQueue_def Flush_lock_def Flush_write_def)



text \<open>
  After a failed write the session is usable again before
  its socket is closed: \<^verbatim>\<open>CompleteSend\<close> empties the queue and clears \<^verbatim>\<open>m_isSending\<close> under the
  mutex and only then calls \<^verbatim>\<open>CloseSocket\<close>. There is a reachable state in which, in this gap, a
  later buffer has gone out after half of an earlier one, with the rest and a buffer between
  them lost: the peer receives a broken stream.
\<close>
theorem session_error_gap:
  "\<exists>s. session_reachable s \<and> bs_open (sy_world s) \<and>
     sy_accepted s = [Some \<lparr>sb_data = [1, 2]\<rparr>, Some \<lparr>sb_data = [3]\<rparr>, Some \<lparr>sb_data = [4]\<rparr>] \<and>
     sw_wire (sy_world s) = [1, 4]"
proof -
  let ?evs = "[EvSend \<lparr>sb_data = [1, 2]\<rparr>, EvThread (InSend False True), EvTask RunFlushSendQueue, EvThread InFlush,
     EvTransmit 0 1, EvSend \<lparr>sb_data = [3]\<rparr>, EvThread (InSend False False), EvWriteFail 0 ''ENOBUFS'',
     EvTask (RunCompleteSend (Some ''ENOBUFS'')), EvThread (InComplete (Some ''ENOBUFS'')),
     EvSend \<lparr>sb_data = [4]\<rparr>, EvThread (InSend False True), EvTask RunFlushSendQueue, EvThread InFlush, EvTransmit 0 1]"
  have "\<exists>s. sy_run connected ?evs = Some s \<and> bs_open (sy_world s) \<and> sw_wire (sy_world s) = [1, 4] \<and>
      sy_accepted s = [Some \<lparr>sb_data = [1, 2]\<rparr>, Some \<lparr>sb_data = [3]\<rparr>, Some \<lparr>sb_data = [4]\<rparr>]"
    by (simp add: session_eval)
  then show ?thesis
    using sy_run_reachable[OF connected_reachable] by blast
qed

end
