(* ===== verification/Session_Drain.thy ===== *)
theory Session_Drain
  imports Boost_Session_Props
begin

text \<open>
  A session left to itself. Between two calls of \<^verbatim>\<open>Send\<close>, as long as no write fails and nobody
  closes the socket from outside, every event is a step towards rest, whichever of the handlers, threads
  and transmissions that are possible comes next; and where none is possible, everything that
  was accepted has been transmitted. So the session drains under every schedule, not only under
  a favourable one.
\<close>

section \<open>Work left\<close>

fun quiet :: "sy_event \<Rightarrow> bool" where
  "quiet (EvThread p) \<longleftrightarrow> True"
| "quiet (EvTask k) \<longleftrightarrow> True"
| "quiet (EvTransmit i n) \<longleftrightarrow> 0 < n"
| "quiet (EvWriteDone i) \<longleftrightarrow> True"
| "quiet _ \<longleftrightarrow> False"

fun pc_work :: "pc \<Rightarrow> nat" where
  "pc_work (InSend isOverflow needFlush) = (if needFlush then 7 else 2)"
| "pc_work InFlush = 5"
| "pc_work (InComplete _) = 1"
| "pc_work InClose = 1"

fun task_work :: "task \<Rightarrow> nat" where
  "task_work RunFlushSendQueue = 6"
| "task_work (RunCompleteSend _) = 2"
| "task_work _ = 1"

definition pending_bytes :: "SessionSys \<Rightarrow> nat" where
  "pending_bytes s =
     length (if InFlush \<in> set (sy_threads s) then buffers_bytes (bs_sendingBuffers (sy_world s))
             else concat (sw_writes (sy_world s))) +
     length (buffers_bytes (bs_sendQueue (sy_world s)))"

definition session_work :: "SessionSys \<Rightarrow> nat" where
  "session_work s =
     (if bs_sendQueue (sy_world s) = [] then 0 else 10) + pending_bytes s +
     sum_list (map pc_work (sy_threads s)) + sum_list (map task_work (sw_tasks (sy_world s))) +
     sum_list (map (\<lambda>r. if r = [] then 3 else 4) (sw_writes (sy_world s)))"

text \<open>The part of the work that is not the chain's.\<close>

definition side_work :: "SessionSys \<Rightarrow> nat" where
  "side_work s = sum_list (map pc_work (filter (\<lambda>p. \<not> chain_pc p) (sy_threads s))) +
     sum_list (map task_work (filter (\<lambda>k. \<not> chain_task k) (sw_tasks (sy_world s))))"

lemma sum_list_filter_split:
  "sum_list (map f xs) = sum_list (map f (filter P xs)) + (sum_list (map f (filter (\<lambda>x. \<not> P x) xs)) :: nat)"
  by (induction xs) auto

lemma session_work_stage:
  assumes "flow_ok s st"
  shows "session_work s = work s st + length (under_way st (bs_sendingBuffers (sy_world s))) +
    length (buffers_bytes (bs_sendQueue (sy_world s))) + side_work s"
proof -
  have "pending_bytes s = length (under_way st (bs_sendingBuffers (sy_world s))) +
      length (buffers_bytes (bs_sendQueue (sy_world s)))"
    by (simp add: pending_bytes_def flow_under_way[OF assms])
  moreover have "sum_list (map pc_work (filter chain_pc (sy_threads s))) +
      sum_list (map task_work (filter chain_task (sw_tasks (sy_world s)))) +
      sum_list (map (\<lambda>r. if r = [] then 3 else 4) (sw_writes (sy_world s))) = rank st"
    using assms by (cases st) (auto simp: flow_ok_def)
  ultimately show ?thesis
    using sum_list_filter_split[of pc_work "sy_threads s" chain_pc]
      sum_list_filter_split[of task_work "sw_tasks (sy_world s)" chain_task]
    by (simp add: session_work_def side_work_def work_def)
qed

section \<open>Every event is progress\<close>

lemma buffers_bytes_length: "bufs = [] \<Longrightarrow> length (buffers_bytes bufs) = 0"
  by simp

lemma side_work_begin_flush [simp]: "side_work (begin_flush s) = side_work s"
  by (simp add: begin_flush_def Flush_lock_def side_work_def)

text \<open>A flush that begins: the queue goes to the buffers under way, or the chain ends.\<close>

lemma begin_flush_work:
  assumes "bs_sendingBuffers (sy_world s) = []"
    and "flow_ok (begin_flush s) (if bs_sendQueue (sy_world s) = [] then Idle else Swapped)"
  shows "session_work (begin_flush s) = (if bs_sendQueue (sy_world s) = [] then 0 else 5) +
    length (buffers_bytes (bs_sendQueue (sy_world s))) + side_work s"
  using assms(1) unfolding session_work_stage[OF assms(2)]
  by (simp add: work_def begin_flush_def Flush_lock_def side_work_def)

lemma side_removed:
  assumes "p \<in> set (sy_threads s)" "\<not> chain_pc p"
  shows "side_work s = pc_work p + side_work (s\<lparr>sy_threads := remove1 p (sy_threads s)\<rparr>)"
proof -
  have "sum_list (map pc_work (filter (\<lambda>p. \<not> chain_pc p) (sy_threads s))) =
      pc_work p + sum_list (map pc_work (remove1 p (filter (\<lambda>p. \<not> chain_pc p) (sy_threads s))))"
    using assms by (simp add: sum_list_map_remove1)
  then show ?thesis using assms(2) by (simp add: side_work_def filter_remove1)
qed

lemma side_kept:
  assumes "chain_pc p"
  shows "side_work (s\<lparr>sy_threads := remove1 p (sy_threads s)\<rparr>) = side_work s"
  using assms by (simp add: side_work_def filter_remove1_keep)

lemma side_task_removed:
  assumes "k \<in> set (sw_tasks (sy_world s))" "\<not> chain_task k"
  shows "side_work s = task_work k + side_work (without_task k s)"
proof -
  have "sum_list (map task_work (filter (\<lambda>k. \<not> chain_task k) (sw_tasks (sy_world s)))) =
      task_work k + sum_list (map task_work (remove1 k (filter (\<lambda>k. \<not> chain_task k) (sw_tasks (sy_world s)))))"
    using assms by (simp add: sum_list_map_remove1)
  then show ?thesis using assms(2) by (simp add: side_work_def filter_remove1)
qed

lemma side_task_kept:
  assumes "chain_task k"
  shows "side_work (without_task k s) = side_work s"
  using assms by (simp add: side_work_def filter_remove1_keep)

text \<open>A thread's block.\<close>

lemma thread_progress:
  assumes st: "flow_ok s st" "data_ok s st" and ok: "\<not> sy_failed s"
    and ev: "sy_do s (EvThread p) = Some t"
  shows "session_work t < session_work s"
proof -
  let ?s = "s\<lparr>sy_threads := remove1 p (sy_threads s)\<rparr>"
  from ev have p: "p \<in> set (sy_threads s)" and t: "resume p ?s = Some t"
    by (auto split: if_splits)
  show ?thesis
  proof (cases "chain_pc p")
    case False
    have "flow_ok ?s st" using st(1) False by (simp add: flow_ok_def filter_remove1_keep)
    from session_work_stage[OF this] session_work_stage[OF st(1)] side_removed[OF p False]
    have less: "session_work s = session_work ?s + pc_work p" by (simp add: work_def)
    from False consider ov where "p = InSend ov False" | "p = InClose" by (cases p) auto
    then show ?thesis
    proof cases
      case 1
      with t have "t = ?s \<or> t = ?s\<lparr>sy_world := post RunCloseSocket (sy_world ?s)\<rparr>"
        by (cases ov) (simp_all add: Send_post_def)
      then have "session_work t \<le> session_work ?s + 1"
        by (elim disjE) (simp_all add: session_work_def pending_bytes_def post_def)
      with less 1 show ?thesis by simp
    next
      case 2
      with t have "t = ?s\<lparr>sy_world := BoostSession_CloseSocket (sy_world ?s)\<rparr>" by simp
      then have "session_work t = session_work ?s"
        by (simp add: session_work_def pending_bytes_def BoostSession_CloseSocket_def)
      with less 2 show ?thesis by simp
    qed
  next
    case True
    note rest = side_kept[OF True, of s]
    from chain_pc_stage[OF st(1) p True] have sp: "stage_pcs st = [p]" .
    from stage_pcs_cases[OF sp] st(1) ok consider (Posting) "st = Posting" "p = InSend False True"
      | (Swapped) "st = Swapped" "p = InFlush" | (Cleared) "st = Cleared None" "p = InComplete None"
      by (auto simp: flow_ok_def)
    then show ?thesis
    proof cases
      case Posting
      then have "flow_ok t Queued" using posting_step st t by blast
      from session_work_stage[OF this] session_work_stage[OF st(1)] Posting t rest show ?thesis
        by (auto simp: work_def Send_post_def post_def side_work_def)
    next
      case Swapped
      let ?r = "buffers_bytes (bs_sendingBuffers (sy_world s))"
      from Swapped swapped_step[of s] st t have "flow_ok t (Writing ?r)" by (metis option.inject)
      from session_work_stage[OF this] session_work_stage[OF st(1)] Swapped t rest show ?thesis
        by (auto simp: work_def Flush_write_def side_work_def split: if_splits)
    next
      case Cleared
      let ?st = "if bs_sendQueue (sy_world s) = [] then Idle else Swapped"
      from Cleared cleared_step[of s] st have f: "flow_ok (begin_flush ?s) ?st" by simp
      from Cleared st(1) have "bs_sendingBuffers (sy_world ?s) = []" by (simp add: flow_ok_def)
      from begin_flush_work[OF this] f session_work_stage[OF st(1)] Cleared t rest show ?thesis
        by (simp add: work_def split: if_splits)
    qed
  qed
qed

lemma task_progress:
  assumes st: "flow_ok s st" "data_ok s st" and ok: "\<not> sy_failed s"
    and ev: "sy_do s (EvTask k) = Some t"
  shows "session_work t < session_work s"
proof -
  from ev have k: "k \<in> set (sw_tasks (sy_world s))" and t: "t = start_task k (without_task k s)"
    by (auto split: if_splits)
  show ?thesis
  proof (cases "chain_task k")
    case False
    have "flow_ok (without_task k s) st" using st(1) False by (simp add: flow_ok_def filter_remove1_keep)
    from session_work_stage[OF this] session_work_stage[OF st(1)] side_task_removed[OF k False]
    have less: "session_work s = session_work (without_task k s) + task_work k" by (simp add: work_def)
    have "session_work t = session_work (without_task k s)"
      using False unfolding t by (cases k) (simp_all add: session_work_def pending_bytes_def
          BoostSession_CloseSocket_def BoostSession_Receive_def)
    with less False show ?thesis by (cases k) auto
  next
    case True
    note rest = side_task_kept[OF True, of s]
    from chain_task_stage[OF st(1) k True] have "stage_tasks st = [k]" .
    from stage_tasks_cases[OF this] consider (Queued) "st = Queued" "k = RunFlushSendQueue"
      | (Written) ec where "st = Written ec" "k = RunCompleteSend ec" by blast
    then show ?thesis
    proof cases
      case Queued
      let ?st = "if bs_sendQueue (sy_world s) = [] then Idle else Swapped"
      from Queued queued_step[of s] st have f: "flow_ok (begin_flush (without_task k s)) ?st" by simp
      from Queued st(1) have "bs_sendingBuffers (sy_world (without_task k s)) = []" by (simp add: flow_ok_def)
      from begin_flush_work[OF this] f session_work_stage[OF st(1)] Queued t rest show ?thesis
        by (simp add: work_def split: if_splits)
    next
      case Written
      then have "flow_ok t (Cleared ec)" using written_step st t by blast
      moreover have "side_work t = side_work s"
        using rest Written unfolding t by (simp add: side_work_def CompleteSend_clear_def)
      ultimately show ?thesis
        using session_work_stage[of t] session_work_stage[OF st(1)] Written t
        by (simp add: work_def CompleteSend_clear_def)
    qed
  qed
qed

lemma write_progress:
  assumes st: "flow_ok s st" "data_ok s st"
    and ev: "sy_do s ev = Some t" "(ev = EvTransmit i n \<and> 0 < n) \<or> ev = EvWriteDone i"
  shows "session_work t < session_work s"
proof -
  from ev have "i < length (sw_writes (sy_world s))"
    by (auto simp: Let_def split: if_splits)
  from write_stage[OF st(1) this] obtain r where r: "st = Writing r" "i = 0" "sw_writes (sy_world s) = [r]"
    by blast
  from ev(2) show ?thesis
  proof (elim disjE conjE)
    assume e: "ev = EvTransmit i n" "0 < n"
    with ev(1) r have n: "bs_open (sy_world s)" "n \<le> length r"
      by (auto simp: Let_def split: if_splits)
    from transmit_step[of s r n] n e r ev(1) st have "flow_ok t (Writing (drop n r))" by (metis option.inject)
    from session_work_stage[OF this] session_work_stage[OF st(1)] r e ev(1) n show ?thesis
      by (auto simp: work_def Let_def side_work_def split: if_splits)
  next
    assume e: "ev = EvWriteDone i"
    with ev(1) r have "r = []" by (auto simp: Let_def split: if_splits)
    with done_step[of s] e r ev(1) st have "flow_ok t (Written None)" by (metis option.inject)
    from session_work_stage[OF this] session_work_stage[OF st(1)] r e ev(1) \<open>r = []\<close> show ?thesis
      by (auto simp: work_def Let_def side_work_def post_def drop_nth_def)
  qed
qed

lemma quiet_progress:
  assumes "session_reachable s" "\<not> sy_failed s" "quiet ev" "sy_do s ev = Some t"
  shows "session_work t < session_work s"
proof -
  obtain st where st: "flow_ok s st" "data_ok s st" using reachable_stage[OF assms(1)] .
  show ?thesis
  proof (cases ev)
    case (EvThread p)
    with thread_progress st assms show ?thesis by blast
  next
    case (EvTask k)
    with task_progress st assms show ?thesis by blast
  next
    case (EvTransmit i n)
    with write_progress[OF st assms(4)] assms(3) show ?thesis by auto
  next
    case (EvWriteDone i)
    with write_progress[OF st assms(4)] show ?thesis by blast
  qed (use assms(3) in simp_all)
qed

section \<open>Rest\<close>

text \<open>A close of the socket has been asked for: a full queue was met, or a write failed.\<close>

definition closing :: "SessionSys \<Rightarrow> bool" where
  "closing s \<longleftrightarrow> InClose \<in> set (sy_threads s) \<or> (\<exists>nf. InSend True nf \<in> set (sy_threads s)) \<or>
     RunCloseSocket \<in> set (sw_tasks (sy_world s))"

definition at_rest :: "SessionSys \<Rightarrow> bool" where
  "at_rest s \<longleftrightarrow> (\<nexists>ev. quiet ev \<and> sy_do s ev \<noteq> None)"

lemma begin_flush_closing [simp]:
  "closing (begin_flush s) \<longleftrightarrow> closing s" "bs_open (sy_world (begin_flush s)) = bs_open (sy_world s)"
  "sy_failed (begin_flush s) = sy_failed s" "sy_accepted (begin_flush s) = sy_accepted s"
  by (auto simp: closing_def begin_flush_def Flush_lock_def)

lemma closing_less:
  "\<not> closing s \<Longrightarrow> \<not> closing (s\<lparr>sy_threads := remove1 p (sy_threads s)\<rparr>)"
  "\<not> closing s \<Longrightarrow> \<not> closing (without_task k s)"
  by (auto simp: closing_def dest: notin_set_remove1)

lemma failed_complete: "session_reachable s \<Longrightarrow> \<not> sy_failed s \<Longrightarrow> InComplete (Some e) \<notin> set (sy_threads s)"
proof
  assume "session_reachable s" "\<not> sy_failed s" and p: "InComplete (Some e) \<in> set (sy_threads s)"
  moreover from this obtain st where "flow_ok s st" using reachable_stage by metis
  ultimately show False
    using chain_pc_stage[of s st "InComplete (Some e)"] by (cases st) (auto simp: flow_ok_def)
qed

lemma quiet_keeps:
  assumes "session_reachable s" "\<not> sy_failed s" "bs_open (sy_world s)" "\<not> closing s"
    and "quiet ev" "sy_do s ev = Some t"
  shows "\<not> sy_failed t \<and> bs_open (sy_world t) \<and> \<not> closing t \<and> sy_accepted t = sy_accepted s"
proof (cases ev)
  case (EvThread p)
  let ?s = "s\<lparr>sy_threads := remove1 p (sy_threads s)\<rparr>"
  from EvThread assms(6) have p: "p \<in> set (sy_threads s)" and t: "resume p ?s = Some t"
    by (auto split: if_splits)
  have rest: "\<not> closing ?s" using closing_less(1)[OF assms(4)] .
  show ?thesis
  proof (cases p)
    case (InSend ov nf)
    with p assms(4) have "\<not> ov" by (cases ov) (auto simp: closing_def)
    with InSend t rest assms(2,3) show ?thesis by (cases nf) (auto simp: Send_post_def post_def closing_def)
  next
    case InFlush
    with t rest assms(2,3) show ?thesis by (auto simp: Flush_write_def closing_def split: if_splits)
  next
    case (InComplete ec)
    with p failed_complete[OF assms(1,2)] have "ec = None" by (cases ec) auto
    with InComplete t rest assms(2,3) show ?thesis by auto
  qed (use p assms(4) in \<open>auto simp: closing_def\<close>)
next
  case (EvTask k)
  then have k: "k \<in> set (sw_tasks (sy_world s))" and t: "t = start_task k (without_task k s)"
    using assms(6) by (auto split: if_splits)
  have rest: "\<not> closing (without_task k s)" using closing_less(2)[OF assms(4)] .
  show ?thesis
  proof (cases k)
    case RunFlushSendQueue
    with t rest assms(2,3) show ?thesis by simp
  qed (use k t rest assms(2-4) in \<open>simp_all add: closing_def BoostSession_Receive_def CompleteSend_clear_def\<close>)
qed (use assms(2-6) in \<open>auto simp: Let_def closing_def post_def split: if_splits\<close>)

lemma thread_can_go:
  assumes "session_reachable s" "p \<in> set (sy_threads s)"
  shows "sy_do s (EvThread p) \<noteq> None"
proof -
  obtain st where "data_ok s st" using reachable_stage[OF assms(1)] .
  then have "None \<notin> set (bs_sendingBuffers (sy_world s))" by (simp add: data_ok_def)
  then have "resume p (s\<lparr>sy_threads := remove1 p (sy_threads s)\<rparr>) \<noteq> None"
    by (cases "(p, s)" rule: resume.cases) (auto simp: Flush_write_def)
  with assms(2) show ?thesis by simp
qed

lemma rest_drained:
  assumes "session_reachable s" "\<not> sy_failed s" "bs_open (sy_world s)" "at_rest s"
  shows "sw_wire (sy_world s) = buffers_bytes (sy_accepted s) \<and> bs_sendQueue (sy_world s) = [] \<and>
    \<not> bs_isSending (sy_world s) \<and> sy_threads s = [] \<and> sw_tasks (sy_world s) = []"
proof -
  have no: "quiet ev \<Longrightarrow> sy_do s ev = None" for ev using assms(4) unfolding at_rest_def by blast
  have threads: "sy_threads s = []"
  proof (rule ccontr)
    assume "sy_threads s \<noteq> []"
    then obtain p where "p \<in> set (sy_threads s)" by (cases "sy_threads s") auto
    from thread_can_go[OF assms(1) this] no[of "EvThread p"] show False by simp
  qed
  have tasks: "sw_tasks (sy_world s) = []"
  proof (rule ccontr)
    assume "sw_tasks (sy_world s) \<noteq> []"
    then obtain k where "k \<in> set (sw_tasks (sy_world s))" by (cases "sw_tasks (sy_world s)") auto
    with no[of "EvTask k"] show False by simp
  qed
  obtain st where st: "flow_ok s st" "data_ok s st" using reachable_stage[OF assms(1)] .
  have "st \<noteq> Writing r" for r
  proof
    assume "st = Writing r"
    with st(1) have w: "sw_writes (sy_world s) = [r]" by (simp add: flow_ok_def)
    with no[of "EvWriteDone 0"] have "r \<noteq> []" by (auto simp: Let_def)
    with no[of "EvTransmit 0 (length r)"] w assms(3) show False by (simp add: Let_def)
  qed
  with st(1) threads tasks have "st = Idle" by (cases st) (auto simp: flow_ok_def)
  with st assms(2) threads tasks show ?thesis by (auto simp: flow_ok_def data_ok_def)
qed

lemma quiet_run:
  assumes "sy_run s evs = Some t" "list_all quiet evs"
    and "session_reachable s" "\<not> sy_failed s" "bs_open (sy_world s)" "\<not> closing s"
  shows "length evs + session_work t \<le> session_work s \<and> session_reachable t \<and> \<not> sy_failed t \<and>
    bs_open (sy_world t) \<and> sy_accepted t = sy_accepted s"
  using assms
proof (induction evs arbitrary: s)
  case (Cons ev evs)
  then obtain u where u: "sy_do s ev = Some u" "sy_run u evs = Some t" "quiet ev"
    by (auto split: option.splits)
  note keeps = quiet_keeps[OF Cons.prems(3-6) u(3,1)]
  have "session_reachable u" using Cons.prems(3) u(1) by (meson reach_step sy_stepI)
  with Cons u keeps quiet_progress[OF Cons.prems(3,4) u(3,1)] show ?case by force
qed simp

section \<open>Properties\<close>

text \<open>
  C14: (component \<^verbatim>\<open>BoostSession\<close>, termination) A session drains under every schedule. From a
  reachable state with an open socket, no failed write and no close asked for, any run of
  threads, handlers, transmissions and completed writes is no longer than \<open>session_work\<close>, a
  number that can be read off the state; and when none of them is possible any more, every
  accepted byte has been transmitted, the queue is empty, \<^verbatim>\<open>m_isSending\<close> is false and nothing is
  left to run.
\<close>
theorem session_always_drains:
  assumes "session_reachable s" "\<not> sy_failed s" "bs_open (sy_world s)" "\<not> closing s"
    and "sy_run s evs = Some t" "list_all quiet evs"
  shows "length evs \<le> session_work s \<and>
    (at_rest t \<longrightarrow> sw_wire (sy_world t) = buffers_bytes (sy_accepted s) \<and> bs_sendQueue (sy_world t) = [] \<and>
       \<not> bs_isSending (sy_world t) \<and> sy_threads t = [] \<and> sw_tasks (sy_world t) = [])"
  using quiet_run[OF assms(5,6,1-4)] rest_drained[of t] by auto

lemma session_always_drains_witness:
  "\<exists>s evs t. sy_run connected [EvSend \<lparr>sb_data = [1, 2]\<rparr>] = Some s \<and> sy_run s evs = Some t \<and> at_rest t \<and>
     length evs = 7 \<and> length evs \<le> session_work s \<and> sw_wire (sy_world t) = [1, 2]"
proof -
  let ?evs = "[EvThread (InSend False True), EvTask RunFlushSendQueue, EvThread InFlush, EvTransmit 0 2,
       EvWriteDone 0, EvTask (RunCompleteSend None), EvThread (InComplete None)]"
  have "\<exists>s t. sy_run connected [EvSend \<lparr>sb_data = [1, 2]\<rparr>] = Some s \<and> sy_run s ?evs = Some t \<and>
      \<not> sy_failed s \<and> bs_open (sy_world s) \<and> \<not> closing s \<and> buffers_bytes (sy_accepted s) = [1, 2] \<and>
      sy_threads t = [] \<and> sw_tasks (sy_world t) = [] \<and> sw_writes (sy_world t) = []"
    by (simp add: session_eval closing_def)
  then obtain s t where s: "sy_run connected [EvSend \<lparr>sb_data = [1, 2]\<rparr>] = Some s" "sy_run s ?evs = Some t"
    "\<not> sy_failed s" "bs_open (sy_world s)" "\<not> closing s" "buffers_bytes (sy_accepted s) = [1, 2]"
    "sy_threads t = []" "sw_tasks (sy_world t) = []" "sw_writes (sy_world t) = []" by blast
  have "sy_do t ev = None" if "quiet ev" for ev using that s(7-9) by (cases ev) (auto simp: Let_def)
  then have rest: "at_rest t" by (auto simp: at_rest_def)
  have q: "list_all quiet ?evs" by simp
  from session_always_drains[OF sy_run_reachable[OF connected_reachable s(1)] s(3-5,2) q] s rest
  show ?thesis by (intro exI[of _ s] exI[of _ ?evs] exI[of _ t]) simp
qed

end
