(* ===== verification/Session_Strand.thy ===== *)
theory Session_Strand
  imports Boost_Session_Props
begin

text \<open>
  The handlers of a session on the executor of its socket. \<^verbatim>\<open>BoostSession\<close> constructs its socket
  from the \<^verbatim>\<open>io_context\<close> itself, so the workers of the engine run its handlers at the same
  time; the alternative is a socket on a strand of its own, which runs one handler at a time.
  \<open>Boost_Session\<close> runs a posted \<^verbatim>\<open>CloseSocket\<close> in one step; here it begins and ends like the
  other handlers, so that it can be under way beside them.
\<close>

section \<open>Handlers\<close>

datatype executor = Plain | Strand

text \<open>Between two blocks of \<^verbatim>\<open>FlushSendQueue\<close> or \<^verbatim>\<open>CompleteSend\<close>, and inside any handler.\<close>

fun in_sending :: "pc \<Rightarrow> bool" where
  "in_sending InFlush \<longleftrightarrow> True"
| "in_sending (InComplete _) \<longleftrightarrow> True"
| "in_sending _ \<longleftrightarrow> False"

fun in_handler :: "pc \<Rightarrow> bool" where
  "in_handler (InSend _ _) \<longleftrightarrow> False"
| "in_handler _ \<longleftrightarrow> True"

datatype sd_event = SdClose | SdEvent sy_event

text \<open>A handler may begin: on a strand only when none is under way.\<close>

definition may_begin :: "executor \<Rightarrow> SessionSys \<Rightarrow> bool" where
  "may_begin e s \<longleftrightarrow> e = Strand \<longrightarrow> filter in_handler (sy_threads s) = []"

fun sd_do :: "executor \<Rightarrow> SessionSys \<Rightarrow> sd_event \<Rightarrow> SessionSys option" where
  "sd_do e s SdClose =
     (if RunCloseSocket \<in> set (sw_tasks (sy_world s)) \<and> may_begin e s
      then let u = without_task RunCloseSocket s in Some (u\<lparr>sy_threads := sy_threads u @ [InClose]\<rparr>)
      else None)"
| "sd_do e s (SdEvent (EvTask k)) =
     (if k \<noteq> RunCloseSocket \<and> may_begin e s then sy_do s (EvTask k) else None)"
| "sd_do e s (SdEvent ev) = sy_do s ev"

inductive sd_step :: "executor \<Rightarrow> SessionSys \<Rightarrow> SessionSys \<Rightarrow> bool" for e where
  sd_stepI: "sd_do e s ev = Some t \<Longrightarrow> sd_step e s t"

inductive_cases sd_stepE: "sd_step e s t"

fun sd_run :: "executor \<Rightarrow> SessionSys \<Rightarrow> sd_event list \<Rightarrow> SessionSys option" where
  "sd_run e s [] = Some s"
| "sd_run e s (ev # evs) = (case sd_do e s ev of None \<Rightarrow> None | Some t \<Rightarrow> sd_run e t evs)"

lemma sd_do_cases:
  assumes "sd_do e s ev = Some t"
  obtains (Close) "ev = SdClose" "RunCloseSocket \<in> set (sw_tasks (sy_world s))" "may_begin e s"
      "t = (without_task RunCloseSocket s)\<lparr>sy_threads := sy_threads s @ [InClose]\<rparr>"
    | (Event) sev where "ev = SdEvent sev" "sy_do s sev = Some t"
proof (cases ev)
  case SdClose
  with assms Close show ?thesis by (auto simp: Let_def split: if_splits)
next
  case (SdEvent sev)
  with assms Event show ?thesis by (cases sev) (auto split: if_splits)
qed

section \<open>The invariant of the session\<close>

lemma sd_inv:
  assumes "session_inv s" "sd_do e s ev = Some t"
  shows "session_inv t"
  using assms(2)
proof (cases rule: sd_do_cases)
  case Close
  with assms(1) show ?thesis
    by (auto simp: session_inv_def flow_ok_def data_ok_def filter_remove1_keep)
qed (use assms event_inv in blast)

interpretation strand_sys: invariant_system sy_init "sd_step e" session_inv for e
  by unfold_locales (auto intro: init_inv sd_inv elim: sd_stepE)

text \<open>On a strand one handler is under way at most.\<close>

lemma in_sending_chain: "in_sending p \<Longrightarrow> chain_pc p"
  by (cases p) auto

lemma stage_one_sending:
  assumes "flow_ok s st"
  shows "length (filter in_sending (sy_threads s)) \<le> 1 \<and>
    (sw_writes (sy_world s) \<noteq> [] \<longrightarrow> filter in_sending (sy_threads s) = [])"
proof -
  have "filter in_sending (sy_threads s) = filter in_sending (filter chain_pc (sy_threads s))"
    using in_sending_chain by (simp add: conj_commute) (metis (no_types, lifting) in_sending_chain)
  with assms have "filter in_sending (sy_threads s) = filter in_sending (stage_pcs st)"
    by (simp add: flow_ok_def)
  with assms show ?thesis by (cases st) (auto simp: flow_ok_def)
qed

definition handlers :: "SessionSys \<Rightarrow> pc list" where
  "handlers s = filter in_handler (sy_threads s)"

lemma remove1_handlers:
  "p \<in> set ps \<Longrightarrow> in_handler p \<Longrightarrow> Suc (length (filter in_handler (remove1 p ps))) = length (filter in_handler ps)"
  by (induction ps) auto

lemma handlers_begin_flush:
  "length (handlers (begin_flush s)) \<le> Suc (length (handlers s))"
  by (simp add: begin_flush_def Flush_lock_def handlers_def)

lemma handlers_start_task: "length (handlers (start_task k s)) \<le> Suc (length (handlers s))"
  using handlers_begin_flush[of s] by (cases k) (auto simp: handlers_def)

lemma handlers_resume:
  assumes "p \<in> set (sy_threads s)" "resume p (s\<lparr>sy_threads := remove1 p (sy_threads s)\<rparr>) = Some t"
  shows "length (handlers t) \<le> length (handlers s)"
proof (cases p)
  case (InSend ov nf)
  with assms(2) show ?thesis by (auto simp: handlers_def filter_remove1_keep)
next
  case (InComplete ec)
  with assms handlers_begin_flush[of "s\<lparr>sy_threads := remove1 p (sy_threads s)\<rparr>"]
    remove1_handlers[OF assms(1)] show ?thesis
    by (cases ec) (auto simp: handlers_def)
qed (use assms remove1_handlers[OF assms(1)] in \<open>auto simp: handlers_def split: sum.splits\<close>)

lemma strand_one_handler:
  assumes "reach sy_init (sd_step Strand) s"
  shows "length (handlers s) \<le> 1"
proof (rule strand_sys.reach_keeps[OF assms])
  show "length (handlers s) \<le> 1" if "sy_init s" for s
    using that by (auto simp: sy_init_def handlers_def)
  show "length (handlers t) \<le> 1" if "length (handlers s) \<le> 1" "sd_step Strand s t" for s t
    using that(2)
  proof (rule sd_stepE)
    fix ev assume ev: "sd_do Strand s ev = Some t"
    then show ?thesis
    proof (cases rule: sd_do_cases)
      case Close
      then show ?thesis by (simp add: may_begin_def handlers_def)
    next
      case (Event sev)
      show ?thesis
      proof (cases sev)
        case (EvTask k)
        with ev Event have "handlers s = []" "t = start_task k (without_task k s)"
          by (auto simp: may_begin_def handlers_def split: if_splits)
        moreover from this have "handlers (without_task k s) = []" by (simp add: handlers_def)
        ultimately show ?thesis using handlers_start_task[of k "without_task k s"] by simp
      next
        case (EvThread p)
        with Event have "p \<in> set (sy_threads s)"
          "resume p (s\<lparr>sy_threads := remove1 p (sy_threads s)\<rparr>) = Some t"
          by (auto split: if_splits)
        from handlers_resume[OF this] that(1) show ?thesis by linarith
      qed (use Event that(1) in \<open>auto simp: handlers_def Let_def post_def split: if_splits prod.splits\<close>)
    qed
  qed
qed

section \<open>Refinement\<close>

text \<open>
  A posted \<^verbatim>\<open>CloseSocket\<close> that has begun is, for the rest of the session, one that is still
  posted: the systems differ only in where they count it.
\<close>

definition sd_rel :: "SessionSys \<Rightarrow> SessionSys \<Rightarrow> bool" where
  "sd_rel s a \<longleftrightarrow> (\<exists>ps ks n. a = s\<lparr>sy_threads := ps, sy_world := (sy_world s)\<lparr>sw_tasks := ks\<rparr>\<rparr> \<and>
     mset (sy_threads s) = mset ps + replicate_mset n InClose \<and>
     mset ks = mset (sw_tasks (sy_world s)) + replicate_mset n RunCloseSocket)"

lemma sd_relI:
  "a = s\<lparr>sy_threads := ps, sy_world := (sy_world s)\<lparr>sw_tasks := ks\<rparr>\<rparr> \<Longrightarrow>
   mset (sy_threads s) = mset ps + replicate_mset n InClose \<Longrightarrow>
   mset ks = mset (sw_tasks (sy_world s)) + replicate_mset n RunCloseSocket \<Longrightarrow> sd_rel s a"
  unfolding sd_rel_def by blast

lemma sd_relE:
  assumes "sd_rel s a"
  obtains ps ks n where "a = s\<lparr>sy_threads := ps, sy_world := (sy_world s)\<lparr>sw_tasks := ks\<rparr>\<rparr>"
    "mset (sy_threads s) = mset ps + replicate_mset n InClose"
    "mset ks = mset (sw_tasks (sy_world s)) + replicate_mset n RunCloseSocket"
  using assms unfolding sd_rel_def by blast

lemma begin_flush_rel:
  assumes "sd_rel s a"
  shows "sd_rel (begin_flush s) (begin_flush a)"
  using assms
proof (cases rule: sd_relE)
  case (1 ps ks n)
  show ?thesis
  proof (cases "bs_sendQueue (sy_world s) = []")
    case True
    with 1 show ?thesis
      by (intro sd_relI[where ps = ps and ks = ks and n = n]) (simp_all add: begin_flush_def Flush_lock_def)
  next
    case False
    with 1 show ?thesis
      by (intro sd_relI[where ps = "ps @ [InFlush]" and ks = ks and n = n]) (simp_all add: begin_flush_def Flush_lock_def)
  qed
qed

lemma resume_rel:
  assumes "sd_rel s a" "resume p s = Some t"
  shows "\<exists>b. resume p a = Some b \<and> sd_rel t b"
proof (cases "p = InComplete None")
  case True
  with assms begin_flush_rel show ?thesis by auto
next
  case False
  from assms(1) show ?thesis
  proof (cases rule: sd_relE)
    case (1 ps ks n)
    show ?thesis
    proof (cases p)
      case (InSend ov nf)
      with assms(2) 1 show ?thesis
        by (auto intro!: sd_relI[where ps = ps and ks = "sw_tasks (sy_world (the (resume p a)))" and n = n] simp: Send_post_def post_def)
    next
      case InFlush
      with assms(2) 1 show ?thesis
        by (auto intro!: sd_relI[where ps = ps and ks = ks and n = n] simp: Flush_write_def split: if_splits)
    next
      case (InComplete ec)
      with False obtain e where "ec = Some e" by auto
      with InComplete assms(2) 1 show ?thesis
        by (auto intro!: sd_relI[where ps = "ps @ [InClose]" and ks = ks and n = n] simp: CompleteSend_error_def)
    next
      case InClose
      with assms(2) 1 show ?thesis
        by (auto intro!: sd_relI[where ps = ps and ks = ks and n = n] simp: BoostSession_CloseSocket_def)
    qed
  qed
qed

lemma start_task_rel:
  assumes "sd_rel s a" "k \<noteq> RunCloseSocket"
  shows "sd_rel (start_task k s) (start_task k a)"
proof (cases "k = RunFlushSendQueue")
  case True
  with assms begin_flush_rel show ?thesis by simp
next
  case False
  from assms(1) show ?thesis
  proof (cases rule: sd_relE)
    case (1 ps ks n)
    show ?thesis
    proof (cases k)
      case (RunCompleteSend ec)
      with 1 show ?thesis
        by (intro sd_relI[where ps = "ps @ [InComplete ec]" and ks = ks and n = n]) (simp_all add: CompleteSend_clear_def)
    qed (use assms False 1 in \<open>auto simp: BoostSession_Receive_def\<close>)
  qed
qed

lemma close_begins_rel:
  assumes "sd_rel s a" "RunCloseSocket \<in> set (sw_tasks (sy_world s))"
  shows "sd_rel ((without_task RunCloseSocket s)\<lparr>sy_threads := sy_threads s @ [InClose]\<rparr>) a"
  using assms(1)
proof (cases rule: sd_relE)
  case (1 ps ks n)
  with assms(2) show ?thesis
    by (intro sd_relI[where ps = ps and ks = ks and n = "Suc n"]) simp_all
qed

lemma thread_rel:
  assumes "sd_rel s a" "sy_do s (EvThread p) = Some t"
  shows "\<exists>b. sy_step a b \<and> sd_rel t b"
  using assms(1)
proof (cases rule: sd_relE)
  case (1 ps ks n)
  let ?s = "s\<lparr>sy_threads := remove1 p (sy_threads s)\<rparr>"
  from assms(2) have p: "p \<in> set (sy_threads s)" and t: "resume p ?s = Some t"
    by (auto split: if_splits)
  from p have "p \<in># mset ps + replicate_mset n InClose" using 1(2) by (metis set_mset_mset)
  then consider (Close) m where "p = InClose" "n = Suc m" | (Thread) "p \<in> set ps" "n = 0 \<or> p \<noteq> InClose"
    by (cases n) (auto split: if_splits)
  then show ?thesis
  proof cases
    case Close
    let ?b = "start_task RunCloseSocket (without_task RunCloseSocket a)"
    from 1(3) Close have "RunCloseSocket \<in># mset ks" by simp
    then have "RunCloseSocket \<in> set (sw_tasks (sy_world a))" by (simp add: 1(1))
    then have "sy_do a (EvTask RunCloseSocket) = Some ?b" by simp
    moreover have "sd_rel t ?b"
      using 1 t Close by (intro sd_relI[where ps = ps and ks = "remove1 RunCloseSocket ks" and n = m])
        (auto simp: BoostSession_CloseSocket_def)
    ultimately show ?thesis by (blast intro: sy_stepI)
  next
    case Thread
    let ?a = "a\<lparr>sy_threads := remove1 p (sy_threads a)\<rparr>"
    have "sd_rel ?s ?a"
      using 1 p Thread by (intro sd_relI[where ps = "remove1 p ps" and ks = ks and n = n]) auto
    from resume_rel[OF this t] obtain b where "resume p ?a = Some b" "sd_rel t b" by blast
    moreover from this Thread 1(1) have "sy_do a (EvThread p) = Some b" by simp
    ultimately show ?thesis by (blast intro: sy_stepI)
  qed
qed

lemma task_rel:
  assumes "sd_rel s a" "sy_do s (EvTask k) = Some t" "k \<noteq> RunCloseSocket"
  shows "\<exists>b. sy_step a b \<and> sd_rel t b"
  using assms(1)
proof (cases rule: sd_relE)
  case (1 ps ks n)
  from assms(2) have k: "k \<in> set (sw_tasks (sy_world s))" and t: "t = start_task k (without_task k s)"
    by (auto split: if_splits)
  from k have "k \<in># mset ks" by (simp add: 1(3))
  then have "sy_do a (EvTask k) = Some (start_task k (without_task k a))" by (simp add: 1(1))
  moreover have "sd_rel (without_task k s) (without_task k a)"
    using 1 k assms(3) by (intro sd_relI[where ps = ps and ks = "remove1 k ks" and n = n]) auto
  ultimately show ?thesis
    using start_task_rel[OF _ assms(3)] t by (blast intro: sy_stepI)
qed

lemma send_rel:
  assumes "sd_rel s a" "sy_do s (EvSend sb) = Some t"
  shows "\<exists>b. sy_step a b \<and> sd_rel t b"
  using assms(1)
proof (cases rule: sd_relE)
  case (1 ps ks n)
  obtain ov nf w where l: "Send_lock (sy_world s) (Some sb) = (ov, nf, w)" by (metis prod_cases3)
  then have "Send_lock (sy_world a) (Some sb) = (ov, nf, w\<lparr>sw_tasks := ks\<rparr>)"
    by (auto simp: 1(1) Send_lock_def split: if_splits)
  moreover have "sw_tasks w = sw_tasks (sy_world s)"
    using l by (auto simp: Send_lock_def split: if_splits)
  ultimately show ?thesis
    using 1 assms(2) l
    by (intro exI[of _ "the (sy_do a (EvSend sb))"] conjI sy_stepI[where ev = "EvSend sb"]
        sd_relI[where ps = "ps @ [InSend ov nf]" and ks = ks and n = n]) auto
qed

lemma world_rel:
  assumes "sd_rel s a" "sy_do s ev = Some t"
    and "ev = EvTransmit i m \<or> ev = EvWriteDone i \<or> ev = EvWriteFail i e \<or> ev = EvCloseSocket"
  shows "\<exists>b. sy_step a b \<and> sd_rel t b"
  using assms(1)
proof (cases rule: sd_relE)
  case (1 ps ks n)
  obtain b where b: "sy_do a ev = Some b"
    using assms(2,3) by (auto simp: 1(1) Let_def split: if_splits)
  have "sd_rel t b"
    using assms(2,3) b 1
    by (intro sd_relI[where ps = ps and ks = "sw_tasks (sy_world b)" and n = n])
      (auto simp: Let_def post_def BoostSession_CloseSocket_def split: if_splits)
  with b show ?thesis by (blast intro: sy_stepI)
qed

lemma sd_step_rel:
  assumes "sd_step e s t" "sd_rel s a"
  shows "\<exists>b. (b = a \<or> sy_step a b) \<and> sd_rel t b"
  using assms(1)
proof (rule sd_stepE)
  fix ev assume ev: "sd_do e s ev = Some t"
  then show ?thesis
  proof (cases rule: sd_do_cases)
    case Close
    with close_begins_rel assms(2) show ?thesis by blast
  next
    case (Event sev)
    have "\<exists>b. sy_step a b \<and> sd_rel t b"
    proof (cases sev)
      case (EvTask k)
      with Event ev have "k \<noteq> RunCloseSocket" by (auto split: if_splits)
      with Event EvTask task_rel assms(2) show ?thesis by blast
    next
      case (EvSend sb)
      with Event send_rel assms(2) show ?thesis by blast
    next
      case (EvThread p)
      with Event thread_rel assms(2) show ?thesis by blast
    qed (use Event world_rel[OF assms(2), of sev t] in simp_all)
    then show ?thesis by blast
  qed
qed

interpretation strand_plain: simulation sy_init "sd_step Strand" sy_init "sd_step Plain" "(=)"
proof
  show "\<exists>b. (b = a \<or> sd_step Plain a b) \<and> t = b" if "sd_step Strand s t" "s = a" for s t a
  proof -
    from that obtain ev where ev: "sd_do Strand a ev = Some t" by (auto elim: sd_stepE)
    have "sd_do Plain a ev = Some t"
    proof (cases ev)
      case (SdEvent sev)
      with ev show ?thesis by (cases sev) (auto simp: may_begin_def split: if_splits)
    qed (use ev in \<open>simp add: may_begin_def Let_def split: if_splits\<close>)
    then show ?thesis by (blast intro: sd_stepI)
  qed
qed simp

interpretation sd_session: simulation sy_init "sd_step e" sy_init sy_step sd_rel for e
proof
  show "\<exists>a. sy_init a \<and> sd_rel s a" if "sy_init s" for s
    using that sd_relI[where s = s and a = s and ps = "sy_threads s" and ks = "sw_tasks (sy_world s)" and n = 0] by auto
qed (rule sd_step_rel)

lemma sd_run_reachable:
  "reach sy_init (sd_step e) s \<Longrightarrow> sd_run e s evs = Some t \<Longrightarrow> reach sy_init (sd_step e) t"
proof (induction evs arbitrary: s)
  case (Cons ev evs)
  then obtain u where "sd_do e s ev = Some u" "sd_run e u evs = Some t" by (auto split: option.splits)
  with Cons show ?case by (meson reach_step sd_stepI)
qed simp

lemma connected_plain: "reach sy_init (sd_step e) connected"
  using connected_init by (rule reach_init)

lemma handlers_split:
  "length (handlers s) = length (filter in_sending (sy_threads s)) + length (filter (\<lambda>p. p = InClose) (sy_threads s))"
proof -
  have "length (filter in_handler ps) = length (filter in_sending ps) + length (filter (\<lambda>p. p = InClose) ps)" for ps
  proof (induction ps)
    case (Cons p ps)
    then show ?case by (cases p) auto
  qed simp
  then show ?thesis by (simp add: handlers_def)
qed

section \<open>Properties\<close>


definition racing :: "sd_event list" where
  "racing = [SdEvent (EvSend \<lparr>sb_data = [1]\<rparr>), SdEvent (EvThread (InSend False True)),
     SdEvent (EvTask RunFlushSendQueue), SdEvent (EvThread InFlush), SdEvent (EvWriteFail 0 ''ENOBUFS''),
     SdEvent (EvTask (RunCompleteSend (Some ''ENOBUFS''))),
     SdEvent (EvThread (InComplete (Some ''ENOBUFS''))),
     SdEvent (EvSend \<lparr>sb_data = [2]\<rparr>), SdEvent (EvThread (InSend False True)),
     SdEvent (EvTask RunFlushSendQueue)]"

lemma racing_run:
  "\<exists>s. sd_run Plain connected racing = Some s \<and> sy_threads s = [InClose, InFlush]"
  by (simp add: racing_def session_eval may_begin_def)


text \<open>
  C26: (component \<^verbatim>\<open>BoostSession\<close>, error) The socket is used by two workers at once: a state in
  which one thread is about to start a write on it and another about to shut it down and close
  it can be reached exactly because the socket is not on a strand. After a failed write
  \<^verbatim>\<open>CompleteSend\<close> gives up the sending chain before it closes the socket, so that a new \<^verbatim>\<open>Send\<close>
  starts another chain on another worker.
\<close>
theorem session_socket_race:
  "(\<exists>s. reach sy_init (sd_step e) s \<and> InFlush \<in> set (sy_threads s) \<and> InClose \<in> set (sy_threads s)) \<longleftrightarrow>
   e = Plain"
proof
  assume "\<exists>s. reach sy_init (sd_step e) s \<and> InFlush \<in> set (sy_threads s) \<and> InClose \<in> set (sy_threads s)"
  then obtain s where s: "reach sy_init (sd_step e) s" "InFlush \<in> set (handlers s)" "InClose \<in> set (handlers s)"
    by (auto simp: handlers_def)
  then have "1 < length (handlers s)"
    by (cases "handlers s" rule: remdups_adj.cases) auto
  with strand_one_handler s(1) show "e = Plain" by (cases e) fastforce+
next
  assume "e = Plain"
  with racing_run sd_run_reachable[OF connected_plain]
  show "\<exists>s. reach sy_init (sd_step e) s \<and> InFlush \<in> set (sy_threads s) \<and> InClose \<in> set (sy_threads s)"
    by (metis list.set_intros(1) list.set_intros(2))
qed

text \<open>
  C18: (component \<^verbatim>\<open>BoostSession\<close>, refinement) Handlers that begin and end, on a strand or not, do
  nothing that the session whose posted \<^verbatim>\<open>CloseSocket\<close> runs in one step cannot do: every state
  they reach agrees with one of its states but for the place in which a \<^verbatim>\<open>CloseSocket\<close> under way
  is counted. So the session delivers the accepted bytes in order on either executor. A strand
  only takes schedules away.
\<close>
theorem session_handlers_refine:
  assumes "reach sy_init (sd_step e) s"
  shows "(\<exists>a. session_reachable a \<and> sd_rel s a) \<and> reach sy_init (sd_step Plain) s \<and>
    (\<not> sy_failed s \<longrightarrow> buffers_bytes (sy_accepted s) =
       sw_wire (sy_world s) @
       (if InFlush \<in> set (sy_threads s) then buffers_bytes (bs_sendingBuffers (sy_world s))
        else concat (sw_writes (sy_world s))) @
       buffers_bytes (bs_sendQueue (sy_world s)))"
proof (intro conjI impI)
  from sd_session.reach_sim[OF assms] show "\<exists>a. session_reachable a \<and> sd_rel s a" .
  from strand_plain.reach_sim[of s] assms show "reach sy_init (sd_step Plain) s" by (cases e) auto
  obtain st where st: "flow_ok s st" "data_ok s st"
    using strand_sys.reach_inv[OF assms] unfolding session_inv_def by blast
  assume "\<not> sy_failed s"
  with st(2) flow_under_way[OF st(1)] show "buffers_bytes (sy_accepted s) =
      sw_wire (sy_world s) @
      (if InFlush \<in> set (sy_threads s) then buffers_bytes (bs_sendingBuffers (sy_world s))
       else concat (sw_writes (sy_world s))) @
      buffers_bytes (bs_sendQueue (sy_world s))"
    by (simp add: data_ok_def)
qed

lemma session_handlers_refine_witness:
  "\<exists>s a. sd_run Plain connected racing = Some s \<and> session_reachable a \<and> sd_rel s a"
proof -
  from racing_run obtain s where s: "sd_run Plain connected racing = Some s" by blast
  from session_handlers_refine[OF sd_run_reachable[OF connected_plain s]] s show ?thesis by blast
qed

end
