(* ===== verification/Delegate_Factory.thy ===== *)
theory Delegate_Factory
  imports Contracts
begin

text \<open>
  \<^verbatim>\<open>DataStruct/Delegate.h\<close> and \<^verbatim>\<open>DataStruct/Factory.h\<close>: the list of event callbacks and the
  object factory behind which the engine hides the concrete session type. A callback is a
  function of the arguments and of the state it changes; it may fail, as a C++ callback may
  throw. Callbacks that subscribe to the delegate that is invoking them are outside the model:
  the range-based loop over the vector does not allow them.
\<close>

section \<open>Delegates\<close>

type_synonym ('args, 's) Callback = "'args \<Rightarrow> 's \<Rightarrow> 's res"

record ('args, 's) Delegate =
  dg_callbacks :: "('args, 's) Callback list"

definition Delegate_new :: "('args, 's) Delegate" where
  "Delegate_new = \<lparr>dg_callbacks = []\<rparr>"

definition Delegate_Subscribe ::
  "('args, 's) Delegate \<Rightarrow> ('args, 's) Callback \<Rightarrow> UINT32 \<times> ('args, 's) Delegate" where
  "Delegate_Subscribe d callback =
     (let eventID = word_of_nat (length (dg_callbacks d))
      in (eventID, d\<lparr>dg_callbacks := dg_callbacks d @ [callback]\<rparr>))"

fun invoke_all :: "('args, 's) Callback list \<Rightarrow> 'args \<Rightarrow> 's \<Rightarrow> 's res" where
  "invoke_all [] args s = Inr s"
| "invoke_all (f # fs) args s = bind_res (f args s) (invoke_all fs args)"

definition Delegate_Invoke :: "('args, 's) Delegate \<Rightarrow> 'args \<Rightarrow> 's \<Rightarrow> 's res" where
  "Delegate_Invoke d args s = invoke_all (dg_callbacks d) args s"

definition Delegate_Count :: "('args, 's) Delegate \<Rightarrow> UINT32" where
  "Delegate_Count d = word_of_nat (length (dg_callbacks d))"

definition Delegate_Clear :: "('args, 's) Delegate \<Rightarrow> ('args, 's) Delegate" where
  "Delegate_Clear d = d\<lparr>dg_callbacks := []\<rparr>"

fun subscribe_all :: "('args, 's) Delegate \<Rightarrow> ('args, 's) Callback list \<Rightarrow>
    UINT32 list \<times> ('args, 's) Delegate" where
  "subscribe_all d [] = ([], d)"
| "subscribe_all d (f # fs) =
     (case Delegate_Subscribe d f of (i, d1) \<Rightarrow>
        (case subscribe_all d1 fs of (is, d2) \<Rightarrow> (i # is, d2)))"

lemma invoke_all_append:
  "invoke_all (fs @ gs) args s = bind_res (invoke_all fs args s) (invoke_all gs args)"
proof (induction fs arbitrary: s)
  case (Cons f fs)
  then show ?case by (cases "f args s") simp_all
qed simp

lemma subscribe_all_eq:
  "subscribe_all d fs =
    (map (\<lambda>i. word_of_nat (length (dg_callbacks d) + i)) [0..<length fs],
     d\<lparr>dg_callbacks := dg_callbacks d @ fs\<rparr>)"
proof (induction fs arbitrary: d)
  case (Cons f fs)
  have "[0..<length (f # fs)] = 0 # map Suc [0..<length fs]"
    by (simp add: map_Suc_upt upt_conv_Cons del: upt_Suc)
  then show ?case
    by (simp add: Cons.IH Delegate_Subscribe_def Let_def comp_def del: upt_Suc)
qed simp

lemma Delegate_Invoke_Subscribe:
  "Delegate_Invoke (snd (Delegate_Subscribe d f)) args s =
     bind_res (Delegate_Invoke d args s) (f args)"
  by (cases "invoke_all (dg_callbacks d) args s")
    (auto simp: Delegate_Invoke_def Delegate_Subscribe_def Let_def invoke_all_append
       bind_res_def split: sum.splits)

section \<open>Factories\<close>

text \<open>
  The interface \<^verbatim>\<open>IFactory\<close>: \<^verbatim>\<open>Create\<close> returns null or an object that did not exist before.
  \<open>live\<close> is the set of objects that exist.
\<close>

locale object_factory =
  fixes create :: "'h \<Rightarrow> addr option \<times> 'h"
    and live :: "'h \<Rightarrow> addr set"
  assumes create_fresh: "create h = (Some a, h') \<Longrightarrow> a \<notin> live h \<and> live h' = insert a (live h)"
    and create_null: "create h = (None, h') \<Longrightarrow> live h' = live h"

text \<open>The loop of a client that creates up to \<open>n\<close> objects and stops at the first null.\<close>

fun create_many :: "('h \<Rightarrow> addr option \<times> 'h) \<Rightarrow> nat \<Rightarrow> 'h \<Rightarrow> addr list \<times> 'h" where
  "create_many create 0 h = ([], h)"
| "create_many create (Suc n) h =
     (case create h of
        (None, h1) \<Rightarrow> ([], h1)
      | (Some a, h1) \<Rightarrow> (case create_many create n h1 of (as, h2) \<Rightarrow> (a # as, h2)))"

context object_factory begin

lemma create_many_fresh:
  "create_many create n h = (as, h') \<Longrightarrow>
   distinct as \<and> set as \<inter> live h = {} \<and> live h' = live h \<union> set as \<and> length as \<le> n"
proof (induction n arbitrary: h as h')
  case (Suc n)
  obtain r h1 where c: "create h = (r, h1)" by force
  show ?case
  proof (cases r)
    case None
    with c Suc.prems create_null show ?thesis by auto
  next
    case (Some a)
    obtain bs h2 where m: "create_many create n h1 = (bs, h2)" by force
    with Suc.prems c Some have "as = a # bs" "h' = h2" by auto
    moreover from c Some create_fresh have "a \<notin> live h" "live h1 = insert a (live h)" by auto
    ultimately show ?thesis
      using Suc.IH[OF m] by auto
  qed
qed auto

end

text \<open>
  The class template \<^verbatim>\<open>Factory\<close>: \<^verbatim>\<open>std::make_shared\<close> puts a new object, built from the stored
  arguments by the constructor \<open>mk\<close>, at a new address; the heap is the list of the objects.
\<close>

record 'args Factory =
  fc_args :: 'args

definition Factory_new :: "'args \<Rightarrow> 'args Factory" where
  "Factory_new args = \<lparr>fc_args = args\<rparr>"

definition Factory_Create ::
  "('args \<Rightarrow> 'obj) \<Rightarrow> 'args Factory \<Rightarrow> 'obj list \<Rightarrow> addr option \<times> 'obj list" where
  "Factory_Create mk f heap = (Some (length heap), heap @ [mk (fc_args f)])"

interpretation made_objects: object_factory "Factory_Create mk f" "\<lambda>heap. {..<length heap}"
  for mk f
  by unfold_locales (auto simp: Factory_Create_def)

lemma Factory_create_many:
  "create_many (Factory_Create mk f) n heap =
     ([length heap..<length heap + n], heap @ replicate n (mk (fc_args f)))"
proof (induction n arbitrary: heap)
  case (Suc n)
  then show ?case
    by (simp add: Factory_Create_def upt_conv_Cons replicate_append_same del: upt_Suc)
qed simp

section \<open>Properties\<close>

text \<open>
  Subscribing a list of callbacks to a new
  delegate gives them the numbers \<open>0, 1, \<dots>\<close> and \<^verbatim>\<open>Count\<close> their number, both below \<open>2 ^ 32\<close>;
  \<^verbatim>\<open>Invoke\<close> then runs each exactly once in that order, the first that fails ending the call with
  its failure; \<^verbatim>\<open>Clear\<close> makes the delegate new again, so that its numbers are handed out anew.
\<close>
theorem delegate_invokes_in_order:
  assumes "length fs < 2 ^ 32"
  shows "\<exists>ids d. subscribe_all Delegate_new fs = (ids, d) \<and>
    map unat ids = [0..<length fs] \<and> unat (Delegate_Count d) = length fs \<and>
    Delegate_Invoke d args s = fold (\<lambda>f r. bind_res r (f args)) fs (Inr s) \<and>
    Delegate_Clear d = Delegate_new"
proof -
  have fold: "invoke_all fs args s = fold (\<lambda>f r. bind_res r (f args)) fs (Inr s)" for s
  proof (induction fs rule: rev_induct)
    case (snoc f fs)
    have "bind_res r (\<lambda>x. bind_res (f args x) Inr) = bind_res r (f args)" for r :: "'b res"
      by (cases r; cases "f args (projr r)") auto
    with snoc show ?case
      by (auto simp: invoke_all_append bind_res_def split: sum.splits)
  qed simp
  show ?thesis
    using assms
    by (auto simp: subscribe_all_eq Delegate_new_def Delegate_Count_def Delegate_Clear_def
        Delegate_Invoke_def fold unat_of_nat32 comp_def intro!: nth_equalityI)
qed

lemma delegate_invokes_in_order_witness:
  "\<exists>ids d. subscribe_all Delegate_new [\<lambda>x s. Inr (s @ [x]), \<lambda>x s. Inl (Thrown ''stop''), \<lambda>x s. Inr []]
       = (ids, d) \<and>
     map unat ids = [0, 1, 2] \<and> Delegate_Invoke d 7 [1 :: nat] = Inl (Thrown ''stop'')"
proof -
  let ?fs = "[\<lambda>x s. Inr (s @ [x]), \<lambda>x s. Inl (Thrown ''stop''), \<lambda>x s. Inr []] :: (nat, nat list) Callback list"
  have "length ?fs < 2 ^ 32" by simp
  from delegate_invokes_in_order[OF this, of 7 "[1]"] show ?thesis
    by (auto simp: upt_rec)
qed

end
