(* ===== verification/Thread_Model.thy ===== *)
theory Thread_Model
  imports Prelude
begin

text \<open>
  \<^verbatim>\<open>Threading/Thread\<close>: the named worker thread over \<^verbatim>\<open>std::thread\<close>. The worker is kept by an
  identity; whether it has returned is part of the state, since \<^verbatim>\<open>join\<close> waits for it: a call
  that does not return is \<open>None\<close>. The thread name goes through the 16-byte buffer of the Linux
  branch.
\<close>

section \<open>The thread\<close>

text \<open>A \<^verbatim>\<open>std::thread\<close> is joinable from its start to its join, also after the worker returned.\<close>

datatype 'w std_thread = NoThread | Running string 'w | Returned string 'w

definition joinable :: "'w std_thread \<Rightarrow> bool" where
  "joinable t = (case t of NoThread \<Rightarrow> False | _ \<Rightarrow> True)"

record 'w Thread =
  th_thread :: "'w std_thread"

definition Thread_new :: "'w Thread" where
  "Thread_new = \<lparr>th_thread = NoThread\<rparr>"

text \<open>
  \<^verbatim>\<open>SetName\<close> copies into a buffer with arbitrary contents \<open>clampedName\<close>; the result is the name
  the system is given, read up to its terminator.
\<close>

definition Thread_SetName :: "string \<Rightarrow> string \<Rightarrow> string" where
  "Thread_SetName clampedName name =
     c_str ((strncpy clampedName name 15)[15 := NUL])"

text \<open>
  On Windows the name is converted to UTF-16 in an array of 64 units, given here as
  \<open>MultiByteToWideChar name buffer\<close>, the buffer after the call; the system reads it up to a
  terminator.
\<close>

definition Thread_SetName_win32 :: "(string \<Rightarrow> UINT16 list \<Rightarrow> UINT16 list) \<Rightarrow> string \<Rightarrow> UINT16 list res" where
  "Thread_SetName_win32 MultiByteToWideChar name =
     (let wideName = MultiByteToWideChar name (replicate 64 0)
      in if 0 \<in> set wideName then Inr (takeWhile (\<lambda>c. c \<noteq> 0) wideName) else Inl OutOfBounds)"

text \<open>
  \<open>can_spawn\<close> tells whether the system grants a thread; otherwise the constructor of
  \<^verbatim>\<open>std::thread\<close> throws. Assigning to a \<^verbatim>\<open>std::thread\<close> that is still joinable terminates the
  program, and so does a worker that is an empty \<^verbatim>\<open>std::function\<close>, whose call throws in the
  new thread.
\<close>

definition Thread_Start ::
  "build \<Rightarrow> bool \<Rightarrow> string \<Rightarrow> 'w Thread \<Rightarrow> string \<Rightarrow> 'w option \<Rightarrow> 'w Thread res" where
  "Thread_Start b can_spawn stack_bytes t name workerThread =
     ASSERT b (name \<noteq> []) ''Name is empty''
       (ASSERT b (workerThread \<noteq> None) ''WorkerThread is null''
         (ASSERT b (\<not> joinable (th_thread t)) ''Thread is already running''
           (if \<not> can_spawn then Inl (Thrown ''std::system_error'')
            else if joinable (th_thread t) then Inl Terminated
            else (case workerThread of
                    None \<Rightarrow> Inl Terminated
                  | Some w \<Rightarrow>
                      Inr (t\<lparr>th_thread := Running (Thread_SetName stack_bytes name) w\<rparr>)))))"

text \<open>The worker function of a running thread returns.\<close>

definition worker_returns :: "'w Thread \<Rightarrow> 'w Thread" where
  "worker_returns t =
     (case th_thread t of Running n w \<Rightarrow> t\<lparr>th_thread := Returned n w\<rparr> | _ \<Rightarrow> t)"

definition Thread_Join :: "'w Thread \<Rightarrow> 'w Thread option" where
  "Thread_Join t =
     (case th_thread t of
        NoThread \<Rightarrow> Some t
      | Running n w \<Rightarrow> None
      | Returned n w \<Rightarrow> Some (t\<lparr>th_thread := NoThread\<rparr>))"

definition Thread_delete :: "'w Thread \<Rightarrow> 'w Thread option" where
  "Thread_delete t = Thread_Join t"

lemma Thread_SetName_eq:
  "length buf = 16 \<Longrightarrow> Thread_SetName buf name = take 15 (c_str name)"
  using c_str_strncpy_terminated[of buf 15 name] by (simp add: Thread_SetName_def)

text \<open>
  The conversion of a name with a given length adds no terminator, so one that takes all the 64
  units is read past the end of the array.
\<close>

lemma Thread_SetName_win32_eq:
  assumes "\<And>buf. length ws \<le> length buf \<Longrightarrow> convert name buf = ws @ drop (length ws) buf" "0 \<notin> set ws"
  shows "length ws < 64 \<Longrightarrow> Thread_SetName_win32 convert name = Inr ws"
    and "length ws = 64 \<Longrightarrow> Thread_SetName_win32 convert name = Inl OutOfBounds"
proof -
  have buf: "length ws \<le> 64 \<Longrightarrow> convert name (replicate 64 0) = ws @ replicate (64 - length ws) 0"
    using assms(1)[of "replicate 64 0"] by (simp only: length_replicate drop_replicate)
  have ws: "takeWhile (\<lambda>c. c \<noteq> 0) (ws @ 0 # zs) = ws" for zs
    using assms(2) by (subst takeWhile_append2) auto
  show "Thread_SetName_win32 convert name = Inr ws" if "length ws < 64"
  proof -
    have "0 < 64 - length ws" using that by (simp only: zero_less_diff)
    then obtain k where "64 - length ws = Suc k" using gr0_implies_Suc by blast
    then have "convert name (replicate 64 0) = ws @ 0 # replicate k 0"
      using buf that by (simp only: replicate_Suc less_imp_le)
    then show ?thesis unfolding Thread_SetName_win32_def Let_def by (simp only: ws) simp
  qed
  show "Thread_SetName_win32 convert name = Inl OutOfBounds" if "length ws = 64"
  proof -
    have "convert name (replicate 64 0) = ws" using buf that by (simp only: order_refl diff_self_eq_0 replicate_0 append_Nil2)
    then show ?thesis using assms(2) unfolding Thread_SetName_win32_def Let_def by (simp only: if_False)
  qed
qed

lemma Thread_Start_ok:
  "length buf = 16 \<Longrightarrow> th_thread t = NoThread \<Longrightarrow> name \<noteq> [] \<Longrightarrow>
   Thread_Start b True buf t name (Some w) = Inr (t\<lparr>th_thread := Running (take 15 (c_str name)) w\<rparr>)"
  by (simp add: Thread_Start_def joinable_def Thread_SetName_eq)

section \<open>Properties\<close>

text \<open>
  A thread that is not running can be started under any
  non-empty name; the system sees the first 15 characters of it. Until its worker returns,
  \<^verbatim>\<open>Join\<close> and the destructor block, and a second start aborts where assertions are compiled in
  and terminates the program where they are not; once the worker has returned, \<^verbatim>\<open>Join\<close> gives
  back a thread that can be started again.
\<close>
theorem thread_lifecycle:
  assumes "length buf = 16" "name \<noteq> []"
  shows "\<exists>t. Thread_Start b True buf Thread_new name (Some w) = Inr t \<and>
    th_thread t = Running (take 15 (c_str name)) w \<and>
    Thread_Join t = None \<and> Thread_delete t = None \<and>
    Thread_Start b True buf t name (Some v) =
      Inl (if b = Debug then AssertFailed ''Thread is already running'' else Terminated) \<and>
    Thread_Join (worker_returns t) = Some Thread_new \<and>
    Thread_delete (worker_returns t) = Some Thread_new"
proof -
  let ?t = "\<lparr>th_thread = Running (take 15 (c_str name)) w\<rparr>"
  have "Thread_Start b True buf Thread_new name (Some w) = Inr ?t"
    using assms by (simp add: Thread_Start_ok Thread_new_def)
  moreover have "Thread_Start b True buf ?t name (Some v) =
      Inl (if b = Debug then AssertFailed ''Thread is already running'' else Terminated)"
    using assms by (cases b) (simp_all add: Thread_Start_def joinable_def ASSERT_fail)
  ultimately show ?thesis
    by (intro exI[of _ ?t]) (simp add: Thread_Join_def Thread_delete_def worker_returns_def Thread_new_def)
qed

lemma thread_lifecycle_witness:
  "\<exists>t. Thread_Start Debug True (replicate 16 CHR ''x'') Thread_new ''NetEngineIO_1023'' (Some (0 :: nat)) = Inr t \<and>
     th_thread t = Running ''NetEngineIO_102'' 0"
proof -
  have "length (replicate 16 CHR ''x'') = 16" "''NetEngineIO_1023'' \<noteq> []" by simp_all
  from thread_lifecycle[OF this, of Debug 0 1] show ?thesis
    by (auto simp: c_str_def NUL_def)
qed

text \<open>
  \<^verbatim>\<open>Start\<close> fails before it touches the thread in exactly
  these cases: with assertions on an empty name, a null worker or a running thread; without
  them the empty name is accepted and the other two terminate the program; in both builds when
  the system grants no thread.
\<close>
theorem thread_start_failures:
  "is_ok (Thread_Start b can_spawn buf t name worker) \<longleftrightarrow>
     can_spawn \<and> worker \<noteq> None \<and> \<not> joinable (th_thread t) \<and> (if b = Debug then name \<noteq> [] else True)"
  by (cases b; cases worker) (auto simp: Thread_Start_def ok_simps)

end
