(* ===== verification/Net_Engine.thy ===== *)
theory Net_Engine
  imports Lock_Stack Delegate_Factory Thread_Model
begin

text \<open>
  \<^verbatim>\<open>EngineCommon/NetEngine\<close> and \<^verbatim>\<open>BoostNetEngine\<close>: the session pool, the worker threads on the
  \<^verbatim>\<open>io_context\<close>, and starting and stopping. What an event callback can change is the record
  \<open>EngineState\<close>; it includes what the engine uses of Boost.Asio: the \<^verbatim>\<open>io_context\<close> (stopped or
  not, its work guard, the handlers that are ready to run) and the acceptor's pending
  operations, which the theory \<open>Boost_Acceptor\<close> works on.
\<close>

section \<open>State\<close>

datatype asio_error = operation_aborted | other_error string

type_synonym asio_result = "asio_error option"

text \<open>The completion handlers of the acceptor: of an accept into a session, and of its timer.\<close>

datatype handler = AcceptDone addr asio_result | TimerDone asio_result

record EngineState =
  es_isRun :: bool
  es_sessionPool :: "addr option LockStack0"
  es_usingSessions :: "addr option list"
  io_stopped :: bool
  io_guard :: bool
  io_ready :: "handler list"
  ac_open :: bool
  ac_accepts :: "addr list"
  ac_timer_waits :: nat

type_synonym EngineEvent = "(unit, EngineState) Callback"

record NetEngine =
  ne_state :: EngineState
  ne_startDelegator :: "(unit, EngineState) Delegate"
  ne_stopDelegator :: "(unit, EngineState) Delegate"
  ne_threads :: "unit Thread list"

section \<open>Construction\<close>

text \<open>
  The loop of the constructor: sessions from the factory go to the pool until the count is
  reached or the factory returns null, at which the constructor returns. \<open>grow\<close> is the growth
  policy of the vector under the pool.
\<close>

fun fill_pool :: "(nat \<Rightarrow> nat) \<Rightarrow> ('h \<Rightarrow> addr option \<times> 'h) \<Rightarrow> nat \<Rightarrow> addr option LockStack0 \<Rightarrow> 'h \<Rightarrow>
    addr option LockStack0 \<times> 'h" where
  "fill_pool grow create 0 pool h = (pool, h)"
| "fill_pool grow create (Suc n) pool h =
     (case create h of
        (None, h1) \<Rightarrow> (pool, h1)
      | (Some session, h1) \<Rightarrow>
          (case LockStack0_Push grow pool (Some session) of
             Inl _ \<Rightarrow> (pool, h1)
           | Inr pool1 \<Rightarrow> fill_pool grow create n pool1 h1))"

definition engine_state_new :: "UINT32 \<Rightarrow> addr option LockStack0 \<Rightarrow> EngineState" where
  "engine_state_new sessionCount pool =
     \<lparr>es_isRun = False, es_sessionPool = pool, es_usingSessions = replicate (unat sessionCount) None,
      io_stopped = False, io_guard = True, io_ready = [],
      ac_open = False, ac_accepts = [], ac_timer_waits = 0\<rparr>"

definition NetEngine_new ::
  "build \<Rightarrow> (nat \<Rightarrow> nat) \<Rightarrow> UINT32 \<Rightarrow> UINT32 \<Rightarrow> ('h \<Rightarrow> addr option \<times> 'h) option \<Rightarrow> 'h \<Rightarrow> (NetEngine \<times> 'h) res" where
  "NetEngine_new b grow ioThreadCount sessionCount sessionFactory h =
     ASSERT b (0 < ioThreadCount) ''IoThreadCount is zero''
       (ASSERT b (0 < sessionCount) ''SessionCount is zero''
         (ASSERT b (sessionFactory \<noteq> None) ''sessionFactory is null''
           (case sessionFactory of
              None \<Rightarrow>
                if 0 < sessionCount then Inl NullDeref
                else Inr (\<lparr>ne_state = engine_state_new sessionCount (LockStack0_Reserve LockStack0_new sessionCount),
                           ne_startDelegator = Delegate_new, ne_stopDelegator = Delegate_new,
                           ne_threads = replicate (unat ioThreadCount) Thread_new\<rparr>, h)
            | Some create \<Rightarrow>
                (case fill_pool grow create (unat sessionCount) (LockStack0_Reserve LockStack0_new sessionCount) h of
                   (pool, h1) \<Rightarrow>
                     Inr (\<lparr>ne_state = engine_state_new sessionCount pool,
                            ne_startDelegator = Delegate_new, ne_stopDelegator = Delegate_new,
                            ne_threads = replicate (unat ioThreadCount) Thread_new\<rparr>, h1)))))"

section \<open>Sessions and events\<close>

definition IsRunning :: "EngineState \<Rightarrow> bool" where
  "IsRunning es = es_isRun es"

definition TakeSession :: "EngineState \<Rightarrow> addr option \<times> EngineState" where
  "TakeSession es =
     (case LockStack0_TryPop (es_sessionPool es) None of
        (found, session, pool) \<Rightarrow>
          (if found then session else None, es\<lparr>es_sessionPool := pool\<rparr>))"

definition ReleaseSession :: "(nat \<Rightarrow> nat) \<Rightarrow> EngineState \<Rightarrow> addr option \<Rightarrow> addr option \<times> EngineState" where
  "ReleaseSession grow es session =
     (case LockStack0_Push grow (es_sessionPool es) session of
        Inl _ \<Rightarrow> (None, es)
      | Inr pool \<Rightarrow> (None, es\<lparr>es_sessionPool := pool\<rparr>))"

definition AddStartEvent :: "NetEngine \<Rightarrow> EngineEvent \<Rightarrow> NetEngine" where
  "AddStartEvent ne event = ne\<lparr>ne_startDelegator := snd (Delegate_Subscribe (ne_startDelegator ne) event)\<rparr>"

definition AddStopEvent :: "NetEngine \<Rightarrow> EngineEvent \<Rightarrow> NetEngine" where
  "AddStopEvent ne event = ne\<lparr>ne_stopDelegator := snd (Delegate_Subscribe (ne_stopDelegator ne) event)\<rparr>"

section \<open>Starting and stopping\<close>

definition thread_name :: "nat \<Rightarrow> string" where
  "thread_name i = ''NetEngineIO_'' @ to_string i"

fun start_threads :: "build \<Rightarrow> bool \<Rightarrow> string \<Rightarrow> nat \<Rightarrow> unit Thread list \<Rightarrow> unit Thread list res" where
  "start_threads b can_spawn buf i [] = Inr []"
| "start_threads b can_spawn buf i (t # ts) =
     bind_res (Thread_Start b can_spawn buf t (thread_name i) (Some ())) (\<lambda>t'.
     bind_res (start_threads b can_spawn buf (Suc i) ts) (\<lambda>ts'. Inr (t' # ts')))"

definition NetEngine_Start :: "build \<Rightarrow> bool \<Rightarrow> string \<Rightarrow> NetEngine \<Rightarrow> NetEngine res" where
  "NetEngine_Start b can_spawn buf ne =
     ASSERT b (0 < length (ne_threads ne)) ''threadCount is zero''
       (bind_res (start_threads b can_spawn buf 0 (ne_threads ne)) (\<lambda>threads.
        bind_res (Delegate_Invoke (ne_startDelegator ne) () ((ne_state ne)\<lparr>es_isRun := True\<rparr>)) (\<lambda>es.
        Inr (ne\<lparr>ne_threads := threads, ne_state := es\<rparr>))))"

text \<open>
  A worker, \<^verbatim>\<open>RunThreadWorker\<close>, is \<^verbatim>\<open>io_context::run\<close>: it returns when the context is stopped,
  or when the work guard is gone and no handler is left.
\<close>

definition RunThreadWorker_returns :: "EngineState \<Rightarrow> bool" where
  "RunThreadWorker_returns es \<longleftrightarrow>
     io_stopped es \<or> (\<not> io_guard es \<and> io_ready es = [] \<and> ac_accepts es = [] \<and> ac_timer_waits es = 0)"

text \<open>\<^verbatim>\<open>Join\<close> of every thread in turn; \<open>None\<close> if one of them never returns.\<close>

fun join_threads :: "bool \<Rightarrow> unit Thread list \<Rightarrow> unit Thread list option" where
  "join_threads returns [] = Some []"
| "join_threads returns (t # ts) =
     (case Thread_Join (if returns then worker_returns t else t) of
        None \<Rightarrow> None
      | Some t' \<Rightarrow> map_option ((#) t') (join_threads returns ts))"

text \<open>\<open>None\<close>: the call does not return. The exchange of \<^verbatim>\<open>m_isRun\<close> is one atomic step.\<close>

definition NetEngine_Stop :: "NetEngine \<Rightarrow> NetEngine res option" where
  "NetEngine_Stop ne =
     (if es_isRun (ne_state ne) = False then Some (Inr ne)
      else case Delegate_Invoke (ne_stopDelegator ne) () ((ne_state ne)\<lparr>es_isRun := False\<rparr>) of
             Inl e \<Rightarrow> Some (Inl e)
           | Inr es \<Rightarrow>
               map_option (\<lambda>threads. Inr (ne\<lparr>ne_state := es, ne_threads := threads\<rparr>))
                 (join_threads (RunThreadWorker_returns es) (ne_threads ne)))"

section \<open>The Boost engine\<close>

definition BoostNetEngine_StopEngineEvent :: EngineEvent where
  "BoostNetEngine_StopEngineEvent u es = Inr (es\<lparr>io_stopped := True, io_guard := False\<rparr>)"

text \<open>
  \<open>self\<close> is what \<^verbatim>\<open>shared_from_this\<close> finds: \<open>None\<close> while no shared pointer owns the engine, which
  is so for the whole of its constructor, and then it throws.
\<close>

definition BoostNetEngine_new ::
  "build \<Rightarrow> (nat \<Rightarrow> nat) \<Rightarrow> addr option \<Rightarrow> UINT32 \<Rightarrow> UINT32 \<Rightarrow> (addr \<Rightarrow> 'h \<Rightarrow> addr option \<times> 'h) \<Rightarrow> 'h \<Rightarrow>
   (NetEngine \<times> 'h) res" where
  "BoostNetEngine_new b grow self ioThreadCount sessionCount create h =
     (case self of
        None \<Rightarrow> Inl (Thrown ''std::bad_weak_ptr'')
      | Some engine \<Rightarrow>
          bind_res (NetEngine_new b grow ioThreadCount sessionCount (Some (create engine)) h) (\<lambda>(ne, h1).
            Inr (AddStopEvent ne BoostNetEngine_StopEngineEvent, h1)))"

definition TakeBoostSession :: "EngineState \<Rightarrow> addr option \<times> EngineState" where
  "TakeBoostSession es = TakeSession es"

section \<open>Lemmas\<close>

lemma fill_pool_eq:
  "fill_pool grow create n pool h = (pool', h') \<Longrightarrow>
   ls0_stack pool' = ls0_stack pool @ map Some (fst (create_many create n h)) \<and>
   h' = snd (create_many create n h)"
proof (induction n arbitrary: pool h)
  case (Suc n)
  obtain r h1 where c: "create h = (r, h1)" by force
  show ?case
  proof (cases r)
    case None
    with c Suc.prems show ?thesis by auto
  next
    case (Some a)
    with c Suc.prems have "fill_pool grow create n (vector_push grow pool (Some a)) h1 = (pool', h')"
      by (simp add: LockStack0_Push_def)
    from Suc.IH[OF this] c Some show ?thesis
      by (auto simp: vector_push_def split: prod.splits)
  qed
qed simp

lemma TakeSession_cases:
  "TakeSession es =
    (if ls0_stack (es_sessionPool es) = [] then (None, es)
     else (last (ls0_stack (es_sessionPool es)),
           es\<lparr>es_sessionPool := (es_sessionPool es)\<lparr>ls0_stack := butlast (ls0_stack (es_sessionPool es))\<rparr>\<rparr>))"
  by (simp add: TakeSession_def LockStack0_TryPop_def)

lemma start_threads_length:
  "start_threads b cs buf i ts = Inr ts' \<Longrightarrow> length ts' = length ts"
  by (induction ts arbitrary: i ts') (auto simp: res_simps)

lemma start_threads_ok:
  assumes "length buf = 16" "\<forall>t\<in>set ts. th_thread t = NoThread"
  shows "start_threads b True buf i ts =
    Inr (map (\<lambda>k. \<lparr>th_thread = Running (take 15 (c_str (thread_name k))) ()\<rparr>) [i..<i + length ts])"
  using assms(2)
proof (induction ts arbitrary: i)
  case (Cons t ts)
  have "thread_name i \<noteq> []" by (simp add: thread_name_def)
  with Cons assms(1) show ?case
    by (cases t) (simp add: Thread_Start_ok upt_conv_Cons del: upt_Suc)
qed simp

lemma join_threads_returned:
  "\<forall>t\<in>set ts. joinable (th_thread t) \<Longrightarrow> join_threads True ts = Some (replicate (length ts) Thread_new)"
proof (induction ts)
  case (Cons t ts)
  then show ?case
    by (cases t; cases "th_thread t") (auto simp: Thread_Join_def worker_returns_def joinable_def Thread_new_def)
qed simp

lemma join_threads_blocks:
  "\<exists>t\<in>set ts. \<exists>n w. th_thread t = Running n w \<Longrightarrow> join_threads False ts = None"
  by (induction ts) (auto simp: Thread_Join_def split: option.splits)

end
