(* ===== verification/Boost_Acceptor.thy ===== *)
theory Boost_Acceptor
  imports Net_Engine
begin

text \<open>
  \<^verbatim>\<open>Boost/BoostAcceptor\<close> and \<^verbatim>\<open>BoostNetEngineServer\<close>: the loop that takes a session from the
  pool, waits for a connection into it and starts over, with its retry timer; the start and
  stop events of the server. A handler runs as one step; network, timer and the thread that
  stops the engine interleave with the handlers. The pool, the pending accept, the handlers
  ready to run and the sessions already connected are proved to share out the sessions.
\<close>

section \<open>The acceptor\<close>

text \<open>Setting a timer's expiry or cancelling it completes its waits with \<open>operation_aborted\<close>.\<close>

definition cancel_timer :: "EngineState \<Rightarrow> EngineState" where
  "cancel_timer es =
     es\<lparr>io_ready := io_ready es @ replicate (ac_timer_waits es) (TimerDone (Some operation_aborted)),
        ac_timer_waits := 0\<rparr>"

definition RetryAcception :: "EngineState \<Rightarrow> EngineState" where
  "RetryAcception es =
     (let es1 = cancel_timer es in es1\<lparr>ac_timer_waits := ac_timer_waits es1 + 1\<rparr>)"

text \<open>An accept on a closed acceptor completes with an error at once.\<close>

definition async_accept :: "addr \<Rightarrow> EngineState \<Rightarrow> EngineState" where
  "async_accept session es =
     (if ac_open es then es\<lparr>ac_accepts := ac_accepts es @ [session]\<rparr>
      else es\<lparr>io_ready := io_ready es @ [AcceptDone session (Some (other_error ''bad_descriptor''))]\<rparr>)"

definition AcceptSession :: "EngineState \<Rightarrow> EngineState" where
  "AcceptSession es =
     (if IsRunning es = False then es
      else (case TakeBoostSession es of
              (None, es1) \<Rightarrow> RetryAcception es1
            | (Some session, es1) \<Rightarrow> async_accept session es1))"

definition CompleteAcception :: "(nat \<Rightarrow> nat) \<Rightarrow> EngineState \<Rightarrow> addr \<Rightarrow> asio_result \<Rightarrow> EngineState" where
  "CompleteAcception grow es session errorCode =
     (if IsRunning es = False then snd (ReleaseSession grow es (Some session))
      else case errorCode of
             Some e \<Rightarrow>
               (let es1 = snd (ReleaseSession grow es (Some session))
                in if e \<noteq> operation_aborted then AcceptSession es1 else es1)
           | None \<Rightarrow> AcceptSession es)"

definition retry_handler :: "EngineState \<Rightarrow> asio_result \<Rightarrow> EngineState" where
  "retry_handler es errorCode = (if errorCode \<noteq> None then es else AcceptSession es)"

text \<open>\<open>bind_ok\<close>: whether the port can be bound; opening an open acceptor throws as well.\<close>

definition StartListening :: "bool \<Rightarrow> EngineState \<Rightarrow> EngineState res" where
  "StartListening bind_ok es =
     (if ac_open es then Inl (Thrown ''boost::system::system_error'')
      else if \<not> bind_ok then Inl (Thrown ''boost::system::system_error'')
      else Inr (AcceptSession (es\<lparr>ac_open := True\<rparr>)))"

definition StopListening :: "EngineState \<Rightarrow> EngineState" where
  "StopListening es =
     cancel_timer (es\<lparr>ac_open := False, ac_accepts := [],
       io_ready := io_ready es @ map (\<lambda>s. AcceptDone s (Some operation_aborted)) (ac_accepts es)\<rparr>)"

definition StartEngineEvent :: "bool \<Rightarrow> EngineEvent" where
  "StartEngineEvent bind_ok u es = StartListening bind_ok es"

definition StopEngineEvent :: EngineEvent where
  "StopEngineEvent u es = Inr (StopListening es)"

definition BoostNetEngineServer_new ::
  "build \<Rightarrow> (nat \<Rightarrow> nat) \<Rightarrow> bool \<Rightarrow> addr option \<Rightarrow> UINT32 \<Rightarrow> UINT32 \<Rightarrow> (addr \<Rightarrow> 'h \<Rightarrow> addr option \<times> 'h) \<Rightarrow> 'h \<Rightarrow>
   (NetEngine \<times> 'h) res" where
  "BoostNetEngineServer_new b grow bind_ok self ioThreadCount sessionCount create h =
     bind_res (BoostNetEngine_new b grow self ioThreadCount sessionCount create h) (\<lambda>(ne, h1).
       Inr (AddStopEvent (AddStartEvent ne (StartEngineEvent bind_ok)) StopEngineEvent, h1))"

definition run_handler :: "(nat \<Rightarrow> nat) \<Rightarrow> handler \<Rightarrow> EngineState \<Rightarrow> EngineState" where
  "run_handler grow h es =
     (case h of
        AcceptDone session ec \<Rightarrow> CompleteAcception grow es session ec
      | TimerDone ec \<Rightarrow> retry_handler es ec)"

section \<open>The system\<close>

text \<open>
  A server that has been started. The three statements by which \<^verbatim>\<open>NetEngine::Stop\<close> changes it,
  in the order of the stop events, are the stop phases. For the statements only, the system
  records the sessions that were connected.
\<close>

record AcceptSys =
  as_state :: EngineState
  as_phase :: nat
  as_connected :: "addr list"

datatype accept_event =
    AcIncoming
  | AcAcceptError string
  | AcTimerFires
  | AcRun handler
  | AcStop

fun accept_do :: "(nat \<Rightarrow> nat) \<Rightarrow> AcceptSys \<Rightarrow> accept_event \<Rightarrow> AcceptSys option" where
  "accept_do grow a AcIncoming =
     (case ac_accepts (as_state a) of
        [] \<Rightarrow> None
      | s # rest \<Rightarrow>
          Some (a\<lparr>as_state := (as_state a)\<lparr>ac_accepts := rest, io_ready := io_ready (as_state a) @ [AcceptDone s None]\<rparr>\<rparr>))"
| "accept_do grow a (AcAcceptError e) =
     (case ac_accepts (as_state a) of
        [] \<Rightarrow> None
      | s # rest \<Rightarrow>
          Some (a\<lparr>as_state := (as_state a)\<lparr>ac_accepts := rest,
            io_ready := io_ready (as_state a) @ [AcceptDone s (Some (other_error e))]\<rparr>\<rparr>))"
| "accept_do grow a AcTimerFires =
     (if 0 < ac_timer_waits (as_state a)
      then Some (a\<lparr>as_state := (as_state a)\<lparr>ac_timer_waits := ac_timer_waits (as_state a) - 1,
             io_ready := io_ready (as_state a) @ [TimerDone None]\<rparr>\<rparr>)
      else None)"
| "accept_do grow a (AcRun h) =
     (if h \<in> set (io_ready (as_state a)) \<and> \<not> io_stopped (as_state a)
      then Some (a\<lparr>as_state := run_handler grow h ((as_state a)\<lparr>io_ready := remove1 h (io_ready (as_state a))\<rparr>),
             as_connected := as_connected a @
               (case h of AcceptDone s None \<Rightarrow> if IsRunning (as_state a) then [s] else [] | _ \<Rightarrow> [])\<rparr>)
      else None)"
| "accept_do grow a AcStop =
     (if as_phase a = 0 then Some (a\<lparr>as_state := (as_state a)\<lparr>es_isRun := False\<rparr>, as_phase := 1\<rparr>)
      else if as_phase a = 1 then
        (case BoostNetEngine_StopEngineEvent () (as_state a) of
           Inl _ \<Rightarrow> None | Inr es \<Rightarrow> Some (a\<lparr>as_state := es, as_phase := 2\<rparr>))
      else if as_phase a = 2 then
        (case StopEngineEvent () (as_state a) of
           Inl _ \<Rightarrow> None | Inr es \<Rightarrow> Some (a\<lparr>as_state := es, as_phase := 3\<rparr>))
      else None)"

inductive accept_step :: "AcceptSys \<Rightarrow> AcceptSys \<Rightarrow> bool" where
  accept_stepI: "accept_do grow a ev = Some a' \<Longrightarrow> accept_step a a'"

inductive_cases accept_stepE: "accept_step a a'"

text \<open>A started server over the sessions \<open>ps\<close>: the flag is set and the start event has run.\<close>

definition accept_init :: "addr list \<Rightarrow> AcceptSys \<Rightarrow> bool" where
  "accept_init ps a \<longleftrightarrow> (\<exists>es0 es. es_isRun es0 \<and> ls0_stack (es_sessionPool es0) = map Some ps \<and>
     \<not> io_stopped es0 \<and> io_ready es0 = [] \<and> \<not> ac_open es0 \<and> ac_accepts es0 = [] \<and> ac_timer_waits es0 = 0 \<and>
     StartListening True es0 = Inr es \<and> a = \<lparr>as_state = es, as_phase = 0, as_connected = []\<rparr>)"

fun accept_run :: "AcceptSys \<Rightarrow> accept_event list \<Rightarrow> AcceptSys option" where
  "accept_run a [] = Some a"
| "accept_run a (ev # evs) =
     (case accept_do (\<lambda>n. 2 * n) a ev of None \<Rightarrow> None | Some a' \<Rightarrow> accept_run a' evs)"

section \<open>Where the sessions are\<close>

fun accept_session :: "handler \<Rightarrow> addr list" where
  "accept_session (AcceptDone s ec) = [s]"
| "accept_session (TimerDone ec) = []"

definition ready_sessions :: "EngineState \<Rightarrow> addr list" where
  "ready_sessions es = concat (map accept_session (io_ready es))"

text \<open>Handlers that start the next accept if the engine is running.\<close>

fun live_handler :: "handler \<Rightarrow> bool" where
  "live_handler (AcceptDone s ec) \<longleftrightarrow> ec \<noteq> Some operation_aborted"
| "live_handler (TimerDone ec) \<longleftrightarrow> ec = None"

definition chain_count :: "EngineState \<Rightarrow> nat" where
  "chain_count es = length (ac_accepts es) + length (filter live_handler (io_ready es)) + ac_timer_waits es"

definition held :: "EngineState \<Rightarrow> addr option multiset" where
  "held es =
     mset (ls0_stack (es_sessionPool es)) + mset (map Some (ac_accepts es)) + mset (map Some (ready_sessions es))"

definition session_places :: "AcceptSys \<Rightarrow> addr option multiset" where
  "session_places a = held (as_state a) + mset (map Some (as_connected a))"

definition accept_inv :: "addr list \<Rightarrow> AcceptSys \<Rightarrow> bool" where
  "accept_inv ps a \<longleftrightarrow>
     session_places a = mset (map Some ps) \<and>
     (es_isRun (as_state a) \<longleftrightarrow> as_phase a = 0) \<and>
     (io_stopped (as_state a) \<longleftrightarrow> 2 \<le> as_phase a) \<and>
     (ac_open (as_state a) \<longleftrightarrow> as_phase a < 3) \<and>
     (as_phase a = 3 \<longrightarrow> ac_accepts (as_state a) = [] \<and> ac_timer_waits (as_state a) = 0) \<and>
     (if as_phase a = 0 then chain_count (as_state a) = 1 else chain_count (as_state a) \<le> 1)"

lemma mset_concat_remove1:
  "h \<in> set hs \<Longrightarrow> mset (concat (map f hs)) = mset (f h) + mset (concat (map f (remove1 h hs)))"
  by (induction hs) auto

lemma length_filter_remove1:
  "h \<in> set hs \<Longrightarrow> length (filter P hs) = (if P h then 1 else 0) + length (filter P (remove1 h hs))"
  by (induction hs) auto

abbreviation same_flags :: "EngineState \<Rightarrow> EngineState \<Rightarrow> bool" where
  "same_flags es es' \<equiv> es_isRun es' = es_isRun es \<and> io_stopped es' = io_stopped es \<and> ac_open es' = ac_open es"

lemma cancel_timer_facts:
  "held (cancel_timer es) = held es" "same_flags es (cancel_timer es)"
  "chain_count (cancel_timer es) = length (ac_accepts es) + length (filter live_handler (io_ready es))"
  "ac_timer_waits (cancel_timer es) = 0" "ac_accepts (cancel_timer es) = ac_accepts es"
  "es_sessionPool (cancel_timer es) = es_sessionPool es"
  by (simp_all add: cancel_timer_def held_def ready_sessions_def chain_count_def)

lemma RetryAcception_facts:
  "held (RetryAcception es) = held es" "same_flags es (RetryAcception es)"
  "chain_count es = 0 \<Longrightarrow> chain_count (RetryAcception es) = 1"
  "ac_accepts (RetryAcception es) = ac_accepts es"
  "es_sessionPool (RetryAcception es) = es_sessionPool es"
  by (simp_all add: RetryAcception_def Let_def cancel_timer_def held_def ready_sessions_def chain_count_def)

lemma ReleaseSession_facts:
  "held (snd (ReleaseSession grow es (Some s))) = held es + {#Some s#}"
  "same_flags es (snd (ReleaseSession grow es (Some s)))"
  "chain_count (snd (ReleaseSession grow es (Some s))) = chain_count es"
  by (simp_all add: ReleaseSession_def LockStack0_Push_def vector_push_def held_def chain_count_def
      ready_sessions_def)

lemma async_accept_facts:
  "held (async_accept s es) = held es + {#Some s#}" "same_flags es (async_accept s es)"
  "chain_count (async_accept s es) = chain_count es + 1"
  "es_sessionPool (async_accept s es) = es_sessionPool es"
  by (simp_all add: async_accept_def held_def ready_sessions_def chain_count_def)

lemma TakeSession_facts:
  assumes "TakeBoostSession es = (Some s, es1)"
  shows "held es = held es1 + {#Some s#}" "same_flags es es1" "chain_count es1 = chain_count es"
proof -
  from assms have ne: "ls0_stack (es_sessionPool es) \<noteq> []" and l: "last (ls0_stack (es_sessionPool es)) = Some s"
    and es1: "es1 = es\<lparr>es_sessionPool := (es_sessionPool es)\<lparr>ls0_stack := butlast (ls0_stack (es_sessionPool es))\<rparr>\<rparr>"
    by (auto simp: TakeBoostSession_def TakeSession_cases split: if_splits)
  have "mset (ls0_stack (es_sessionPool es)) = mset (butlast (ls0_stack (es_sessionPool es))) + {#Some s#}"
    using append_butlast_last_id[OF ne] l by (metis mset.simps(1) mset.simps(2) mset_append)
  then show "held es = held es1 + {#Some s#}"
    by (simp add: es1 held_def ready_sessions_def)
  show "same_flags es es1" "chain_count es1 = chain_count es"
    by (simp_all add: es1 chain_count_def)
qed

lemma TakeSession_none:
  assumes "TakeBoostSession es = (None, es1)" "None \<notin># held es"
  shows "es1 = es \<and> ls0_stack (es_sessionPool es) = []"
proof -
  have "last (ls0_stack (es_sessionPool es)) \<noteq> None" if "ls0_stack (es_sessionPool es) \<noteq> []"
  proof
    assume "last (ls0_stack (es_sessionPool es)) = None"
    with last_in_set[OF that] have "None \<in> set (ls0_stack (es_sessionPool es))" by simp
    with assms(2) show False by (simp add: held_def)
  qed
  with assms(1) show ?thesis
    by (auto simp: TakeBoostSession_def TakeSession_cases split: if_splits)
qed

lemma AcceptSession_facts:
  assumes "None \<notin># held es"
  shows "held (AcceptSession es) = held es" "same_flags es (AcceptSession es)"
    "chain_count es = 0 \<Longrightarrow> chain_count (AcceptSession es) = (if es_isRun es then 1 else 0)"
    "\<not> es_isRun es \<Longrightarrow> AcceptSession es = es"
proof -
  show idle: "\<not> es_isRun es \<Longrightarrow> AcceptSession es = es"
    by (simp add: AcceptSession_def IsRunning_def)
  have "held (AcceptSession es) = held es \<and> same_flags es (AcceptSession es) \<and>
    (chain_count es = 0 \<longrightarrow> chain_count (AcceptSession es) = (if es_isRun es then 1 else 0))"
  proof (cases "es_isRun es")
    case True
    obtain r es1 where t: "TakeBoostSession es = (r, es1)" by force
    show ?thesis
    proof (cases r)
      case None
      with TakeSession_none[of es es1] t assms have "es1 = es" by simp
      with True t None show ?thesis
        by (simp add: AcceptSession_def IsRunning_def RetryAcception_facts)
    next
      case (Some s)
      with t True have "AcceptSession es = async_accept s es1"
        by (simp add: AcceptSession_def IsRunning_def)
      with TakeSession_facts[of es s es1] t Some True show ?thesis
        by (simp add: async_accept_facts)
    qed
  qed (simp add: idle)
  then show "held (AcceptSession es) = held es" "same_flags es (AcceptSession es)"
    "chain_count es = 0 \<Longrightarrow> chain_count (AcceptSession es) = (if es_isRun es then 1 else 0)" by simp_all
qed

lemma AcceptSession_flags: "same_flags es (AcceptSession es)"
proof (cases "es_isRun es")
  case True
  obtain r es1 where t: "TakeBoostSession es = (r, es1)" by force
  then have "same_flags es es1"
    by (auto simp: TakeBoostSession_def TakeSession_cases split: if_splits)
  with True t show ?thesis
    by (cases r) (simp_all add: AcceptSession_def IsRunning_def RetryAcception_facts async_accept_facts)
qed (simp add: AcceptSession_def IsRunning_def)

text \<open>Taking a handler off the ready list.\<close>

definition without_handler :: "handler \<Rightarrow> EngineState \<Rightarrow> EngineState" where
  "without_handler h es = es\<lparr>io_ready := remove1 h (io_ready es)\<rparr>"

lemma without_handler_facts:
  assumes "h \<in> set (io_ready es)"
  shows "held es = held (without_handler h es) + mset (map Some (accept_session h))"
    "chain_count es = chain_count (without_handler h es) + (if live_handler h then 1 else 0)"
    "same_flags es (without_handler h es)"
proof -
  show "held es = held (without_handler h es) + mset (map Some (accept_session h))"
    using mset_concat_remove1[OF assms, of accept_session]
    by (simp add: held_def without_handler_def ready_sessions_def)
  show "chain_count es = chain_count (without_handler h es) + (if live_handler h then 1 else 0)"
    using length_filter_remove1[OF assms, of live_handler]
    by (simp add: chain_count_def without_handler_def)
qed (simp_all add: without_handler_def)

text \<open>Running a handler: where its session goes, and that a live one keeps the loop going.\<close>

definition newly_connected :: "EngineState \<Rightarrow> handler \<Rightarrow> addr list" where
  "newly_connected es h = (case h of AcceptDone s None \<Rightarrow> if IsRunning es then [s] else [] | _ \<Rightarrow> [])"

lemma run_handler_facts:
  fixes es :: EngineState and grow h
  defines "es' \<equiv> run_handler grow h es"
  assumes none: "None \<notin># held es"
  shows "held es' + mset (map Some (newly_connected es h)) = held es + mset (map Some (accept_session h))"
    and "same_flags es es'"
    and "es_isRun es \<Longrightarrow> live_handler h \<Longrightarrow> chain_count es = 0 \<Longrightarrow> chain_count es' = 1"
    and "\<not> es_isRun es \<or> \<not> live_handler h \<Longrightarrow> chain_count es' = chain_count es"
proof -
  note facts = AcceptSession_facts ReleaseSession_facts
  have "held es' + mset (map Some (newly_connected es h)) = held es + mset (map Some (accept_session h)) \<and>
    same_flags es es' \<and>
    (es_isRun es \<and> live_handler h \<and> chain_count es = 0 \<longrightarrow> chain_count es' = 1) \<and>
    (\<not> es_isRun es \<or> \<not> live_handler h \<longrightarrow> chain_count es' = chain_count es)"
  proof (cases h)
    case (AcceptDone s ec)
    have rel: "None \<notin># held (snd (ReleaseSession grow es (Some s)))"
      using none by (simp add: ReleaseSession_facts)
    show ?thesis
    proof (cases "es_isRun es")
      case False
      with AcceptDone show ?thesis
        by (cases ec) (simp_all add: es'_def run_handler_def CompleteAcception_def IsRunning_def newly_connected_def
            ReleaseSession_facts)
    next
      case True
      show ?thesis
      proof (cases ec)
        case None
        with True AcceptDone facts(1-4)[OF none] show ?thesis
          by (simp add: es'_def run_handler_def CompleteAcception_def IsRunning_def newly_connected_def)
      next
        case (Some e)
        with True AcceptDone facts(1-4)[OF rel] show ?thesis
          by (auto simp: es'_def run_handler_def CompleteAcception_def IsRunning_def newly_connected_def
              Let_def ReleaseSession_facts)
      qed
    qed
  next
    case (TimerDone ec)
    with AcceptSession_facts[OF none] show ?thesis
      by (auto simp: es'_def run_handler_def retry_handler_def newly_connected_def)
  qed
  then show "held es' + mset (map Some (newly_connected es h)) = held es + mset (map Some (accept_session h))"
    "same_flags es es'"
    "es_isRun es \<Longrightarrow> live_handler h \<Longrightarrow> chain_count es = 0 \<Longrightarrow> chain_count es' = 1"
    "\<not> es_isRun es \<or> \<not> live_handler h \<Longrightarrow> chain_count es' = chain_count es" by simp_all
qed

section \<open>The invariant\<close>

lemma none_not_held: "accept_inv ps a \<Longrightarrow> None \<notin># held (as_state a)"
proof -
  assume "accept_inv ps a"
  then have "None \<notin># session_places a"
    by (auto simp: accept_inv_def)
  then show ?thesis by (simp add: session_places_def)
qed

lemma move_to_ready:
  assumes "ac_accepts es = s # rest" "ec \<noteq> Some operation_aborted"
  defines "es' \<equiv> es\<lparr>ac_accepts := rest, io_ready := io_ready es @ [AcceptDone s ec]\<rparr>"
  shows "held es' = held es" "chain_count es' = chain_count es" "same_flags es es'"
  using assms(1,2) by (simp_all add: es'_def held_def ready_sessions_def chain_count_def)

lemma timer_fires_facts:
  assumes "0 < ac_timer_waits es"
  defines "es' \<equiv> es\<lparr>ac_timer_waits := ac_timer_waits es - 1, io_ready := io_ready es @ [TimerDone None]\<rparr>"
  shows "held es' = held es" "chain_count es' = chain_count es" "same_flags es es'"
    "ac_accepts es' = ac_accepts es"
  using assms(1) by (simp_all add: es'_def held_def ready_sessions_def chain_count_def)

lemma StopListening_facts:
  "held (StopListening es) = held es" "chain_count (StopListening es) \<le> chain_count es"
  "ac_accepts (StopListening es) = [] \<and> ac_timer_waits (StopListening es) = 0 \<and> \<not> ac_open (StopListening es)"
  "es_isRun (StopListening es) = es_isRun es \<and> io_stopped (StopListening es) = io_stopped es"
proof -
  have "concat (map accept_session (map (\<lambda>s. AcceptDone s (Some operation_aborted)) xs)) = xs" for xs
    by (induction xs) auto
  then show "held (StopListening es) = held es"
    by (simp add: StopListening_def cancel_timer_def held_def ready_sessions_def)
  have "filter live_handler (map (\<lambda>s. AcceptDone s (Some operation_aborted)) xs) = []" for xs
    by (induction xs) auto
  then show "chain_count (StopListening es) \<le> chain_count es"
    by (simp add: StopListening_def cancel_timer_def chain_count_def)
qed (simp_all add: StopListening_def cancel_timer_def)

lemma accept_run_inv:
  assumes "accept_inv ps a" "accept_do grow a (AcRun h) = Some a'"
  shows "accept_inv ps a'"
proof -
  let ?es = "as_state a" and ?es1 = "without_handler h (as_state a)"
  have "newly_connected ?es1 h =
      (case h of AcceptDone s None \<Rightarrow> if IsRunning ?es then [s] else [] | _ \<Rightarrow> [])"
    by (simp add: newly_connected_def IsRunning_def without_handler_def split: handler.split option.split)
  with assms(2) have h: "h \<in> set (io_ready ?es)" "\<not> io_stopped ?es"
    and a': "a' = a\<lparr>as_state := run_handler grow h ?es1, as_connected := as_connected a @ newly_connected ?es1 h\<rparr>"
    by (simp_all add: without_handler_def split: if_splits)
  note wo = without_handler_facts[OF h(1)]
  have none: "None \<notin># held ?es1"
    using none_not_held[OF assms(1)] wo(1) by simp
  note run = run_handler_facts[OF none, where grow = grow and h = h]
  have "session_places a' = session_places a"
    using run(1) wo(1) by (simp add: a' session_places_def ac_simps)
  moreover have ph: "as_phase a = 0 \<or> as_phase a = 1" "as_phase a' = as_phase a"
    using assms(1) h(2) by (auto simp: accept_inv_def a')
  moreover have "same_flags ?es (as_state a')"
    using run(2) wo(3) by (simp add: a')
  moreover have "chain_count (as_state a') = (if as_phase a = 0 then 1 else chain_count (as_state a'))
      \<and> chain_count (as_state a') \<le> 1"
  proof (cases "es_isRun ?es \<and> live_handler h")
    case True
    with assms(1) wo(2) have "chain_count ?es1 = 0" by (auto simp: accept_inv_def split: if_splits)
    with run(3) True wo(3) have "chain_count (as_state a') = 1" by (simp add: a')
    then show ?thesis by simp
  next
    case False
    with run(4) wo(3) have "chain_count (as_state a') = chain_count ?es1" by (auto simp: a')
    with False wo(2) assms(1) show ?thesis by (auto simp: accept_inv_def split: if_splits)
  qed
  ultimately show ?thesis
    using assms(1) unfolding accept_inv_def by (elim disjE) simp_all
qed

lemma accept_stop_inv:
  assumes "accept_inv ps a" "accept_do grow a AcStop = Some a'"
  shows "accept_inv ps a'"
proof -
  have keep: "held (es\<lparr>es_isRun := x\<rparr>) = held es" "held (es\<lparr>io_stopped := y, io_guard := z\<rparr>) = held es"
    "chain_count (es\<lparr>es_isRun := x\<rparr>) = chain_count es"
    "chain_count (es\<lparr>io_stopped := y, io_guard := z\<rparr>) = chain_count es" for es x y z
    by (simp_all add: held_def ready_sessions_def chain_count_def)
  have one: "chain_count (as_state a) \<le> 1"
    using assms(1) by (auto simp: accept_inv_def split: if_splits)
  consider "as_phase a = 0" | "as_phase a = 1" | "as_phase a = 2"
    using assms(2) by (auto split: if_splits)
  then show ?thesis
  proof cases
    case 1
    with assms one show ?thesis
      by (auto simp: accept_inv_def session_places_def keep)
  next
    case 2
    with assms one show ?thesis
      by (auto simp: accept_inv_def session_places_def keep BoostNetEngine_StopEngineEvent_def)
  next
    case 3
    from 3 assms(2) have "a' = a\<lparr>as_state := StopListening (as_state a), as_phase := 3\<rparr>"
      by (simp add: StopEngineEvent_def)
    with 3 assms(1) one StopListening_facts[of "as_state a"] show ?thesis
      by (auto simp: accept_inv_def session_places_def)
  qed
qed

lemma accept_event_inv:
  assumes "accept_inv ps a" "accept_do grow a ev = Some a'"
  shows "accept_inv ps a'"
proof (cases ev)
  case AcIncoming
  with assms(2) obtain s rest where acc: "ac_accepts (as_state a) = s # rest"
    and a': "a' = a\<lparr>as_state := (as_state a)\<lparr>ac_accepts := rest, io_ready := io_ready (as_state a) @ [AcceptDone s None]\<rparr>\<rparr>"
    by (auto split: list.splits)
  with assms(1) move_to_ready[OF acc, of None] show ?thesis
    by (auto simp: accept_inv_def session_places_def split: if_splits)
next
  case (AcAcceptError e)
  with assms(2) obtain s rest where acc: "ac_accepts (as_state a) = s # rest"
    and a': "a' = a\<lparr>as_state := (as_state a)\<lparr>ac_accepts := rest,
      io_ready := io_ready (as_state a) @ [AcceptDone s (Some (other_error e))]\<rparr>\<rparr>"
    by (auto split: list.splits)
  with assms(1) move_to_ready[OF acc, of "Some (other_error e)"] show ?thesis
    by (auto simp: accept_inv_def session_places_def split: if_splits)
next
  case AcTimerFires
  with assms(2) have w: "0 < ac_timer_waits (as_state a)"
    and a': "a' = a\<lparr>as_state := (as_state a)\<lparr>ac_timer_waits := ac_timer_waits (as_state a) - 1,
      io_ready := io_ready (as_state a) @ [TimerDone None]\<rparr>\<rparr>"
    by (auto split: if_splits)
  with assms(1) timer_fires_facts[OF w] show ?thesis
    by (auto simp: accept_inv_def session_places_def split: if_splits)
next
  case (AcRun h)
  with assms accept_run_inv show ?thesis by blast
next
  case AcStop
  with assms accept_stop_inv show ?thesis by blast
qed

lemma accept_init_inv: "accept_init ps a \<Longrightarrow> accept_inv ps a"
proof -
  assume "accept_init ps a"
  then obtain es0 es where es0: "es_isRun es0" "ls0_stack (es_sessionPool es0) = map Some ps"
    "\<not> io_stopped es0" "io_ready es0 = []" "\<not> ac_open es0" "ac_accepts es0 = []" "ac_timer_waits es0 = 0"
    and es: "StartListening True es0 = Inr es" "a = \<lparr>as_state = es, as_phase = 0, as_connected = []\<rparr>"
    by (auto simp: accept_init_def)
  let ?es = "es0\<lparr>ac_open := True\<rparr>"
  have held: "held ?es = mset (map Some ps)" "chain_count ?es = 0"
    using es0 by (simp_all add: held_def ready_sessions_def chain_count_def)
  then have none: "None \<notin># held ?es" by auto
  from es es0 have "as_state a = AcceptSession ?es" by (simp add: StartListening_def)
  with AcceptSession_facts[OF none] held es0 es(2) show ?thesis
    by (simp add: accept_inv_def session_places_def)
qed

interpretation accept_sys: invariant_system "accept_init ps" accept_step "accept_inv ps" for ps
  by unfold_locales (auto intro: accept_init_inv accept_event_inv elim: accept_stepE)

end
