(* ===== verification/Engine_Props.thy ===== *)
theory Engine_Props
  imports Boost_Acceptor
begin

text \<open>
  The properties of the engine and of its acceptor: what the constructor puts in the pool, one
  start and stop of a server, where the sessions are in every reachable state, and two ways the
  server runs out of them.
\<close>

section \<open>A server from its construction\<close>

lemma NetEngine_new_eq:
  assumes "0 < ioThreadCount" "0 < sessionCount"
  obtains pool where
    "NetEngine_new b grow ioThreadCount sessionCount (Some create) h =
       Inr (\<lparr>ne_state = engine_state_new sessionCount pool, ne_startDelegator = Delegate_new,
             ne_stopDelegator = Delegate_new, ne_threads = replicate (unat ioThreadCount) Thread_new\<rparr>,
            snd (create_many create (unat sessionCount) h))"
    "ls0_stack pool = map Some (fst (create_many create (unat sessionCount) h))"
proof -
  obtain pool h1 where f: "fill_pool grow create (unat sessionCount) (LockStack0_Reserve LockStack0_new sessionCount) h = (pool, h1)"
    by force
  from fill_pool_eq[OF f] have "ls0_stack pool = map Some (fst (create_many create (unat sessionCount) h))"
    "h1 = snd (create_many create (unat sessionCount) h)"
    by (auto simp: LockStack0_Reserve_def LockStack0_new_def)
  with assms f that show thesis
    by (simp add: NetEngine_new_def)
qed

lemma server_new_eq:
  assumes "0 < ioThreadCount" "0 < sessionCount"
  obtains pool where
    "BoostNetEngineServer_new b grow bind_ok (Some e) ioThreadCount sessionCount create h =
       Inr (\<lparr>ne_state = engine_state_new sessionCount pool,
             ne_startDelegator = \<lparr>dg_callbacks = [StartEngineEvent bind_ok]\<rparr>,
             ne_stopDelegator = \<lparr>dg_callbacks = [BoostNetEngine_StopEngineEvent, StopEngineEvent]\<rparr>,
             ne_threads = replicate (unat ioThreadCount) Thread_new\<rparr>,
            snd (create_many (create e) (unat sessionCount) h))"
    "ls0_stack pool = map Some (fst (create_many (create e) (unat sessionCount) h))"
proof -
  obtain pool where
    "NetEngine_new b grow ioThreadCount sessionCount (Some (create e)) h =
       Inr (\<lparr>ne_state = engine_state_new sessionCount pool, ne_startDelegator = Delegate_new,
             ne_stopDelegator = Delegate_new, ne_threads = replicate (unat ioThreadCount) Thread_new\<rparr>,
            snd (create_many (create e) (unat sessionCount) h))"
    "ls0_stack pool = map Some (fst (create_many (create e) (unat sessionCount) h))"
    using NetEngine_new_eq[OF assms] by metis
  with that show thesis
    by (simp add: BoostNetEngineServer_new_def BoostNetEngine_new_def AddStopEvent_def AddStartEvent_def
        Delegate_Subscribe_def Delegate_new_def Let_def)
qed

section \<open>Monotonicity\<close>

lemma connected_grows:
  assumes "accept_step a a'"
  shows "\<exists>xs. as_connected a' = as_connected a @ xs"
proof -
  from assms obtain grow ev where "accept_do grow a ev = Some a'" by (rule accept_stepE)
  then show ?thesis
    by (cases ev) (auto split: list.splits if_splits sum.splits)
qed

lemma connected_grows_reach:
  "reach (\<lambda>x. x = a) accept_step t \<Longrightarrow> \<exists>xs. as_connected t = as_connected a @ xs"
proof (induction rule: reach.induct)
  case (reach_step s t)
  with connected_grows[OF reach_step(2)] show ?case by force
qed simp

lemma places_size:
  assumes "accept_inv ps a"
  shows "length (ls0_stack (es_sessionPool (as_state a))) + length (ac_accepts (as_state a)) +
    length (ready_sessions (as_state a)) + length (as_connected a) = length ps"
proof -
  from assms have "size (session_places a) = size (mset (map Some ps))"
    by (simp add: accept_inv_def)
  then show ?thesis by (simp add: session_places_def held_def)
qed

definition started_state :: EngineState where
  "started_state =
     \<lparr>es_isRun = True, es_sessionPool = \<lparr>ls0_stack = [Some 10, Some 11], ls0_capacity = 2\<rparr>,
      es_usingSessions = [None, None], io_stopped = False, io_guard = True, io_ready = [],
      ac_open = False, ac_accepts = [], ac_timer_waits = 0\<rparr>"

definition started :: AcceptSys where
  "started = \<lparr>as_state = AcceptSession (started_state\<lparr>ac_open := True\<rparr>), as_phase = 0, as_connected = []\<rparr>"

lemma started_init: "accept_init [10, 11] started"
  unfolding accept_init_def
  by (intro exI[of _ started_state] exI[of _ "AcceptSession (started_state\<lparr>ac_open := True\<rparr>)"])
    (simp add: started_state_def started_def StartListening_def)

lemma accept_run_reachable:
  "reach (accept_init ps) accept_step a \<Longrightarrow> accept_run a evs = Some a' \<Longrightarrow> reach (accept_init ps) accept_step a'"
proof (induction evs arbitrary: a)
  case (Cons ev evs)
  then obtain u where "accept_do (\<lambda>n. 2 * n) a ev = Some u" "accept_run u evs = Some a'"
    by (auto split: option.splits)
  with Cons show ?case by (meson reach_step accept_stepI)
qed simp

lemmas accept_eval = started_def started_state_def AcceptSession_def IsRunning_def TakeBoostSession_def
  TakeSession_cases async_accept_def RetryAcception_def cancel_timer_def run_handler_def CompleteAcception_def
  retry_handler_def Let_def BoostNetEngine_StopEngineEvent_def StopEngineEvent_def StopListening_def ready_sessions_def

section \<open>Properties\<close>

text \<open>
  The constructor fills the pool with the sessions its
  factory creates, in order, up to \<^verbatim>\<open>sessionCount\<close> or to the first null, where it stops without
  an error; with the factory of the code these are \<^verbatim>\<open>sessionCount\<close> different sessions. The
  engine is not running, \<^verbatim>\<open>TakeSession\<close> hands out the last one, and \<^verbatim>\<open>ReleaseSession\<close> puts a
  session back where the next \<^verbatim>\<open>TakeSession\<close> finds it.
\<close>
theorem engine_pool_from_factory:
  assumes "0 < ioThreadCount" "0 < sessionCount"
  shows "(\<exists>ne h'. NetEngine_new b grow ioThreadCount sessionCount (Some create) h = Inr (ne, h') \<and>
      \<not> IsRunning (ne_state ne) \<and> length (ne_threads ne) = unat ioThreadCount \<and>
      ls0_stack (es_sessionPool (ne_state ne)) = map Some (fst (create_many create (unat sessionCount) h))) \<and>
    (\<exists>ne. NetEngine_new b grow ioThreadCount sessionCount (Some (Factory_Create mk f)) heap =
        Inr (ne, heap @ replicate (unat sessionCount) (mk (fc_args f))) \<and>
      ls0_stack (es_sessionPool (ne_state ne)) = map Some [length heap..<length heap + unat sessionCount] \<and>
      distinct (ls0_stack (es_sessionPool (ne_state ne))) \<and>
      fst (TakeSession (ne_state ne)) = Some (length heap + unat sessionCount - 1)) \<and>
    fst (TakeSession (snd (ReleaseSession grow es (Some s)))) = Some s"
proof (intro conjI)
  obtain pool where "NetEngine_new b grow ioThreadCount sessionCount (Some create) h =
       Inr (\<lparr>ne_state = engine_state_new sessionCount pool, ne_startDelegator = Delegate_new,
             ne_stopDelegator = Delegate_new, ne_threads = replicate (unat ioThreadCount) Thread_new\<rparr>,
            snd (create_many create (unat sessionCount) h))"
    "ls0_stack pool = map Some (fst (create_many create (unat sessionCount) h))"
    by (rule NetEngine_new_eq[OF assms])
  then show "\<exists>ne h'. NetEngine_new b grow ioThreadCount sessionCount (Some create) h = Inr (ne, h') \<and>
      \<not> IsRunning (ne_state ne) \<and> length (ne_threads ne) = unat ioThreadCount \<and>
      ls0_stack (es_sessionPool (ne_state ne)) = map Some (fst (create_many create (unat sessionCount) h))"
    by (simp add: engine_state_new_def IsRunning_def)
  obtain pool where ne: "NetEngine_new b grow ioThreadCount sessionCount (Some (Factory_Create mk f)) heap =
       Inr (\<lparr>ne_state = engine_state_new sessionCount pool, ne_startDelegator = Delegate_new,
             ne_stopDelegator = Delegate_new, ne_threads = replicate (unat ioThreadCount) Thread_new\<rparr>,
            snd (create_many (Factory_Create mk f) (unat sessionCount) heap))"
    "ls0_stack pool = map Some (fst (create_many (Factory_Create mk f) (unat sessionCount) heap))"
    by (rule NetEngine_new_eq[OF assms])
  let ?as = "fst (create_many (Factory_Create mk f) (unat sessionCount) heap)"
  have "distinct ?as"
    using made_objects.create_many_fresh[of mk f "unat sessionCount" heap] by (metis prod.collapse)
  moreover have "0 < unat sessionCount"
    using assms(2) by (simp add: word_nat)
  moreover from this have "last (map Some [length heap..<length heap + unat sessionCount]) =
      Some (length heap + unat sessionCount - 1)"
    by (subst last_map) auto
  ultimately show "\<exists>ne. NetEngine_new b grow ioThreadCount sessionCount (Some (Factory_Create mk f)) heap =
        Inr (ne, heap @ replicate (unat sessionCount) (mk (fc_args f))) \<and>
      ls0_stack (es_sessionPool (ne_state ne)) = map Some [length heap..<length heap + unat sessionCount] \<and>
      distinct (ls0_stack (es_sessionPool (ne_state ne))) \<and>
      fst (TakeSession (ne_state ne)) = Some (length heap + unat sessionCount - 1)"
    using ne by (simp add: Factory_create_many engine_state_new_def TakeSession_cases distinct_map)
  show "fst (TakeSession (snd (ReleaseSession grow es (Some s)))) = Some s"
    by (simp add: TakeSession_cases ReleaseSession_def LockStack0_Push_def vector_push_def)
qed

lemma engine_pool_from_factory_witness:
  "\<exists>ne. NetEngine_new Debug Suc 2 5 (Some (Factory_Create id (Factory_new ''s''))) [] =
       Inr (ne, replicate 5 ''s'') \<and>
     ls0_stack (es_sessionPool (ne_state ne)) = map Some [0, 1, 2, 3, 4]"
proof -
  have "(0 :: UINT32) < 2" "(0 :: UINT32) < 5" by simp_all
  from engine_pool_from_factory[OF this, of Debug Suc "Factory_Create id (Factory_new ''s'')" "[]" id
      "Factory_new ''s''" "[]" started_state 0]
  show ?thesis by (auto simp: Factory_new_def upt_rec)
qed

text \<open>
  In every reachable state of a started server the
  pool, the pending accept, the handlers ready to run and the connected sessions share out the
  sessions it started with: none is lost or in two places. While the engine runs, exactly one
  accept, retry wait or handler that will start the next one exists, so the accept loop is never
  broken and never doubled.
\<close>
theorem acceptor_shares_sessions:
  assumes "distinct ps" "reach (accept_init ps) accept_step a"
  shows "distinct (ls0_stack (es_sessionPool (as_state a)) @
      map Some (ac_accepts (as_state a) @ ready_sessions (as_state a) @ as_connected a)) \<and>
    set (ls0_stack (es_sessionPool (as_state a)) @
      map Some (ac_accepts (as_state a) @ ready_sessions (as_state a) @ as_connected a)) = Some ` set ps \<and>
    (if es_isRun (as_state a) then chain_count (as_state a) = 1 else chain_count (as_state a) \<le> 1)"
proof -
  let ?all = "ls0_stack (es_sessionPool (as_state a)) @
      map Some (ac_accepts (as_state a) @ ready_sessions (as_state a) @ as_connected a)"
  from accept_sys.reach_inv[OF assms(2)] have inv: "accept_inv ps a" .
  then have eq: "mset ?all = mset (map Some ps)"
    by (simp add: accept_inv_def session_places_def held_def ac_simps)
  have "distinct (map Some ps)"
    using assms(1) by (simp add: distinct_map)
  with eq have "distinct ?all"
    by (metis mset_eq_imp_distinct_iff)
  moreover from eq have "set ?all = Some ` set ps"
    by (metis list.set_map mset_eq_setD)
  ultimately show ?thesis
    using inv by (auto simp: accept_inv_def split: if_splits)
qed

lemma acceptor_shares_sessions_witness:
  "\<exists>a. accept_run started [AcIncoming, AcRun (AcceptDone 11 None)] = Some a \<and>
     as_connected a = [11] \<and> distinct (ls0_stack (es_sessionPool (as_state a)) @
       map Some (ac_accepts (as_state a) @ ready_sessions (as_state a) @ as_connected a))"
proof -
  have "\<exists>a. accept_run started [AcIncoming, AcRun (AcceptDone 11 None)] = Some a \<and> as_connected a = [11]"
    by (simp add: accept_eval)
  then obtain a where a: "accept_run started [AcIncoming, AcRun (AcceptDone 11 None)] = Some a" "as_connected a = [11]"
    by blast
  have d: "distinct [10, 11 :: nat]" by simp
  from acceptor_shares_sessions[OF d accept_run_reachable[OF reach_init[of "accept_init [10, 11]", OF started_init] a(1)]] a
  show ?thesis by blast
qed

text \<open>
  A connected session never returns to the pool: the
  handler of a successful accept only starts the next accept. Once as many connections have
  been accepted as the engine has sessions, every later state has the pool empty, no accept
  pending and the same connections, although no client may be left.
\<close>
theorem acceptor_starves:
  assumes "reach (accept_init ps) accept_step a" "length (as_connected a) = length ps"
    and "reach (\<lambda>x. x = a) accept_step t"
  shows "ls0_stack (es_sessionPool (as_state t)) = [] \<and> ac_accepts (as_state t) = [] \<and>
    ready_sessions (as_state t) = [] \<and> as_connected t = as_connected a"
proof -
  from accept_sys.reach_inv[OF reach_trans[OF assms(1,3)]] have "accept_inv ps t" .
  note size = places_size[OF this]
  obtain xs where "as_connected t = as_connected a @ xs"
    using connected_grows_reach[OF assms(3)] by blast
  with size assms(2) show ?thesis by auto
qed

lemma acceptor_starves_witness:
  "\<exists>a t. as_connected a = [11, 10] \<and> accept_do Suc a AcTimerFires = Some t \<and>
     reach (\<lambda>x. x = a) accept_step t \<and> ls0_stack (es_sessionPool (as_state t)) = [] \<and> ac_accepts (as_state t) = []"
proof -
  let ?evs = "[AcIncoming, AcRun (AcceptDone 11 None), AcIncoming, AcRun (AcceptDone 10 None)]"
  have "\<exists>a t. accept_run started ?evs = Some a \<and> as_connected a = [11, 10] \<and> accept_do Suc a AcTimerFires = Some t"
    by (simp add: accept_eval)
  then obtain a t where a: "accept_run started ?evs = Some a" "as_connected a = [11, 10]"
    "accept_do Suc a AcTimerFires = Some t" by blast
  have r: "reach (accept_init [10, 11]) accept_step a"
    using accept_run_reachable[OF reach_init[of "accept_init [10, 11]", OF started_init] a(1)] .
  have t: "reach (\<lambda>x. x = a) accept_step t"
  proof (rule reach_step)
    show "reach (\<lambda>x. x = a) accept_step a" by (rule reach_init) simp
    show "accept_step a t" by (rule accept_stepI[OF a(3)])
  qed
  have "length (as_connected a) = length [10, 11 :: nat]" using a(2) by simp
  from acceptor_starves[OF r this t] a t show ?thesis by blast
qed

text \<open>
  The stop events run in the order of their
  registration, the \<^verbatim>\<open>io_context\<close> first and the acceptor second, so the handlers that closing
  the acceptor completes are never run. When the three stop phases are over the system takes
  no further step, and the session of an accept that was pending is stuck in its handler: it is
  not back in the pool.
\<close>
theorem acceptor_stop_strands_session:
  assumes "reach (accept_init ps) accept_step a" "as_phase a = 3"
  shows "(\<nexists>t. accept_step a t) \<and> ac_accepts (as_state a) = [] \<and>
    length (ls0_stack (es_sessionPool (as_state a))) + length (ready_sessions (as_state a)) +
      length (as_connected a) = length ps"
proof -
  from accept_sys.reach_inv[OF assms(1)] have inv: "accept_inv ps a" .
  have "\<not> accept_step a t" for t
  proof
    assume "accept_step a t"
    then obtain grow ev where "accept_do grow a ev = Some t" by (rule accept_stepE)
    with inv assms(2) show False
      by (cases ev) (auto simp: accept_inv_def split: if_splits)
  qed
  with places_size[OF inv] inv assms(2) show ?thesis
    by (auto simp: accept_inv_def)
qed

lemma acceptor_stop_strands_session_witness:
  "\<exists>a. accept_run started [AcStop, AcStop, AcStop] = Some a \<and> (\<nexists>t. accept_step a t) \<and>
     ready_sessions (as_state a) = [11] \<and> ls0_stack (es_sessionPool (as_state a)) = [Some 10]"
proof -
  have "\<exists>a. accept_run started [AcStop, AcStop, AcStop] = Some a \<and> as_phase a = 3 \<and>
      ready_sessions (as_state a) = [11] \<and> ls0_stack (es_sessionPool (as_state a)) = [Some 10]"
    by (simp add: accept_eval)
  then obtain a where a: "accept_run started [AcStop, AcStop, AcStop] = Some a" "as_phase a = 3"
    "ready_sessions (as_state a) = [11]" "ls0_stack (es_sessionPool (as_state a)) = [Some 10]" by blast
  from acceptor_stop_strands_session[OF accept_run_reachable[OF reach_init[of "accept_init [10, 11]", OF started_init] a(1)] a(2)]
    a show ?thesis by blast
qed

text \<open>
  C19: (components \<^verbatim>\<open>NetEngine\<close>, \<^verbatim>\<open>BoostNetEngineServer\<close>, functional) A server that exists can be
  started: every worker thread runs under its name, the flag is set and an accept is pending
  into the last session of the pool. \<^verbatim>\<open>Stop\<close> then returns, with every thread joined, the
  acceptor closed and the flag cleared, and a second \<^verbatim>\<open>Stop\<close> changes nothing. A second \<^verbatim>\<open>Start\<close>
  returns as well, but its \<^verbatim>\<open>io_context\<close> is still stopped, so that every worker returns at once.
\<close>
theorem server_start_stop:
  assumes "0 < ioThreadCount" "0 < sessionCount" "length buf = 16"
    and "BoostNetEngineServer_new b grow True (Some e) ioThreadCount sessionCount (\<lambda>_. Factory_Create mk f) heap = Inr (ne, h')"
  shows "\<exists>ne1 ne2 ne3. NetEngine_Start b True buf ne = Inr ne1 \<and> IsRunning (ne_state ne1) \<and>
    ne_threads ne1 = map (\<lambda>k. \<lparr>th_thread = Running (take 15 (c_str (thread_name k))) ()\<rparr>) [0..<unat ioThreadCount] \<and>
    ac_accepts (ne_state ne1) = [length heap + unat sessionCount - 1] \<and>
    NetEngine_Stop ne1 = Some (Inr ne2) \<and> \<not> IsRunning (ne_state ne2) \<and> \<not> ac_open (ne_state ne2) \<and>
    ne_threads ne2 = replicate (unat ioThreadCount) Thread_new \<and>
    NetEngine_Stop ne2 = Some (Inr ne2) \<and>
    NetEngine_Start b True buf ne2 = Inr ne3 \<and> IsRunning (ne_state ne3) \<and>
    RunThreadWorker_returns (ne_state ne3)"
proof -
  let ?n = "unat sessionCount" and ?k = "unat ioThreadCount"
  let ?ths = "map (\<lambda>k. \<lparr>th_thread = Running (take 15 (c_str (thread_name k))) ()\<rparr>) [0..<?k] :: unit Thread list"
  have k: "0 < ?k" "0 < ?n"
    using assms(1,2) by (simp_all add: word_nat)
  obtain pool where ne: "ne = \<lparr>ne_state = engine_state_new sessionCount pool,
      ne_startDelegator = \<lparr>dg_callbacks = [StartEngineEvent True]\<rparr>,
      ne_stopDelegator = \<lparr>dg_callbacks = [BoostNetEngine_StopEngineEvent, StopEngineEvent]\<rparr>,
      ne_threads = replicate ?k Thread_new\<rparr>"
    and pool: "ls0_stack pool = map Some [length heap..<length heap + ?n]"
    by (rule server_new_eq[OF assms(1,2), of b grow True e "\<lambda>_. Factory_Create mk f" heap])
      (use assms(4) in \<open>simp add: Factory_create_many\<close>)
  have ths: "start_threads b True buf 0 (replicate ?k Thread_new) = Inr ?ths"
    using start_threads_ok[OF assms(3), of "replicate ?k Thread_new" b 0] by (simp add: Thread_new_def)
  have top: "last (ls0_stack pool) = Some (length heap + ?n - 1)" "ls0_stack pool \<noteq> []"
    using k(2) by (auto simp: pool last_map)
  define es1 where "es1 = AcceptSession ((engine_state_new sessionCount pool)\<lparr>es_isRun := True, ac_open := True\<rparr>)"
  have es1: "es_isRun es1" "ac_accepts es1 = [length heap + ?n - 1]" "ac_open es1" "io_ready es1 = []"
    "\<not> io_stopped es1" "ac_timer_waits es1 = 0"
    using top by (simp_all add: es1_def engine_state_new_def AcceptSession_def IsRunning_def TakeBoostSession_def
        TakeSession_cases async_accept_def)
  let ?ne1 = "ne\<lparr>ne_threads := ?ths, ne_state := es1\<rparr>"
  have start: "NetEngine_Start b True buf ne = Inr ?ne1"
    using k(1) ths unfolding NetEngine_Start_def
    by (simp add: ne Delegate_Invoke_def StartEngineEvent_def StartListening_def es1_def engine_state_new_def)
  define es2 where "es2 = StopListening (es1\<lparr>es_isRun := False, io_stopped := True, io_guard := False\<rparr>)"
  have es2: "\<not> es_isRun es2" "\<not> ac_open es2" "io_stopped es2"
    by (simp_all add: es2_def StopListening_facts)
  let ?ne2 = "?ne1\<lparr>ne_state := es2, ne_threads := replicate ?k Thread_new\<rparr>"
  have join: "join_threads True ?ths = Some (replicate ?k Thread_new)"
    using join_threads_returned[of ?ths] by (simp add: joinable_def)
  have stop: "NetEngine_Stop ?ne1 = Some (Inr ?ne2)"
    using es1(1) es2(3) join
    by (simp add: NetEngine_Stop_def ne Delegate_Invoke_def BoostNetEngine_StopEngineEvent_def StopEngineEvent_def
        es2_def RunThreadWorker_returns_def)
  have again: "NetEngine_Stop ?ne2 = Some (Inr ?ne2)"
    using es2(1) by (simp add: NetEngine_Stop_def)
  define es3 where "es3 = AcceptSession (es2\<lparr>es_isRun := True, ac_open := True\<rparr>)"
  have es3: "es_isRun es3" "io_stopped es3"
    using es2 by (simp_all add: es3_def AcceptSession_flags)
  let ?ne3 = "?ne2\<lparr>ne_threads := ?ths, ne_state := es3\<rparr>"
  have restart: "NetEngine_Start b True buf ?ne2 = Inr ?ne3"
    using k(1) ths es2(2) unfolding NetEngine_Start_def
    by (simp add: ne Delegate_Invoke_def StartEngineEvent_def StartListening_def es3_def)
  show ?thesis
    by (rule exI[of _ ?ne1], rule exI[of _ ?ne2], rule exI[of _ ?ne3])
      (use start stop again restart es1 es2 es3 in \<open>simp add: IsRunning_def RunThreadWorker_returns_def\<close>)
qed

lemma server_start_stop_witness:
  "\<exists>ne h' ne1. BoostNetEngineServer_new Debug Suc True (Some 9) 4 2 (\<lambda>_. Factory_Create id (Factory_new ''s'')) [] = Inr (ne, h') \<and>
     NetEngine_Start Debug True (replicate 16 NUL) ne = Inr ne1 \<and> ac_accepts (ne_state ne1) = [1]"
proof -
  have pos: "(0 :: UINT32) < 4" "(0 :: UINT32) < 2" "length (replicate 16 NUL) = 16" by simp_all
  obtain ne h' where n: "BoostNetEngineServer_new Debug Suc True (Some 9) 4 2 (\<lambda>_. Factory_Create id (Factory_new ''s'')) [] = Inr (ne, h')"
    by (rule server_new_eq[OF pos(1,2), of Debug Suc True 9 "\<lambda>_. Factory_Create id (Factory_new ''s'')" "[]"]) auto
  from server_start_stop[OF pos n] n show ?thesis by auto
qed

end
