(* ===== verification/Acceptor_Threads.thy ===== *)
theory Acceptor_Threads
  imports Engine_Props
begin

text \<open>
  The acceptor under threads. \<open>Boost_Acceptor\<close> runs a handler as one step; here a handler, and
  the thread that starts the server, advance by one access to shared state at a time: a load of
  the running flag, an operation of the pool under its mutex, a call of the timer or of the
  acceptor. The thread in \<^verbatim>\<open>NetEngine::Stop\<close> advances by one statement. Run without
  interruption the blocks are proved to be the handlers of \<open>Boost_Acceptor\<close>.
\<close>

section \<open>Blocks\<close>

text \<open>Where a thread stands: before this access.\<close>

datatype apc =
    AtComplete addr asio_result
  | AtRelease addr bool
  | AtAccept
  | AtTake
  | AtExpires
  | AtWait
  | AtAsync addr

text \<open>
  The blocks of \<^verbatim>\<open>CompleteAcception\<close> (\<open>AtComplete\<close>, \<open>AtRelease\<close>), \<^verbatim>\<open>AcceptSession\<close> (\<open>AtAccept\<close>,
  \<open>AtTake\<close>, \<open>AtAsync\<close>) and \<^verbatim>\<open>RetryAcception\<close> (\<open>AtExpires\<close>, \<open>AtWait\<close>): the state after the access,
  where the thread goes on, and the session it found connected, if any.
\<close>

fun acc_block :: "(nat \<Rightarrow> nat) \<Rightarrow> apc \<Rightarrow> EngineState \<Rightarrow> EngineState \<times> apc option \<times> addr list" where
  "acc_block grow (AtComplete session errorCode) es =
     (if IsRunning es = False then (es, Some (AtRelease session False), [])
      else case errorCode of
             Some e \<Rightarrow> (es, Some (AtRelease session (e \<noteq> operation_aborted)), [])
           | None \<Rightarrow> (es, Some AtAccept, [session]))"
| "acc_block grow (AtRelease session again) es =
     (snd (ReleaseSession grow es (Some session)), if again then Some AtAccept else None, [])"
| "acc_block grow AtAccept es = (es, if IsRunning es = False then None else Some AtTake, [])"
| "acc_block grow AtTake es =
     (case TakeBoostSession es of
        (None, es1) \<Rightarrow> (es1, Some AtExpires, [])
      | (Some session, es1) \<Rightarrow> (es1, Some (AtAsync session), []))"
| "acc_block grow AtExpires es = (cancel_timer es, Some AtWait, [])"
| "acc_block grow AtWait es = (es\<lparr>ac_timer_waits := ac_timer_waits es + 1\<rparr>, None, [])"
| "acc_block grow (AtAsync session) es = (async_accept session es, None, [])"

fun handler_entry :: "handler \<Rightarrow> apc option" where
  "handler_entry (AcceptDone session errorCode) = Some (AtComplete session errorCode)"
| "handler_entry (TimerDone errorCode) = (if errorCode \<noteq> None then None else Some AtAccept)"

text \<open>A thread left alone, for at most \<open>n\<close> blocks.\<close>

fun run_blocks :: "nat \<Rightarrow> (nat \<Rightarrow> nat) \<Rightarrow> apc option \<Rightarrow> EngineState \<Rightarrow> addr list \<Rightarrow> (EngineState \<times> addr list) option" where
  "run_blocks n grow None es connected = Some (es, connected)"
| "run_blocks 0 grow (Some p) es connected = None"
| "run_blocks (Suc n) grow (Some p) es connected =
     (case acc_block grow p es of (es1, next, found) \<Rightarrow> run_blocks n grow next es1 (connected @ found))"

section \<open>Interleavings\<close>

record AccSys =
  at_state :: EngineState
  at_threads :: "apc list"
  at_phase :: nat
  at_connected :: "addr list"

datatype at_event =
    AtIncoming
  | AtAcceptError string
  | AtTimerFires
  | AtBegin handler
  | AtThread apc
  | AtStop

definition opt_list :: "'a option \<Rightarrow> 'a list" where
  "opt_list x = (case x of None \<Rightarrow> [] | Some a \<Rightarrow> [a])"

text \<open>
  \<open>at_phase\<close> counts the statements \<^verbatim>\<open>Stop\<close> has executed: the exchange of the flag, the stop event
  of the base class, and the two calls of \<^verbatim>\<open>StopListening\<close>.
\<close>

fun at_stop :: "nat \<Rightarrow> EngineState \<Rightarrow> EngineState option" where
  "at_stop 0 es = Some (es\<lparr>es_isRun := False\<rparr>)"
| "at_stop (Suc 0) es = Some (es\<lparr>io_stopped := True, io_guard := False\<rparr>)"
| "at_stop (Suc (Suc 0)) es =
     Some (es\<lparr>ac_open := False, ac_accepts := [],
       io_ready := io_ready es @ map (\<lambda>s. AcceptDone s (Some operation_aborted)) (ac_accepts es)\<rparr>)"
| "at_stop (Suc (Suc (Suc 0))) es = Some (cancel_timer es)"
| "at_stop _ es = None"

fun at_do :: "(nat \<Rightarrow> nat) \<Rightarrow> AccSys \<Rightarrow> at_event \<Rightarrow> AccSys option" where
  "at_do grow a AtIncoming =
     (case ac_accepts (at_state a) of
        [] \<Rightarrow> None
      | s # rest \<Rightarrow>
          Some (a\<lparr>at_state := (at_state a)\<lparr>ac_accepts := rest, io_ready := io_ready (at_state a) @ [AcceptDone s None]\<rparr>\<rparr>))"
| "at_do grow a (AtAcceptError e) =
     (case ac_accepts (at_state a) of
        [] \<Rightarrow> None
      | s # rest \<Rightarrow>
          Some (a\<lparr>at_state := (at_state a)\<lparr>ac_accepts := rest,
            io_ready := io_ready (at_state a) @ [AcceptDone s (Some (other_error e))]\<rparr>\<rparr>))"
| "at_do grow a AtTimerFires =
     (if 0 < ac_timer_waits (at_state a)
      then Some (a\<lparr>at_state := (at_state a)\<lparr>ac_timer_waits := ac_timer_waits (at_state a) - 1,
             io_ready := io_ready (at_state a) @ [TimerDone None]\<rparr>\<rparr>)
      else None)"
| "at_do grow a (AtBegin h) =
     (if h \<in> set (io_ready (at_state a)) \<and> \<not> io_stopped (at_state a)
      then Some (a\<lparr>at_state := (at_state a)\<lparr>io_ready := remove1 h (io_ready (at_state a))\<rparr>,
                   at_threads := at_threads a @ opt_list (handler_entry h)\<rparr>)
      else None)"
| "at_do grow a (AtThread p) =
     (if p \<in> set (at_threads a)
      then (case acc_block grow p (at_state a) of
              (es, next, found) \<Rightarrow>
                Some (a\<lparr>at_state := es, at_threads := remove1 p (at_threads a) @ opt_list next,
                        at_connected := at_connected a @ found\<rparr>))
      else None)"
| "at_do grow a AtStop =
     (case at_stop (at_phase a) (at_state a) of
        None \<Rightarrow> None
      | Some es \<Rightarrow> Some (a\<lparr>at_state := es, at_phase := Suc (at_phase a)\<rparr>))"

inductive at_step :: "AccSys \<Rightarrow> AccSys \<Rightarrow> bool" where
  at_stepI: "at_do grow a ev = Some a' \<Longrightarrow> at_step a a'"

inductive_cases at_stepE: "at_step a a'"

text \<open>The thread in \<^verbatim>\<open>Start\<close> has opened the acceptor and is about to accept for the first time.\<close>

definition at_init :: "addr list \<Rightarrow> AccSys \<Rightarrow> bool" where
  "at_init ps a \<longleftrightarrow> (\<exists>es. es_isRun es \<and> ls0_stack (es_sessionPool es) = map Some ps \<and> \<not> io_stopped es \<and>
     io_ready es = [] \<and> ac_open es \<and> ac_accepts es = [] \<and> ac_timer_waits es = 0 \<and>
     a = \<lparr>at_state = es, at_threads = [AtAccept], at_phase = 0, at_connected = []\<rparr>)"

fun at_run :: "AccSys \<Rightarrow> at_event list \<Rightarrow> AccSys option" where
  "at_run a [] = Some a"
| "at_run a (ev # evs) = (case at_do Suc a ev of None \<Rightarrow> None | Some t \<Rightarrow> at_run t evs)"

lemma at_run_reachable:
  "reach (at_init ps) at_step a \<Longrightarrow> at_run a evs = Some t \<Longrightarrow> reach (at_init ps) at_step t"
proof (induction evs arbitrary: a)
  case (Cons ev evs)
  then obtain u where "at_do Suc a ev = Some u" "at_run u evs = Some t"
    by (auto split: option.splits)
  with Cons show ?case by (meson reach_step at_stepI)
qed simp

section \<open>The invariant\<close>

fun pc_session :: "apc \<Rightarrow> addr list" where
  "pc_session (AtComplete s ec) = [s]"
| "pc_session (AtRelease s again) = [s]"
| "pc_session (AtAsync s) = [s]"
| "pc_session _ = []"

text \<open>A thread that will start the next accept, or wait for a retry, unless it sees the flag cleared.\<close>

fun pc_live :: "apc \<Rightarrow> bool" where
  "pc_live (AtComplete s ec) \<longleftrightarrow> ec \<noteq> Some operation_aborted"
| "pc_live (AtRelease s again) \<longleftrightarrow> again"
| "pc_live _ \<longleftrightarrow> True"

definition thread_sessions :: "apc list \<Rightarrow> addr list" where
  "thread_sessions ts = concat (map pc_session ts)"

definition live_threads :: "apc list \<Rightarrow> nat" where
  "live_threads ts = length (filter pc_live ts)"

definition at_places :: "AccSys \<Rightarrow> addr option multiset" where
  "at_places a = held (at_state a) + mset (map Some (thread_sessions (at_threads a))) +
     mset (map Some (at_connected a))"

definition at_loops :: "AccSys \<Rightarrow> nat" where
  "at_loops a = chain_count (at_state a) + live_threads (at_threads a)"

definition at_inv :: "addr list \<Rightarrow> AccSys \<Rightarrow> bool" where
  "at_inv ps a \<longleftrightarrow>
     at_places a = mset (map Some ps) \<and>
     (es_isRun (at_state a) \<longleftrightarrow> at_phase a = 0) \<and>
     (io_stopped (at_state a) \<longleftrightarrow> 2 \<le> at_phase a) \<and>
     (ac_open (at_state a) \<longleftrightarrow> at_phase a < 3) \<and> (3 \<le> at_phase a \<longrightarrow> ac_accepts (at_state a) = []) \<and>
     at_loops a \<le> 1 \<and> (at_phase a = 0 \<longrightarrow> at_loops a = 1)"

lemma threads_append [simp]:
  "thread_sessions (ts @ us) = thread_sessions ts @ thread_sessions us"
  "live_threads (ts @ us) = live_threads ts + live_threads us"
  "thread_sessions [] = []" "live_threads [] = 0"
  by (simp_all add: thread_sessions_def live_threads_def)

lemma thread_removed:
  assumes "p \<in> set ts"
  shows "mset (thread_sessions ts) = mset (pc_session p) + mset (thread_sessions (remove1 p ts))"
    "live_threads ts = (if pc_live p then 1 else 0) + live_threads (remove1 p ts)"
  using mset_concat_remove1[OF assms, of pc_session] length_filter_remove1[OF assms, of pc_live]
  by (simp_all add: thread_sessions_def live_threads_def)

text \<open>One block: sessions stay, and of at most one loop one remains while the engine runs.\<close>

lemma acc_block_facts:
  assumes none: "None \<notin># held es" and step: "acc_block grow p es = (es', next, found)"
    and one: "chain_count es + (if pc_live p then 1 else 0) \<le> 1"
  shows "held es' + mset (map Some (thread_sessions (opt_list next))) + mset (map Some found) =
      held es + mset (map Some (pc_session p))"
    and "same_flags es es'"
    and "chain_count es' + live_threads (opt_list next) \<le> chain_count es + (if pc_live p then 1 else 0)"
    and "es_isRun es \<Longrightarrow>
      chain_count es' + live_threads (opt_list next) = chain_count es + (if pc_live p then 1 else 0)"
    and "ac_accepts es = [] \<and> \<not> ac_open es \<Longrightarrow> ac_accepts es' = []"
proof -
  note d = opt_list_def thread_sessions_def live_threads_def
  have "held es' + mset (map Some (thread_sessions (opt_list next))) + mset (map Some found) =
      held es + mset (map Some (pc_session p)) \<and> same_flags es es' \<and>
    chain_count es' + live_threads (opt_list next) \<le> chain_count es + (if pc_live p then 1 else 0) \<and>
    (es_isRun es \<longrightarrow>
      chain_count es' + live_threads (opt_list next) = chain_count es + (if pc_live p then 1 else 0)) \<and>
    (ac_accepts es = [] \<and> \<not> ac_open es \<longrightarrow> ac_accepts es' = [])"
  proof (cases p)
    case (AtComplete s ec)
    with step show ?thesis by (auto simp: d IsRunning_def split: if_splits option.splits)
  next
    case (AtRelease s again)
    moreover have "ac_accepts (snd (ReleaseSession grow es (Some s))) = ac_accepts es"
      by (simp add: ReleaseSession_def LockStack0_Push_def)
    ultimately show ?thesis using step by (auto simp: d ReleaseSession_facts)
  next
    case AtAccept
    with step show ?thesis by (auto simp: d IsRunning_def split: if_splits)
  next
    case AtTake
    obtain r es1 where t: "TakeBoostSession es = (r, es1)" by force
    then have acc: "ac_accepts es1 = ac_accepts es"
      by (auto simp: TakeBoostSession_def TakeSession_cases split: if_splits)
    show ?thesis
    proof (cases r)
      case None
      with TakeSession_none[of es es1] t none AtTake step show ?thesis by (auto simp: d)
    next
      case (Some s)
      with TakeSession_facts[of es s es1] t AtTake step acc show ?thesis by (auto simp: d)
    qed
  next
    case AtExpires
    with one have "ac_timer_waits es = 0" by (simp add: chain_count_def)
    then have "chain_count (cancel_timer es) = chain_count es"
      unfolding cancel_timer_facts(3) by (simp add: chain_count_def)
    with AtExpires step show ?thesis by (auto simp: d cancel_timer_facts)
  next
    case AtWait
    with step show ?thesis by (auto simp: d held_def ready_sessions_def chain_count_def)
  next
    case (AtAsync s)
    moreover have "\<not> ac_open es \<Longrightarrow> ac_accepts (async_accept s es) = ac_accepts es"
      by (simp add: async_accept_def)
    ultimately show ?thesis using step by (auto simp: d async_accept_facts)
  qed
  then show "held es' + mset (map Some (thread_sessions (opt_list next))) + mset (map Some found) =
      held es + mset (map Some (pc_session p))" "same_flags es es'"
    "chain_count es' + live_threads (opt_list next) \<le> chain_count es + (if pc_live p then 1 else 0)"
    "es_isRun es \<Longrightarrow>
      chain_count es' + live_threads (opt_list next) = chain_count es + (if pc_live p then 1 else 0)"
    "ac_accepts es = [] \<and> \<not> ac_open es \<Longrightarrow> ac_accepts es' = []" by simp_all
qed

lemma at_none: "at_inv ps a \<Longrightarrow> None \<notin># held (at_state a)"
proof -
  assume "at_inv ps a"
  then have "None \<notin># at_places a" by (auto simp: at_inv_def)
  then show ?thesis by (simp add: at_places_def)
qed

lemma at_thread_inv:
  assumes "at_inv ps a" "at_do grow a (AtThread p) = Some a'"
  shows "at_inv ps a'"
proof -
  let ?es = "at_state a"
  obtain es nxt found where b: "acc_block grow p ?es = (es, nxt, found)" by (metis prod_cases3)
  with assms(2) have p: "p \<in> set (at_threads a)" and a': "a' = a\<lparr>at_state := es,
      at_threads := remove1 p (at_threads a) @ opt_list nxt, at_connected := at_connected a @ found\<rparr>"
    by (auto split: if_splits)
  note r = thread_removed[OF p]
  have loops: "at_loops a = chain_count ?es + (if pc_live p then 1 else 0) + live_threads (remove1 p (at_threads a))"
    using r(2) by (simp add: at_loops_def)
  with assms(1) have one: "chain_count ?es + (if pc_live p then 1 else 0) \<le> 1"
    by (simp add: at_inv_def)
  note f = acc_block_facts[OF at_none[OF assms(1)] b one]
  have "mset (map Some (thread_sessions (at_threads a))) =
      mset (map Some (pc_session p)) + mset (map Some (thread_sessions (remove1 p (at_threads a))))"
    using r(1) by (metis image_mset_union mset_map)
  then have "at_places a' = at_places a"
    using f(1) by (simp add: a' at_places_def ac_simps)
  moreover have "at_loops a' \<le> at_loops a" "es_isRun ?es \<Longrightarrow> at_loops a' = at_loops a"
    using f(3,4) loops by (simp_all add: a' at_loops_def)
  ultimately show ?thesis
    using assms(1) f(2,5) by (auto simp: at_inv_def a')
qed

lemma at_stop_inv:
  assumes "at_inv ps a" "at_do grow a AtStop = Some a'"
  shows "at_inv ps a'"
proof -
  obtain es where s: "at_stop (at_phase a) (at_state a) = Some es"
    and a': "a' = a\<lparr>at_state := es, at_phase := Suc (at_phase a)\<rparr>"
    using assms(2) by (auto split: option.splits)
  have keep: "held (es\<lparr>es_isRun := x\<rparr>) = held es" "held (es\<lparr>io_stopped := y, io_guard := z\<rparr>) = held es"
    "chain_count (es\<lparr>es_isRun := x\<rparr>) = chain_count es"
    "chain_count (es\<lparr>io_stopped := y, io_guard := z\<rparr>) = chain_count es" for es x y z
    by (simp_all add: held_def ready_sessions_def chain_count_def)
  have close: "concat (map accept_session (map (\<lambda>s. AcceptDone s (Some operation_aborted)) xs)) = xs"
    "filter live_handler (map (\<lambda>s. AcceptDone s (Some operation_aborted)) xs) = []" for xs
    by (induction xs) auto
  consider "at_phase a = 0" | "at_phase a = Suc 0" | "at_phase a = Suc (Suc 0)" | "at_phase a = Suc (Suc (Suc 0))"
    using s by (cases "(at_phase a, at_state a)" rule: at_stop.cases) auto
  then show ?thesis
  proof cases
    case 1
    with s assms(1) show ?thesis by (auto simp: a' at_inv_def at_places_def at_loops_def keep)
  next
    case 2
    with s assms(1) show ?thesis by (auto simp: a' at_inv_def at_places_def at_loops_def keep)
  next
    case 3
    with s assms(1) close show ?thesis
      by (auto simp: a' at_inv_def at_places_def at_loops_def held_def ready_sessions_def chain_count_def ac_simps)
  next
    case 4
    with s have "es = cancel_timer (at_state a)" by simp
    moreover have "chain_count (cancel_timer (at_state a)) \<le> chain_count (at_state a)"
      unfolding cancel_timer_facts(3) by (simp add: chain_count_def)
    ultimately show ?thesis using 4 assms(1)
      by (auto simp: a' at_inv_def at_places_def at_loops_def cancel_timer_facts)
  qed
qed

lemma at_event_inv:
  assumes "at_inv ps a" "at_do grow a ev = Some a'"
  shows "at_inv ps a'"
proof (cases ev)
  case AtIncoming
  with assms(2) obtain s rest where acc: "ac_accepts (at_state a) = s # rest"
    and a': "a' = a\<lparr>at_state := (at_state a)\<lparr>ac_accepts := rest, io_ready := io_ready (at_state a) @ [AcceptDone s None]\<rparr>\<rparr>"
    by (auto split: list.splits)
  with assms(1) move_to_ready[OF acc, of None] show ?thesis
    by (auto simp: at_inv_def at_places_def at_loops_def)
next
  case (AtAcceptError e)
  with assms(2) obtain s rest where acc: "ac_accepts (at_state a) = s # rest"
    and a': "a' = a\<lparr>at_state := (at_state a)\<lparr>ac_accepts := rest,
      io_ready := io_ready (at_state a) @ [AcceptDone s (Some (other_error e))]\<rparr>\<rparr>"
    by (auto split: list.splits)
  with assms(1) move_to_ready[OF acc, of "Some (other_error e)"] show ?thesis
    by (auto simp: at_inv_def at_places_def at_loops_def)
next
  case AtTimerFires
  with assms(2) have w: "0 < ac_timer_waits (at_state a)"
    and a': "a' = a\<lparr>at_state := (at_state a)\<lparr>ac_timer_waits := ac_timer_waits (at_state a) - 1,
      io_ready := io_ready (at_state a) @ [TimerDone None]\<rparr>\<rparr>"
    by (auto split: if_splits)
  with assms(1) timer_fires_facts[OF w] show ?thesis
    by (auto simp: at_inv_def at_places_def at_loops_def)
next
  case (AtBegin h)
  with assms(2) have h: "h \<in> set (io_ready (at_state a))"
    and a': "a' = a\<lparr>at_state := without_handler h (at_state a),
      at_threads := at_threads a @ opt_list (handler_entry h)\<rparr>"
    by (auto simp: without_handler_def split: if_splits)
  have "thread_sessions (opt_list (handler_entry h)) = accept_session h"
    "live_threads (opt_list (handler_entry h)) = (if live_handler h then 1 else 0)"
    by (cases h; simp add: opt_list_def thread_sessions_def live_threads_def)+
  then have "at_places a' = at_places a" "at_loops a' = at_loops a"
    using without_handler_facts(1,2)[OF h] by (simp_all add: a' at_places_def at_loops_def ac_simps)
  moreover have "ac_accepts (without_handler h (at_state a)) = ac_accepts (at_state a)"
    by (simp add: without_handler_def)
  ultimately show ?thesis
    using assms(1) without_handler_facts(3)[OF h] by (auto simp: at_inv_def a')
next
  case (AtThread p)
  with assms at_thread_inv show ?thesis by blast
next
  case AtStop
  with assms at_stop_inv show ?thesis by blast
qed

lemma at_init_inv: "at_init ps a \<Longrightarrow> at_inv ps a"
  by (auto simp: at_init_def at_inv_def at_places_def at_loops_def held_def ready_sessions_def chain_count_def
      thread_sessions_def live_threads_def)

interpretation at_sys: invariant_system "at_init ps" at_step "at_inv ps" for ps
  by unfold_locales (auto intro: at_init_inv at_event_inv elim: at_stepE)

section \<open>After the stop\<close>

text \<open>How many more steps a thread can take or cause once the acceptor is closed.\<close>

fun pc_rank :: "apc \<Rightarrow> nat" where
  "pc_rank (AtComplete s ec) = 7"
| "pc_rank (AtRelease s again) = 6"
| "pc_rank AtAccept = 5"
| "pc_rank AtTake = 4"
| "pc_rank AtExpires = 3"
| "pc_rank AtWait = 2"
| "pc_rank (AtAsync s) = 1"

definition at_work :: "AccSys \<Rightarrow> nat" where
  "at_work a = sum_list (map pc_rank (at_threads a)) + ac_timer_waits (at_state a)"

lemma sum_list_remove1:
  "p \<in> set ts \<Longrightarrow> sum_list (map f ts) = f p + (sum_list (map f (remove1 p ts)) :: nat)"
  by (induction ts) auto

lemma acc_block_rank:
  assumes "acc_block grow p es = (es', nxt, found)" "\<not> ac_open es"
  shows "sum_list (map pc_rank (opt_list nxt)) + ac_timer_waits es' < pc_rank p + ac_timer_waits es"
proof (cases p)
  case AtTake
  have "ac_timer_waits es1 = ac_timer_waits es" if "TakeBoostSession es = (r, es1)" for r es1
    using that by (auto simp: TakeBoostSession_def TakeSession_cases split: if_splits)
  with AtTake assms(1) show ?thesis
    by (auto simp: opt_list_def split: prod.splits option.splits)
next
  case (AtRelease s again)
  with assms(1) show ?thesis
    by (auto simp: opt_list_def ReleaseSession_def LockStack0_Push_def)
next
  case AtExpires
  with assms(1) cancel_timer_facts(4)[of es] show ?thesis by (auto simp: opt_list_def)
next
  case (AtAsync s)
  with assms show ?thesis by (auto simp: opt_list_def async_accept_def)
qed (use assms(1) in \<open>auto simp: opt_list_def split: if_splits option.splits\<close>)

lemma stopped_step:
  assumes "at_inv ps a" "at_phase a = 4" "at_do grow a ev = Some t"
  shows "at_phase t = 4 \<and> at_work t < at_work a"
proof (cases ev)
  case (AtThread p)
  obtain es nxt found where b: "acc_block grow p (at_state a) = (es, nxt, found)" by (metis prod_cases3)
  with AtThread assms(3) have p: "p \<in> set (at_threads a)" and t: "t = a\<lparr>at_state := es,
      at_threads := remove1 p (at_threads a) @ opt_list nxt, at_connected := at_connected a @ found\<rparr>"
    by (auto split: if_splits)
  from assms(1,2) have "\<not> ac_open (at_state a)" by (simp add: at_inv_def)
  from acc_block_rank[OF b this] sum_list_remove1[OF p, of pc_rank] show ?thesis
    using assms(2) by (simp add: t at_work_def)
next
  case AtStop
  with assms(2,3) show ?thesis by (simp add: numeral_eq_Suc)
qed (use assms in \<open>auto simp: at_inv_def at_work_def split: if_splits\<close>)

lemma thread_can_step: "p \<in> set (at_threads a) \<Longrightarrow> \<exists>t. at_step a t"
proof -
  assume p: "p \<in> set (at_threads a)"
  obtain es nxt found where "acc_block Suc p (at_state a) = (es, nxt, found)" by (metis prod_cases3)
  with p have "at_do Suc a (AtThread p) = Some (a\<lparr>at_state := es,
      at_threads := remove1 p (at_threads a) @ opt_list nxt, at_connected := at_connected a @ found\<rparr>)" by simp
  then show ?thesis by (blast intro: at_stepI)
qed

lemma three_steps:
  assumes s: "at_step a u" "at_step u v" "at_step v t"
  shows "reach (\<lambda>x. x = a) at_step t"
proof -
  have "reach (\<lambda>x. x = a) at_step a" by (rule reach_init) simp
  then have "reach (\<lambda>x. x = a) at_step u" using s(1) by (rule reach_step)
  then have "reach (\<lambda>x. x = a) at_step v" using s(2) by (rule reach_step)
  then show ?thesis using s(3) by (rule reach_step)
qed

lemma acceptor_rest:
  assumes "at_threads a = []" "ac_timer_waits (at_state a) = 0" "ac_accepts (at_state a) = []"
    "io_stopped (at_state a)" "at_phase a = 4"
  shows "\<not> at_step a t"
proof
  assume "at_step a t"
  then obtain grow ev where "at_do grow a ev = Some t" by (rule at_stepE)
  with assms show False by (cases ev) (auto simp: numeral_eq_Suc)
qed

text \<open>A server as it is constructed is such an engine once \<^verbatim>\<open>Start\<close> has opened the acceptor.\<close>

lemma server_starts_at_init:
  assumes "0 < ioThreadCount" "0 < sessionCount"
    and "BoostNetEngineServer_new b grow bind_ok (Some e) ioThreadCount sessionCount create h = Inr (ne, h')"
  shows "at_init (fst (create_many (create e) (unat sessionCount) h))
    \<lparr>at_state = (ne_state ne)\<lparr>es_isRun := True, ac_open := True\<rparr>, at_threads = [AtAccept], at_phase = 0, at_connected = []\<rparr>"
  by (rule server_new_eq[OF assms(1,2), of b grow bind_ok e create h])
    (use assms(3) in \<open>auto simp: at_init_def engine_state_new_def\<close>)

section \<open>Properties\<close>

text \<open>
  C6: (component \<^verbatim>\<open>BoostAcceptor\<close>, invariant) However the threads of the engine, the network, the
  timer and a stop interleave between the single accesses of the handlers, the pool, the pending
  accept, the ready handlers, the threads and the connections share out the sessions of the
  server: none is lost or in two places. While the engine runs, exactly one of them will start
  the next accept, so the accept loop is never broken and never doubled; after a stop at most
  one still tries.
\<close>
theorem acceptor_threads_share_sessions:
  assumes "distinct ps" "reach (at_init ps) at_step a"
  defines "all \<equiv> ls0_stack (es_sessionPool (at_state a)) @ map Some (ac_accepts (at_state a) @
    ready_sessions (at_state a) @ thread_sessions (at_threads a) @ at_connected a)"
  shows "distinct all \<and> set all = Some ` set ps \<and>
    (if es_isRun (at_state a) then at_loops a = 1 else at_loops a \<le> 1)"
proof -
  from at_sys.reach_inv[OF assms(2)] have inv: "at_inv ps a" .
  then have eq: "mset all = mset (map Some ps)"
    by (simp add: at_inv_def at_places_def held_def all_def ac_simps)
  moreover have "distinct (map Some ps)"
    using assms(1) by (simp add: distinct_map)
  ultimately have "distinct all" by (metis mset_eq_imp_distinct_iff)
  moreover from eq have "set all = Some ` set ps" by (metis list.set_map mset_eq_setD)
  ultimately show ?thesis
    using inv by (simp add: at_inv_def)
qed

definition accepting :: AccSys where
  "accepting = \<lparr>at_state =
     \<lparr>es_isRun = True, es_sessionPool = \<lparr>ls0_stack = [Some 10, Some 11], ls0_capacity = 2\<rparr>,
      es_usingSessions = [None, None], io_stopped = False, io_guard = True, io_ready = [],
      ac_open = True, ac_accepts = [], ac_timer_waits = 0\<rparr>,
     at_threads = [AtAccept], at_phase = 0, at_connected = []\<rparr>"

lemma accepting_reachable: "reach (at_init [10, 11]) at_step accepting"
  by (rule reach_init) (simp add: at_init_def accepting_def)

lemmas at_eval = accepting_def IsRunning_def TakeBoostSession_def TakeSession_cases async_accept_def
  ReleaseSession_def LockStack0_Push_def vector_push_def cancel_timer_def opt_list_def

lemma acceptor_threads_share_sessions_witness:
  "\<exists>a. at_run accepting [AtThread AtAccept, AtThread AtTake] = Some a \<and> at_threads a = [AtAsync 11] \<and>
     es_isRun (at_state a) \<and> at_loops a = 1"
proof -
  have "\<exists>a. at_run accepting [AtThread AtAccept, AtThread AtTake] = Some a \<and> at_threads a = [AtAsync 11] \<and>
     es_isRun (at_state a)" by (simp add: at_eval)
  then obtain a where a: "at_run accepting [AtThread AtAccept, AtThread AtTake] = Some a"
    "at_threads a = [AtAsync 11]" "es_isRun (at_state a)" by blast
  have d: "distinct [10, 11 :: nat]" by simp
  from acceptor_threads_share_sessions[OF d at_run_reachable[OF accepting_reachable a(1)]] a show ?thesis
    by auto
qed


text \<open>
  C32: (component \<^verbatim>\<open>NetEngine\<close>, termination) The stop ends. Once \<^verbatim>\<open>Stop\<close> has run its events every
  further step brings the end nearer, whatever the threads were doing, so that the workers it
  joins have returned after at most \<open>at_work\<close> steps; the system is at rest exactly when no
  thread is inside a handler and no retry is waiting. Then every session is in the pool, with a
  connection, or lost in a handler that will never run.
\<close>
theorem acceptor_stop_terminates:
  assumes "reach (at_init ps) at_step a" "at_phase a = 4"
  shows "(\<forall>t. at_step a t \<longrightarrow> at_phase t = 4 \<and> at_work t < at_work a) \<and>
    ((\<nexists>t. at_step a t) \<longleftrightarrow> at_threads a = [] \<and> ac_timer_waits (at_state a) = 0) \<and>
    RunThreadWorker_returns (at_state a) \<and>
    (at_threads a = [] \<longrightarrow> length (ls0_stack (es_sessionPool (at_state a))) +
       length (ready_sessions (at_state a)) + length (at_connected a) = length ps)"
proof -
  from at_sys.reach_inv[OF assms(1)] have inv: "at_inv ps a" .
  have down: "at_phase t = 4 \<and> at_work t < at_work a" if "at_step a t" for t
    using that stopped_step[OF inv assms(2)] by (auto elim: at_stepE)
  have "\<exists>t. at_step a t" if "0 < ac_timer_waits (at_state a)"
  proof -
    from that have "\<exists>t. at_do Suc a AtTimerFires = Some t" by simp
    then show ?thesis by (blast intro: at_stepI)
  qed
  moreover have "\<not> at_step a t" if "at_threads a = []" "ac_timer_waits (at_state a) = 0" for t
    using down[of t] that by (auto simp: at_work_def)
  ultimately have rest: "(\<nexists>t. at_step a t) \<longleftrightarrow> at_threads a = [] \<and> ac_timer_waits (at_state a) = 0"
    using thread_can_step[of _ a] by (metis list.set_intros(1) list.exhaust neq0_conv)
  have "size (at_places a) = size (mset (map Some ps))"
    using inv by (simp add: at_inv_def)
  then have "at_threads a = [] \<longrightarrow> length (ls0_stack (es_sessionPool (at_state a))) +
       length (ready_sessions (at_state a)) + length (at_connected a) = length ps"
    using inv assms(2) by (auto simp: at_places_def held_def at_inv_def)
  with down rest inv assms(2) show ?thesis
    by (simp add: at_inv_def RunThreadWorker_returns_def)
qed

lemma acceptor_stop_terminates_witness:
  "\<exists>a. at_run accepting [AtThread AtAccept, AtStop, AtStop, AtStop, AtStop] = Some a \<and>
     at_threads a = [AtTake] \<and> (\<forall>t. at_step a t \<longrightarrow> at_work t < at_work a)"
proof -
  have "\<exists>a. at_run accepting [AtThread AtAccept, AtStop, AtStop, AtStop, AtStop] = Some a \<and>
     at_phase a = 4 \<and> at_threads a = [AtTake]" by (simp add: at_eval numeral_eq_Suc)
  then obtain a where a: "at_run accepting [AtThread AtAccept, AtStop, AtStop, AtStop, AtStop] = Some a"
    "at_phase a = 4" "at_threads a = [AtTake]" by blast
  from acceptor_stop_terminates[OF at_run_reachable[OF accepting_reachable a(1)] a(2)] a show ?thesis by blast
qed

text \<open>
  Stopping the engine is not
  coordinated with its handlers. Over any sessions there is a run to a state in which a thread
  is about to call \<^verbatim>\<open>async_accept\<close> and \<^verbatim>\<open>Stop\<close> is about to call \<^verbatim>\<open>close\<close> on the same acceptor,
  two calls that Boost.Asio does not allow at the same time. Even if they are serialised, with
  \<^verbatim>\<open>close\<close> first, the accept completes with an error into the stopped \<^verbatim>\<open>io_context\<close>: when all
  has come to rest the session is neither in the pool nor connected.
\<close>
theorem acceptor_stop_races:
  "\<exists>a t. reach (at_init (ps @ [s])) at_step a \<and> AtAsync s \<in> set (at_threads a) \<and>
     at_phase a = 2 \<and> ac_open (at_state a) \<and>
     reach (\<lambda>x. x = a) at_step t \<and> at_phase t = 4 \<and> (\<nexists>u. at_step t u) \<and>
     ls0_stack (es_sessionPool (at_state t)) = map Some ps \<and> at_connected t = [] \<and>
     io_ready (at_state t) = [AcceptDone s (Some (other_error ''bad_descriptor''))]"
proof -
  let ?i = "accepting\<lparr>at_state := (at_state accepting)\<lparr>es_sessionPool :=
      \<lparr>ls0_stack = map Some (ps @ [s]), ls0_capacity = length ps + 1\<rparr>\<rparr>\<rparr>"
  let ?es = "(at_state ?i)\<lparr>es_isRun := False, io_stopped := True, io_guard := False,
      es_sessionPool := \<lparr>ls0_stack = map Some ps, ls0_capacity = length ps + 1\<rparr>\<rparr>"
  let ?a = "\<lparr>at_state = ?es, at_threads = [AtAsync s], at_phase = 2, at_connected = []\<rparr>"
  let ?t = "\<lparr>at_state = ?es\<lparr>ac_open := False,
        io_ready := [AcceptDone s (Some (other_error ''bad_descriptor''))]\<rparr>,
      at_threads = [], at_phase = 4, at_connected = []\<rparr>"
  have i: "at_init (ps @ [s]) ?i" by (simp add: at_init_def accepting_def)
  have "at_run ?i [AtThread AtAccept, AtThread AtTake, AtStop, AtStop] = Some ?a"
    by (simp add: at_eval butlast_append numeral_eq_Suc)
  from at_run_reachable[OF reach_init[of "at_init (ps @ [s])", OF i] this] have a: "reach (at_init (ps @ [s])) at_step ?a" .
  have "\<exists>u v. at_do Suc ?a AtStop = Some u \<and> at_do Suc u (AtThread (AtAsync s)) = Some v \<and>
      at_do Suc v AtStop = Some ?t"
    by (simp add: at_eval numeral_eq_Suc)
  then obtain u v where uv: "at_step ?a u" "at_step u v" "at_step v ?t"
    by (blast intro: at_stepI)
  have t: "reach (\<lambda>x. x = ?a) at_step ?t"
    using uv by (rule three_steps)
  have "\<not> at_step ?t w" for w
    using acceptor_rest[of ?t w] by (simp add: accepting_def)
  with a t show ?thesis
    by (intro exI[of _ ?a] exI[of _ ?t]) (simp add: accepting_def)
qed

end
