(* ===== verification/Session_Lifetime.thy ===== *)
theory Session_Lifetime
  imports Boost_Session_Props
begin

text \<open>
  How long a session has to live. Sessions are owned by \<^verbatim>\<open>std::shared_ptr\<close>, but the handlers that
  \<^verbatim>\<open>Send\<close> posts and the handler of a write capture the bare \<^verbatim>\<open>this\<close>. Here the sessions of
  \<open>Boost_Session\<close> get a count of their owners: the last one to let go destroys the session, and a
  handler that is run after that uses an object that is no more.
\<close>

section \<open>Owned sessions\<close>

text \<open>A thread inside \<^verbatim>\<open>Send\<close> or calling it is an owner's; a handler's is not.\<close>

record Owned =
  ow_sys :: SessionSys
  ow_owners :: nat

datatype ow_event = OwCopy | OwRelease | OwEvent sy_event

fun in_send :: "pc \<Rightarrow> bool" where
  "in_send (InSend isOverflow needFlush) \<longleftrightarrow> True"
| "in_send _ \<longleftrightarrow> False"

text \<open>
  The destructor is the default one: the socket is closed, and the handlers of its writes get
  ready with an error.
\<close>

definition BoostSession_delete :: "SessionSys \<Rightarrow> SessionSys" where
  "BoostSession_delete s =
     (let w = sy_world s
      in s\<lparr>sy_world := w\<lparr>bs_open := False, sw_writes := [],
             sw_tasks := sw_tasks w @ map (\<lambda>_. RunCompleteSend (Some ''operation_aborted'')) (sw_writes w)\<rparr>\<rparr>)"

text \<open>\<open>None\<close>: the event is not possible now. \<open>Dangling\<close>: it uses a destroyed session.\<close>

fun ow_do :: "Owned \<Rightarrow> ow_event \<Rightarrow> Owned res option" where
  "ow_do s OwCopy = (if 0 < ow_owners s then Some (Inr (s\<lparr>ow_owners := ow_owners s + 1\<rparr>)) else None)"
| "ow_do s OwRelease =
     (if 1 < ow_owners s then Some (Inr (s\<lparr>ow_owners := ow_owners s - 1\<rparr>))
      else if ow_owners s = 1 \<and> \<not> list_ex in_send (sy_threads (ow_sys s))
      then Some (Inr (s\<lparr>ow_owners := 0, ow_sys := BoostSession_delete (ow_sys s)\<rparr>))
      else None)"
| "ow_do s (OwEvent ev) =
     (if 0 < ow_owners s
      then map_option (\<lambda>t. Inr (s\<lparr>ow_sys := t\<rparr>)) (sy_do (ow_sys s) ev)
      else case ev of
             EvTask t \<Rightarrow> if t \<in> set (sw_tasks (sy_world (ow_sys s))) then Some (Inl Dangling) else None
           | EvThread p \<Rightarrow> if p \<in> set (sy_threads (ow_sys s)) then Some (Inl Dangling) else None
           | _ \<Rightarrow> None)"

inductive ow_step :: "Owned \<Rightarrow> Owned \<Rightarrow> bool" where
  ow_stepI: "ow_do s ev = Some (Inr t) \<Longrightarrow> ow_step s t"

inductive_cases ow_stepE: "ow_step s t"

definition ow_init :: "Owned \<Rightarrow> bool" where
  "ow_init s \<longleftrightarrow> sy_init (ow_sys s) \<and> ow_owners s = 1"

section \<open>Living sessions\<close>

definition ow_inv :: "Owned \<Rightarrow> bool" where
  "ow_inv s \<longleftrightarrow> (0 < ow_owners s \<longrightarrow> session_reachable (ow_sys s))"

lemma ow_step_inv:
  assumes "ow_inv s" "ow_do s ev = Some (Inr t)"
  shows "ow_inv t"
proof (cases ev)
  case (OwEvent e)
  show ?thesis
  proof (cases "0 < ow_owners s")
    case True
    with assms OwEvent obtain u where "sy_do (ow_sys s) e = Some u" "t = s\<lparr>ow_sys := u\<rparr>" by auto
    with assms(1) True show ?thesis
      by (simp add: ow_inv_def) (meson reach_step sy_stepI)
  next
    case False
    with assms(2) OwEvent show ?thesis by (cases e) (auto split: if_splits)
  qed
qed (use assms in \<open>auto simp: ow_inv_def split: if_splits\<close>)

interpretation owned_sys: invariant_system ow_init ow_step ow_inv
proof
  show "ow_init s \<Longrightarrow> ow_inv s" for s by (simp add: ow_init_def ow_inv_def reach_init)
  show "ow_inv s \<Longrightarrow> ow_step s t \<Longrightarrow> ow_inv t" for s t by (erule ow_stepE) (rule ow_step_inv)
qed

text \<open>What is left to be run on behalf of the session by threads that do not own it.\<close>

definition left_behind :: "SessionSys \<Rightarrow> bool" where
  "left_behind s \<longleftrightarrow> sw_tasks (sy_world s) \<noteq> [] \<or> sw_writes (sy_world s) \<noteq> [] \<or> sy_threads s \<noteq> []"

lemma left_behind_iff:
  assumes "session_reachable s" "\<not> list_ex in_send (sy_threads s)"
  shows "left_behind s \<longleftrightarrow> bs_isSending (sy_world s) \<or> InClose \<in> set (sy_threads s) \<or>
    RunCloseSocket \<in> set (sw_tasks (sy_world s)) \<or> RunReceive \<in> set (sw_tasks (sy_world s))"
proof -
  have n: "length (filter chain_pc (sy_threads s)) + length (filter chain_task (sw_tasks (sy_world s))) +
      length (sw_writes (sy_world s)) = (if bs_isSending (sy_world s) then 1 else 0)"
    using reachable_stage[OF assms(1)] flow_count by metis
  have pcs: "p = InClose \<or> chain_pc p" if "p \<in> set (sy_threads s)" for p
  proof -
    from that assms(2) have "\<not> in_send p" by (auto simp: list_ex_iff)
    then show ?thesis by (cases p) auto
  qed
  have tasks: "t = RunCloseSocket \<or> t = RunReceive \<or> chain_task t" for t
    by (cases t) auto
  show ?thesis
  proof (cases "bs_isSending (sy_world s)")
    case True
    with n have "left_behind s" by (auto simp: left_behind_def)
    with True show ?thesis by simp
  next
    case False
    with n have "filter chain_pc (sy_threads s) = []" "filter chain_task (sw_tasks (sy_world s)) = []"
      "sw_writes (sy_world s) = []" by auto
    with pcs tasks have ends: "\<forall>p\<in>set (sy_threads s). p = InClose"
      "\<forall>t\<in>set (sw_tasks (sy_world s)). t = RunCloseSocket \<or> t = RunReceive"
      by (auto simp: filter_empty_conv)
    have "sy_threads s \<noteq> [] \<longleftrightarrow> InClose \<in> set (sy_threads s)"
      using ends(1) by (cases "sy_threads s") auto
    moreover have "sw_tasks (sy_world s) \<noteq> [] \<longleftrightarrow>
        RunCloseSocket \<in> set (sw_tasks (sy_world s)) \<or> RunReceive \<in> set (sw_tasks (sy_world s))"
      using ends(2) by (cases "sw_tasks (sy_world s)") auto
    ultimately show ?thesis
      using False \<open>sw_writes (sy_world s) = []\<close> by (auto simp: left_behind_def)
  qed
qed

section \<open>Properties\<close>

text \<open>
  C16: (component \<^verbatim>\<open>BoostSession\<close>, safety) A session may be let go of exactly when it rests. As long
  as an owner remains, nothing uses a destroyed session, whatever the interleaving. When the
  last owner lets go, some handler will use the destroyed session if a buffer is being sent
  (\<^verbatim>\<open>m_isSending\<close> is set) or the socket is about to be closed, since the handlers capture the bare
  \<^verbatim>\<open>this\<close>; and otherwise none.
\<close>
theorem session_release_safe:
  assumes "reach ow_init ow_step s" "0 < ow_owners s"
  shows "(\<forall>ev. ow_do s ev \<noteq> Some (Inl Dangling)) \<and>
    (ow_do s OwRelease = Some (Inr t) \<and> ow_owners t = 0 \<longrightarrow>
       ((\<exists>ev. ow_do t ev = Some (Inl Dangling)) \<longleftrightarrow>
         bs_isSending (sy_world (ow_sys s)) \<or> InClose \<in> set (sy_threads (ow_sys s)) \<or>
         RunCloseSocket \<in> set (sw_tasks (sy_world (ow_sys s))) \<or>
         RunReceive \<in> set (sw_tasks (sy_world (ow_sys s)))))"
proof -
  have r: "session_reachable (ow_sys s)"
    using owned_sys.reach_inv[OF assms(1)] assms(2) by (simp add: ow_inv_def)
  have "ow_do s ev \<noteq> Some (Inl Dangling)" for ev
    using assms(2) by (cases ev) (auto split: if_splits)
  moreover have "(\<exists>ev. ow_do t ev = Some (Inl Dangling)) \<longleftrightarrow> left_behind (ow_sys s)"
    "\<not> list_ex in_send (sy_threads (ow_sys s))"
    if "ow_do s OwRelease = Some (Inr t)" "ow_owners t = 0"
  proof -
    from that have t: "t = s\<lparr>ow_owners := 0, ow_sys := BoostSession_delete (ow_sys s)\<rparr>"
      and no: "\<not> list_ex in_send (sy_threads (ow_sys s))"
      by (auto split: if_splits)
    show "\<not> list_ex in_send (sy_threads (ow_sys s))" by (rule no)
    have "(\<exists>ev. ow_do t ev = Some (Inl Dangling)) \<longleftrightarrow>
        sw_tasks (sy_world (ow_sys t)) \<noteq> [] \<or> sy_threads (ow_sys t) \<noteq> []"
    proof
      assume "\<exists>ev. ow_do t ev = Some (Inl Dangling)"
      then obtain ev where "ow_do t ev = Some (Inl Dangling)" by blast
      then show "sw_tasks (sy_world (ow_sys t)) \<noteq> [] \<or> sy_threads (ow_sys t) \<noteq> []"
        using that(2) by (cases ev) (auto split: if_splits sy_event.splits)
    next
      assume "sw_tasks (sy_world (ow_sys t)) \<noteq> [] \<or> sy_threads (ow_sys t) \<noteq> []"
      then obtain k p where "k \<in> set (sw_tasks (sy_world (ow_sys t))) \<or> p \<in> set (sy_threads (ow_sys t))"
        by (metis list.set_intros(1) list.exhaust)
      then have "ow_do t (OwEvent (EvTask k)) = Some (Inl Dangling) \<or> ow_do t (OwEvent (EvThread p)) = Some (Inl Dangling)"
        using that(2) by auto
      then show "\<exists>ev. ow_do t ev = Some (Inl Dangling)" by blast
    qed
    moreover have "sw_tasks (sy_world (ow_sys t)) = [] \<longleftrightarrow>
        sw_tasks (sy_world (ow_sys s)) = [] \<and> sw_writes (sy_world (ow_sys s)) = []"
      "sy_threads (ow_sys t) = sy_threads (ow_sys s)"
      by (simp_all add: t BoostSession_delete_def Let_def)
    ultimately show "(\<exists>ev. ow_do t ev = Some (Inl Dangling)) \<longleftrightarrow> left_behind (ow_sys s)"
      by (auto simp: left_behind_def)
  qed
  ultimately show ?thesis using left_behind_iff[OF r] by blast
qed

text \<open>An owner sends and lets go at once: the flush it posted is run on a destroyed session.\<close>

lemma session_release_safe_witness:
  "\<exists>u t. ow_do u OwRelease = Some (Inr t) \<and> reach ow_init ow_step u \<and>
     sy_accepted (ow_sys u) = [Some \<lparr>sb_data = [1]\<rparr>] \<and> ow_owners t = 0 \<and> (\<exists>ev. ow_do t ev = Some (Inl Dangling))"
proof -
  let ?a = "\<lparr>ow_sys = connected, ow_owners = 1\<rparr>"
  have "\<exists>s. sy_run connected [EvSend \<lparr>sb_data = [1]\<rparr>, EvThread (InSend False True)] = Some s \<and>
      sy_accepted s = [Some \<lparr>sb_data = [1]\<rparr>] \<and> bs_isSending (sy_world s) \<and> sy_threads s = []"
    by (simp add: session_eval)
  then obtain s r where s: "sy_do connected (EvSend \<lparr>sb_data = [1]\<rparr>) = Some r" "sy_do r (EvThread (InSend False True)) = Some s"
      "sy_accepted s = [Some \<lparr>sb_data = [1]\<rparr>]" "bs_isSending (sy_world s)" "sy_threads s = []"
    by (auto split: option.splits)
  let ?u = "?a\<lparr>ow_sys := s\<rparr>"
  have "ow_do ?a (OwEvent (EvSend \<lparr>sb_data = [1]\<rparr>)) = Some (Inr (?a\<lparr>ow_sys := r\<rparr>))"
    "ow_do (?a\<lparr>ow_sys := r\<rparr>) (OwEvent (EvThread (InSend False True))) = Some (Inr ?u)"
    using s(1,2) by simp_all
  moreover have "reach ow_init ow_step ?a"
    using connected_init by (simp add: reach_init ow_init_def)
  ultimately have u: "reach ow_init ow_step ?u" by (meson reach_step ow_stepI)
  have rel: "ow_do ?u OwRelease = Some (Inr (?u\<lparr>ow_owners := 0, ow_sys := BoostSession_delete s\<rparr>))"
    using s(5) by simp
  from session_release_safe[OF u, of "?u\<lparr>ow_owners := 0, ow_sys := BoostSession_delete s\<rparr>"] rel s(4) u s(3) show ?thesis
    by (intro exI[of _ ?u] exI[of _ "?u\<lparr>ow_owners := 0, ow_sys := BoostSession_delete s\<rparr>"]) simp
qed

end
