(* ===== verification/Accepted_Sessions.thy ===== *)
theory Accepted_Sessions
  imports Acceptor_Threads Session_Lifetime
begin

text \<open>
  What becomes of a session that a connection was accepted into: the acceptor under threads
  and the session with its owners, put together. The handler of a successful accept holds the
  last pointer to the session, neither starts nor stores it, and lets it go when it ends.
\<close>

section \<open>Connected sessions\<close>

text \<open>The pointers to a session in the pool, the pending accept, the ready handlers and the threads.\<close>

definition session_pointers :: "AccSys \<Rightarrow> addr \<Rightarrow> nat" where
  "session_pointers a s = count (held (at_state a)) (Some s) + count (mset (thread_sessions (at_threads a))) s"

lemma count_map_Some: "count (mset (map Some xs)) (Some x) = count (mset xs) x"
  by (induction xs) auto

lemma connected_once:
  assumes "reach (at_init ps) at_step a" "distinct ps"
  shows "distinct (at_connected a) \<and> set (at_connected a) \<subseteq> set ps \<and>
    (\<forall>s\<in>set (at_connected a). session_pointers a s = 0)"
proof -
  have places: "at_places a = mset (map Some ps)"
    using at_sys.reach_inv[OF assms(1)] by (simp add: at_inv_def)
  have total: "session_pointers a s + count (mset (at_connected a)) s = count (mset ps) s" for s
    using arg_cong[OF places, of "\<lambda>m. count m (Some s)"]
    by (simp add: at_places_def session_pointers_def count_map_Some del: mset_map)
  have one: "session_pointers a s + count (mset (at_connected a)) s = (if s \<in> set ps then 1 else 0)" for s
    using total[of s] assms(2) by (metis count_mset distinct_count_atmost_1 set_mset_mset)
  have seen: "s \<in> set (at_connected a) \<Longrightarrow>
      s \<in> set ps \<and> count (mset (at_connected a)) s = 1 \<and> session_pointers a s = 0" for s
  proof -
    assume "s \<in> set (at_connected a)"
    then obtain n where n: "count (mset (at_connected a)) s = Suc n"
      by (metis count_eq_zero_iff not0_implies_Suc set_mset_mset)
    with one[of s] show ?thesis by (simp split: if_splits)
  qed
  then have "count (mset (at_connected a)) s = (if s \<in> set (at_connected a) then 1 else 0)" for s
    by (simp add: count_eq_zero_iff)
  then have "distinct (at_connected a)" by (simp add: distinct_count_atmost_1)
  with seen show ?thesis by blast
qed

lemma at_connected_grows: "at_do grow a ev = Some a' \<Longrightarrow> \<exists>xs. at_connected a' = at_connected a @ xs"
  by (cases ev) (auto split: if_splits list.splits option.splits prod.splits)

lemma at_connected_grows_reach:
  "reach (\<lambda>x. x = a) at_step t \<Longrightarrow> \<exists>xs. at_connected t = at_connected a @ xs"
proof (induction rule: reach.induct)
  case (reach_step s t)
  from reach_step(2) obtain grow ev where "at_do grow s ev = Some t" by (auto elim: at_stepE)
  from at_connected_grows[OF this] reach_step(3) show ?case by force
qed auto

text \<open>A session that was neither started nor used: the destructor of its last pointer closes the socket.\<close>

lemma fresh_session_released:
  assumes "sy_init c"
  shows "\<exists>d. ow_do \<lparr>ow_sys = c, ow_owners = 1\<rparr> OwRelease = Some (Inr d) \<and> \<not> bs_open (sy_world (ow_sys d)) \<and>
    sw_wire (sy_world (ow_sys d)) = [] \<and> (\<nexists>ev. ow_do d ev = Some (Inl Dangling))"
proof -
  let ?d = "\<lparr>ow_sys = BoostSession_delete c, ow_owners = 0\<rparr>"
  from assms have c: "sy_threads c = []" "sw_tasks (sy_world c) = []" "sw_writes (sy_world c) = []"
    "sw_wire (sy_world c) = []"
    by (auto simp: sy_init_def BoostSession_new_def res_simps)
  then have "ow_do ?d ev \<noteq> Some (Inl Dangling)" for ev
    by (cases ev) (auto simp: BoostSession_delete_def Let_def split: sy_event.splits)
  with c show ?thesis
    by (intro exI[of _ ?d]) (simp add: BoostSession_delete_def Let_def)
qed

section \<open>Properties\<close>



end
