(* ===== verification/Net_Client.thy ===== *)
theory Net_Client
  imports Net_Engine Boost_Session
begin

text \<open>
  \<^verbatim>\<open>BoostNetEngineClient\<close>: how the client finds its endpoint, and its connection handlers. The
  connecting itself is commented out in the source, so \<^verbatim>\<open>Connect\<close> only checks. Sessions are
  reached by pointer through a store; one timer serves the retries of all of them.
\<close>

section \<open>State\<close>

type_synonym address = string
type_synonym endpoint = "address \<times> UINT16"

record ClientState =
  cl_isRun :: bool
  cl_endpoint :: endpoint
  cl_waits :: "addr option list"
  cl_ready :: "(addr option \<times> asio_result) list"
  cl_sessions :: "addr \<Rightarrow> SessionWorld"

text \<open>
  Parsing a literal address and resolving a name are Boost's: \<open>make_address\<close> yields an address
  or fails, \<open>resolve\<close> yields endpoints or fails. The first endpoint of an empty result is an
  iterator past the end.
\<close>

definition client_endpoint ::
  "build \<Rightarrow> (string \<Rightarrow> address option) \<Rightarrow> (string \<Rightarrow> string \<Rightarrow> endpoint list option) \<Rightarrow> string \<Rightarrow> UINT16 \<Rightarrow> endpoint res" where
  "client_endpoint b make_address resolve host port =
     (case make_address host of
        Some a \<Rightarrow> Inr (a, port)
      | None \<Rightarrow>
          (let results = resolve host (to_string (unat port))
           in ASSERT b (case results of Some (_ # _) \<Rightarrow> True | _ \<Rightarrow> False)
                ''Invalid IP Address or Hostname. Host: %s''
                (case results of Some (e # _) \<Rightarrow> Inr e | _ \<Rightarrow> Inl OutOfBounds)))"

text \<open>The constructor and the destructor; the engine's own part is the base class.\<close>

definition BoostNetEngineClient_new ::
  "build \<Rightarrow> (nat \<Rightarrow> nat) \<Rightarrow> (string \<Rightarrow> address option) \<Rightarrow> (string \<Rightarrow> string \<Rightarrow> endpoint list option) \<Rightarrow>
   addr option \<Rightarrow> string \<Rightarrow> UINT16 \<Rightarrow> UINT32 \<Rightarrow> UINT32 \<Rightarrow> (addr \<Rightarrow> 'h \<Rightarrow> addr option \<times> 'h) \<Rightarrow> 'h \<Rightarrow>
   (NetEngine \<times> endpoint \<times> 'h) res" where
  "BoostNetEngineClient_new b grow make_address resolve self host port ioThreadCount sessionCount create h =
     bind_res (BoostNetEngine_new b grow self ioThreadCount sessionCount create h) (\<lambda>(ne, h1).
     bind_res (client_endpoint b make_address resolve host port) (\<lambda>ep. Inr (ne, ep, h1)))"

definition BoostNetEngineClient_delete :: "NetEngine \<Rightarrow> NetEngine res option" where
  "BoostNetEngineClient_delete ne = NetEngine_Stop ne"

section \<open>Handlers\<close>

definition client_Connect :: "build \<Rightarrow> ClientState \<Rightarrow> addr option \<Rightarrow> ClientState res" where
  "client_Connect b cl session =
     (if cl_isRun cl = False then Inr cl
      else ASSERT b (session \<noteq> None) ''session is null'' (Inr cl))"

text \<open>Setting the expiry completes the waits of the timer with \<open>operation_aborted\<close>.\<close>

definition client_RetryConnect :: "ClientState \<Rightarrow> addr option \<Rightarrow> ClientState" where
  "client_RetryConnect cl session =
     cl\<lparr>cl_ready := cl_ready cl @ map (\<lambda>s. (s, Some operation_aborted)) (cl_waits cl),
        cl_waits := [session]\<rparr>"

definition client_CompleteConnect :: "build \<Rightarrow> ClientState \<Rightarrow> addr option \<Rightarrow> asio_result \<Rightarrow> ClientState res" where
  "client_CompleteConnect b cl session errorCode =
     ASSERT b (session \<noteq> None) ''session is null''
       (if cl_isRun cl = False then Inr cl
        else case errorCode of
               Some e \<Rightarrow> if e = operation_aborted then Inr cl else Inr (client_RetryConnect cl session)
             | None \<Rightarrow>
                 (case session of
                    None \<Rightarrow> Inl NullDeref
                  | Some a \<Rightarrow> bind_res (BoostSession_Start (cl_sessions cl a)) (\<lambda>w.
                      Inr (cl\<lparr>cl_sessions := (cl_sessions cl)(a := w)\<rparr>))))"

definition client_retry_handler :: "build \<Rightarrow> ClientState \<Rightarrow> addr option \<Rightarrow> asio_result \<Rightarrow> ClientState res" where
  "client_retry_handler b cl session errorCode =
     (if errorCode \<noteq> None then Inr cl
      else case session of
             None \<Rightarrow> Inl NullDeref
           | Some a \<Rightarrow>
               client_Connect b
                 (cl\<lparr>cl_sessions := (cl_sessions cl)(a := BoostSession_CloseSocket (cl_sessions cl a))\<rparr>) session)"

fun fail_all :: "build \<Rightarrow> ClientState \<Rightarrow> addr list \<Rightarrow> string \<Rightarrow> ClientState res" where
  "fail_all b cl [] e = Inr cl"
| "fail_all b cl (s # ss) e =
     bind_res (client_CompleteConnect b cl (Some s) (Some (other_error e))) (\<lambda>cl'. fail_all b cl' ss e)"

lemma fail_all_eq:
  "cl_isRun cl \<Longrightarrow> fail_all b cl (ss @ [s]) e =
     Inr (cl\<lparr>cl_ready := cl_ready cl @ map (\<lambda>s. (s, Some operation_aborted)) (cl_waits cl @ map Some ss),
             cl_waits := [Some s]\<rparr>)"
  by (induction ss arbitrary: cl) (simp_all add: client_CompleteConnect_def client_RetryConnect_def)

section \<open>Properties\<close>

text \<open>
  C38: (component \<^verbatim>\<open>BoostNetEngineClient\<close>, error) All sessions share one retry timer. When the
  connections of several sessions fail one after the other, each failure cancels the waits
  before it, so that only the last session waits; the handlers of the others run with
  \<open>operation_aborted\<close> and do nothing. Even the one that waits is not connected again: its
  handler closes the socket and \<^verbatim>\<open>Connect\<close> starts nothing.
\<close>
theorem client_retries_last_only:
  assumes "cl_isRun cl" "cl_waits cl = []"
  shows "\<exists>cl'. fail_all b cl (ss @ [s]) e = Inr cl' \<and> cl_waits cl' = [Some s] \<and>
    cl_ready cl' = cl_ready cl @ map (\<lambda>x. (Some x, Some operation_aborted)) ss \<and>
    client_retry_handler b cl' session (Some operation_aborted) = Inr cl' \<and>
    (\<exists>cl''. client_retry_handler b cl' (Some s) None = Inr cl'' \<and>
       \<not> bs_open (cl_sessions cl'' s) \<and> cl_waits cl'' = cl_waits cl' \<and> cl_ready cl'' = cl_ready cl')"
  using assms fail_all_eq[OF assms(1), of b ss s e]
  by (simp add: client_retry_handler_def client_Connect_def BoostSession_CloseSocket_def comp_def)

definition idle_session :: SessionWorld where
  "idle_session = \<lparr>bs_sessionID = 1, bs_netEngine = Some 0, bs_open = True, bs_noDelay = False,
      bs_linger = None, bs_sendQueue = [], bs_isSending = False, bs_sendingBuffers = [],
      sw_tasks = [], sw_writes = [], sw_wire = []\<rparr>"

lemma client_retries_last_only_witness:
  "\<exists>cl'. fail_all NoDebug \<lparr>cl_isRun = True, cl_endpoint = (''10.0.0.1'', 13000), cl_waits = [], cl_ready = [],
       cl_sessions = \<lambda>_. idle_session\<rparr> [1, 2, 3] ''refused'' = Inr cl' \<and> cl_waits cl' = [Some 3] \<and>
     cl_ready cl' = [(Some 1, Some operation_aborted), (Some 2, Some operation_aborted)]"
proof -
  let ?cl = "\<lparr>cl_isRun = True, cl_endpoint = (''10.0.0.1'', 13000), cl_waits = [], cl_ready = [],
       cl_sessions = \<lambda>_. idle_session\<rparr>"
  have "cl_isRun ?cl" "cl_waits ?cl = []" by simp_all
  from client_retries_last_only[OF this, of NoDebug "[1, 2]" 3 "''refused''" None] show ?thesis
    by (auto simp del: fail_all.simps)
qed

text \<open>The endpoint is a literal address with the port, or the first endpoint the name resolves to.\<close>

lemma client_endpoint_cases:
  "make_address host = Some a \<Longrightarrow> client_endpoint b make_address resolve host port = Inr (a, port)"
  "make_address host = None \<Longrightarrow> resolve host (to_string (unat port)) = Some (e # es) \<Longrightarrow>
     client_endpoint b make_address resolve host port = Inr e"
  "make_address host = None \<Longrightarrow> resolve host (to_string (unat port)) \<in> {None, Some []} \<Longrightarrow>
     client_endpoint b make_address resolve host port =
       Inl (if b = Debug then AssertFailed ''Invalid IP Address or Hostname. Host: %s'' else OutOfBounds)"
  by (cases b; auto simp: client_endpoint_def Let_def ASSERT_fail)+

end
