(* ===== verification/Engine_Lifetime.thy ===== *)
theory Engine_Lifetime
  imports Acceptor_Threads Net_Client
begin

text \<open>
  The order in which the engine's members come to life and go, and who keeps the engine alive.
  C++ constructs the base class, then the members in the order of their declaration, then runs
  the body of the constructor, and destroys in the reverse order. A constructor or destructor is
  the sequence of what it does to the members; using one outside its lifetime is \<open>Dangling\<close>.
\<close>

section \<open>Lifetimes\<close>

datatype part =
    IsRunFlag | StartDelegator | StopDelegator | Threads | SessionPool | UsingSessions | Dispatcher
  | IoContext | WorkGuard | Acceptor | Endpoint | RetryTimer

datatype life_event = Born part | Used part | Gone part

fun live :: "life_event list \<Rightarrow> part list \<Rightarrow> part list res" where
  "live [] ps = Inr ps"
| "live (Born p # es) ps = live es (p # ps)"
| "live (Used p # es) ps = (if p \<in> set ps then live es ps else Inl Dangling)"
| "live (Gone p # es) ps = (if p \<in> set ps then live es (remove1 p ps) else Inl Dangling)"

lemma live_append: "live (es @ fs) ps = bind_res (live es ps) (live fs)"
  by (induction es ps rule: live.induct) auto

text \<open>The members of a class, in the order of their declaration.\<close>

definition NetEngine_members :: "part list" where
  "NetEngine_members = [IsRunFlag, StartDelegator, StopDelegator, Threads, SessionPool, UsingSessions, Dispatcher]"

definition BoostNetEngine_members :: "part list" where
  "BoostNetEngine_members = [IoContext, WorkGuard]"

definition BoostNetEngineServer_members :: "part list" where
  "BoostNetEngineServer_members = [Acceptor]"

definition BoostNetEngineClient_members :: "part list" where
  "BoostNetEngineClient_members = [Endpoint, RetryTimer]"

section \<open>Construction\<close>

text \<open>
  \<open>created\<close> is the number of sessions the factory is asked for. It passes on the reference to
  \<^verbatim>\<open>m_ioContext\<close>, with which the session constructs its socket.
\<close>

definition BoostSession_ctor :: "life_event list" where
  "BoostSession_ctor = [Used IoContext]"

definition NetEngine_ctor :: "nat \<Rightarrow> life_event list" where
  "NetEngine_ctor created =
     map Born NetEngine_members @ Used SessionPool #
     concat (replicate created (BoostSession_ctor @ [Used SessionPool]))"

definition BoostNetEngine_ctor :: "nat \<Rightarrow> life_event list" where
  "BoostNetEngine_ctor created =
     NetEngine_ctor created @ [Born IoContext, Used IoContext, Born WorkGuard, Used StopDelegator]"

definition BoostNetEngineServer_ctor :: "nat \<Rightarrow> life_event list" where
  "BoostNetEngineServer_ctor created =
     BoostNetEngine_ctor created @ [Used IoContext, Born Acceptor, Used StartDelegator, Used StopDelegator]"

definition BoostNetEngineClient_ctor :: "nat \<Rightarrow> life_event list" where
  "BoostNetEngineClient_ctor created =
     BoostNetEngine_ctor created @ [Born Endpoint, Used IoContext, Born RetryTimer, Used Endpoint]"

section \<open>Destruction\<close>

text \<open>
  \<open>pooled\<close> sessions are in the pool, whose sockets leave the context when they are destroyed, and
  \<open>workers\<close> threads are inside \<^verbatim>\<open>io_context::run\<close> until they are joined.
\<close>

definition NetEngine_dtor :: "nat \<Rightarrow> nat \<Rightarrow> life_event list" where
  "NetEngine_dtor pooled workers =
     [Gone Dispatcher, Gone UsingSessions] @ replicate pooled (Used IoContext) @ [Gone SessionPool] @
     replicate workers (Used IoContext) @ [Gone Threads, Gone StopDelegator, Gone StartDelegator, Gone IsRunFlag]"

definition BoostNetEngine_dtor :: "nat \<Rightarrow> nat \<Rightarrow> life_event list" where
  "BoostNetEngine_dtor pooled workers =
     [Used IoContext, Gone WorkGuard, Gone IoContext] @ NetEngine_dtor pooled workers"

definition BoostNetEngineServer_dtor :: "nat \<Rightarrow> nat \<Rightarrow> life_event list" where
  "BoostNetEngineServer_dtor pooled workers =
     [Used IoContext, Gone Acceptor] @ BoostNetEngine_dtor pooled workers"

text \<open>The client calls \<^verbatim>\<open>Stop\<close> first, which joins the workers of a running engine.\<close>

definition BoostNetEngineClient_dtor :: "bool \<Rightarrow> nat \<Rightarrow> nat \<Rightarrow> life_event list" where
  "BoostNetEngineClient_dtor isRun pooled workers =
     (if isRun then [Used IsRunFlag, Used StopDelegator, Used IoContext, Used WorkGuard, Used Threads]
      else [Used IsRunFlag]) @
     [Used IoContext, Gone RetryTimer, Gone Endpoint] @
     BoostNetEngine_dtor pooled (if isRun then 0 else workers)"

definition server_parts :: "part list" where
  "server_parts = rev (NetEngine_members @ BoostNetEngine_members @ BoostNetEngineServer_members)"

definition client_parts :: "part list" where
  "client_parts = rev (NetEngine_members @ BoostNetEngine_members @ BoostNetEngineClient_members)"

lemmas life_defs = NetEngine_members_def BoostNetEngine_members_def BoostNetEngineServer_members_def
  BoostNetEngineClient_members_def BoostSession_ctor_def NetEngine_ctor_def BoostNetEngine_ctor_def
  BoostNetEngineServer_ctor_def BoostNetEngineClient_ctor_def NetEngine_dtor_def BoostNetEngine_dtor_def
  BoostNetEngineServer_dtor_def BoostNetEngineClient_dtor_def server_parts_def client_parts_def

lemma live_replicate_Used: "live (replicate n (Used p) @ es) ps = (if n = 0 \<or> p \<in> set ps then live es ps else Inl Dangling)"
  by (induction n) auto

section \<open>Ownership\<close>

text \<open>
  Every session holds a shared pointer to the engine. Outside of the handlers the sessions that
  exist are those in the pool, and those the pending accept and the ready handlers hold; a
  connected one is destroyed when the handler that found it connected ends.
\<close>

definition engine_owners :: "nat \<Rightarrow> AccSys \<Rightarrow> nat" where
  "engine_owners outside a =
     outside + length (ls0_stack (es_sessionPool (at_state a))) + length (ac_accepts (at_state a)) +
     length (ready_sessions (at_state a))"

lemma engine_owners_eq:
  assumes "reach (at_init ps) at_step a" "at_threads a = []"
  shows "engine_owners outside a + length (at_connected a) = outside + length ps"
proof -
  have "size (at_places a) = size (mset (map Some ps))"
    using at_sys.reach_inv[OF assms(1)] by (simp add: at_inv_def)
  with assms(2) show ?thesis
    by (simp add: at_places_def held_def engine_owners_def thread_sessions_def)
qed

section \<open>Properties\<close>

text \<open>
  No engine with sessions can be constructed
  in a defined way, even if \<^verbatim>\<open>shared_from_this\<close> in the initialiser of the base class returned. The base class creates the sessions while the derived class's \<^verbatim>\<open>m_ioContext\<close>,
  to which their sockets attach, does not exist yet; with no session there would be no such use,
  but the constructor asserts that there is one. In destruction the order of the members is just
  as wrong: a server may only be destroyed with an empty pool and no worker running, a client,
  which stops itself, with an empty pool.
\<close>
theorem engine_member_order:
  assumes "0 < created"
  shows "live (BoostNetEngineServer_ctor created) [] = Inl Dangling \<and>
    live (BoostNetEngineClient_ctor created) [] = Inl Dangling \<and>
    live (BoostNetEngineServer_ctor 0) [] = Inr server_parts \<and>
    live (BoostNetEngineClient_ctor 0) [] = Inr client_parts \<and>
    live (BoostNetEngineServer_dtor pooled workers) server_parts =
      (if pooled = 0 \<and> workers = 0 then Inr [] else Inl Dangling) \<and>
    live (BoostNetEngineClient_dtor isRun pooled workers) client_parts =
      (if pooled = 0 \<and> (isRun \<or> workers = 0) then Inr [] else Inl Dangling)"
proof -
  obtain n where "created = Suc n" using assms by (cases created) auto
  then show ?thesis
    by (simp add: life_defs live_replicate_Used)
qed

lemma engine_member_order_witness:
  "live (BoostNetEngineServer_ctor 5) [] = Inl Dangling \<and>
   live (BoostNetEngineServer_dtor 3 0) server_parts = Inl Dangling"
proof -
  have "(0 :: nat) < 5" by simp
  from engine_member_order[OF this, of 3 0 True] show ?thesis by simp
qed



end
