(* ===== verification/Engine_Threads.thy ===== *)
theory Engine_Threads
  imports Engine_Props
begin

text \<open>
  \<^verbatim>\<open>NetEngine::Start\<close> and \<^verbatim>\<open>NetEngine::Stop\<close> under threads. \<open>Net_Engine\<close> runs a call as one step; here
  any number of callers, also the workers themselves, are in calls that advance by one statement
  at a time: the start of one thread, the store or exchange of the flag, one event of a delegate,
  the join of one thread. Workers return, and network, timer and handlers change the state in
  between. A blocked \<^verbatim>\<open>join\<close> is a step that is not possible yet.
\<close>

section \<open>Calls statement by statement\<close>

datatype caller = Outsider nat | Worker nat

datatype start_pc = StCheck | StSpawn nat | StStore | StEvent nat

datatype stop_pc = SpExchange | SpEvent nat | SpJoin nat

datatype call_pc = InStart start_pc | InStop stop_pc

text \<open>The engine after the statement and where the call goes on, \<open>None\<close> if it returns.\<close>

fun start_block :: "build \<Rightarrow> bool \<Rightarrow> string \<Rightarrow> start_pc \<Rightarrow> NetEngine \<Rightarrow> (NetEngine \<times> start_pc option) res" where
  "start_block b can_spawn buf StCheck ne =
     ASSERT b (0 < length (ne_threads ne)) ''threadCount is zero'' (Inr (ne, Some (StSpawn 0)))"
| "start_block b can_spawn buf (StSpawn i) ne =
     (if i < length (ne_threads ne)
      then bind_res (Thread_Start b can_spawn buf (ne_threads ne ! i) (thread_name i) (Some ())) (\<lambda>t.
             Inr (ne\<lparr>ne_threads := (ne_threads ne)[i := t]\<rparr>, Some (StSpawn (Suc i))))
      else Inr (ne, Some StStore))"
| "start_block b can_spawn buf StStore ne =
     Inr (ne\<lparr>ne_state := (ne_state ne)\<lparr>es_isRun := True\<rparr>\<rparr>, Some (StEvent 0))"
| "start_block b can_spawn buf (StEvent k) ne =
     (if k < length (dg_callbacks (ne_startDelegator ne))
      then bind_res ((dg_callbacks (ne_startDelegator ne) ! k) () (ne_state ne)) (\<lambda>es.
             Inr (ne\<lparr>ne_state := es\<rparr>, Some (StEvent (Suc k))))
      else Inr (ne, None))"

text \<open>\<open>None\<close>: the thread to join still runs. A thread that joins itself gets an exception.\<close>

fun stop_block :: "caller \<Rightarrow> stop_pc \<Rightarrow> NetEngine \<Rightarrow> (NetEngine \<times> stop_pc option) res option" where
  "stop_block self SpExchange ne =
     Some (Inr (if es_isRun (ne_state ne) = False then (ne, None)
                else (ne\<lparr>ne_state := (ne_state ne)\<lparr>es_isRun := False\<rparr>\<rparr>, Some (SpEvent 0))))"
| "stop_block self (SpEvent k) ne =
     Some (if k < length (dg_callbacks (ne_stopDelegator ne))
           then bind_res ((dg_callbacks (ne_stopDelegator ne) ! k) () (ne_state ne)) (\<lambda>es.
                  Inr (ne\<lparr>ne_state := es\<rparr>, Some (SpEvent (Suc k))))
           else Inr (ne, Some (SpJoin 0)))"
| "stop_block self (SpJoin i) ne =
     (if i < length (ne_threads ne)
      then if self = Worker i \<and> joinable (th_thread (ne_threads ne ! i))
           then Some (Inl (Thrown ''resource_deadlock_would_occur''))
           else map_option (\<lambda>t. Inr (ne\<lparr>ne_threads := (ne_threads ne)[i := t]\<rparr>, Some (SpJoin (Suc i))))
                  (Thread_Join (ne_threads ne ! i))
      else Some (Inr (ne, None)))"

fun call_block :: "build \<Rightarrow> bool \<Rightarrow> string \<Rightarrow> caller \<Rightarrow> call_pc \<Rightarrow> NetEngine \<Rightarrow>
    (NetEngine \<times> call_pc option) res option" where
  "call_block b can_spawn buf self (InStart p) ne =
     Some (map_sum id (apsnd (map_option InStart)) (start_block b can_spawn buf p ne))"
| "call_block b can_spawn buf self (InStop q) ne =
     map_option (map_sum id (apsnd (map_option InStop))) (stop_block self q ne)"

section \<open>A call alone\<close>

fun run_start :: "nat \<Rightarrow> build \<Rightarrow> bool \<Rightarrow> string \<Rightarrow> start_pc \<Rightarrow> NetEngine \<Rightarrow> NetEngine res option" where
  "run_start 0 b can_spawn buf p ne = None"
| "run_start (Suc n) b can_spawn buf p ne =
     (case start_block b can_spawn buf p ne of
        Inl e \<Rightarrow> Some (Inl e)
      | Inr (ne', None) \<Rightarrow> Some (Inr ne')
      | Inr (ne', Some p') \<Rightarrow> run_start n b can_spawn buf p' ne')"

fun run_stop :: "nat \<Rightarrow> caller \<Rightarrow> stop_pc \<Rightarrow> NetEngine \<Rightarrow> NetEngine res option" where
  "run_stop 0 self q ne = None"
| "run_stop (Suc n) self q ne =
     (case stop_block self q ne of
        None \<Rightarrow> None
      | Some (Inl e) \<Rightarrow> Some (Inl e)
      | Some (Inr (ne', None)) \<Rightarrow> Some (Inr ne')
      | Some (Inr (ne', Some q')) \<Rightarrow> run_stop n self q' ne')"

section \<open>Interleavings\<close>

text \<open>\<open>en_ran\<close> records the stop events that were run, \<open>en_started\<close> whether \<^verbatim>\<open>Start\<close> was called.\<close>

record EngSys =
  en_engine :: NetEngine
  en_calls :: "caller \<Rightarrow> call_pc option"
  en_failed :: "error option"
  en_started :: bool
  en_ran :: "nat list"

datatype en_event =
    EnStart caller
  | EnStop caller
  | EnAdvance caller bool
  | EnReturns nat
  | EnWorld accept_event

fun running :: "'w std_thread \<Rightarrow> bool" where
  "running (Running n w) \<longleftrightarrow> True"
| "running _ \<longleftrightarrow> False"

definition running_worker :: "NetEngine \<Rightarrow> nat \<Rightarrow> bool" where
  "running_worker ne i \<longleftrightarrow> i < length (ne_threads ne) \<and> running (th_thread (ne_threads ne ! i))"

fun may_call :: "EngSys \<Rightarrow> caller \<Rightarrow> bool" where
  "may_call s (Outsider k) \<longleftrightarrow> en_calls s (Outsider k) = None"
| "may_call s (Worker i) \<longleftrightarrow> en_calls s (Worker i) = None \<and> running_worker (en_engine s) i"

fun event_run :: "call_pc \<Rightarrow> NetEngine \<Rightarrow> nat list" where
  "event_run (InStop (SpEvent k)) ne = (if k < length (dg_callbacks (ne_stopDelegator ne)) then [k] else [])"
| "event_run _ ne = []"

text \<open>A worker returns when its context lets it and it is in no call; handlers run on workers.\<close>

fun en_do :: "build \<Rightarrow> string \<Rightarrow> (nat \<Rightarrow> nat) \<Rightarrow> EngSys \<Rightarrow> en_event \<Rightarrow> EngSys option" where
  "en_do b buf grow s (EnStart c) =
     (if en_failed s = None \<and> may_call s c
      then Some (s\<lparr>en_calls := (en_calls s)(c \<mapsto> InStart StCheck), en_started := True\<rparr>) else None)"
| "en_do b buf grow s (EnStop c) =
     (if en_failed s = None \<and> may_call s c
      then Some (s\<lparr>en_calls := (en_calls s)(c \<mapsto> InStop SpExchange)\<rparr>) else None)"
| "en_do b buf grow s (EnAdvance c can_spawn) =
     (if en_failed s \<noteq> None then None
      else case en_calls s c of
             None \<Rightarrow> None
           | Some pc \<Rightarrow>
               (case call_block b can_spawn buf c pc (en_engine s) of
                  None \<Rightarrow> None
                | Some (Inl e) \<Rightarrow> Some (s\<lparr>en_failed := Some e\<rparr>)
                | Some (Inr (ne, nx)) \<Rightarrow>
                    Some (s\<lparr>en_engine := ne, en_calls := (en_calls s)(c := nx),
                            en_ran := en_ran s @ event_run pc (en_engine s)\<rparr>)))"
| "en_do b buf grow s (EnReturns i) =
     (let ne = en_engine s
      in if en_failed s = None \<and> running_worker ne i \<and> en_calls s (Worker i) = None \<and>
            RunThreadWorker_returns (ne_state ne)
         then Some (s\<lparr>en_engine := ne\<lparr>ne_threads := (ne_threads ne)[i := worker_returns (ne_threads ne ! i)]\<rparr>\<rparr>)
         else None)"
| "en_do b buf grow s (EnWorld ev) =
     (if en_failed s \<noteq> None \<or> ev = AcStop \<or>
         (case ev of AcRun h \<Rightarrow> \<not> list_ex (running \<circ> th_thread) (ne_threads (en_engine s)) | _ \<Rightarrow> False)
      then None
      else map_option (\<lambda>a. s\<lparr>en_engine := (en_engine s)\<lparr>ne_state := as_state a\<rparr>\<rparr>)
             (accept_do grow \<lparr>as_state = ne_state (en_engine s), as_phase = 0, as_connected = []\<rparr> ev))"

text \<open>A client that calls \<^verbatim>\<open>Start\<close> once, and \<^verbatim>\<open>Stop\<close> as often as it likes.\<close>

inductive en_step :: "build \<Rightarrow> string \<Rightarrow> (nat \<Rightarrow> nat) \<Rightarrow> EngSys \<Rightarrow> EngSys \<Rightarrow> bool" for b buf grow where
  en_stepI: "en_do b buf grow s ev = Some t \<Longrightarrow> (\<And>c. ev = EnStart c \<Longrightarrow> \<not> en_started s) \<Longrightarrow> en_step b buf grow s t"

inductive_cases en_stepE: "en_step b buf grow s t"

definition en_new :: "NetEngine \<Rightarrow> EngSys" where
  "en_new ne = \<lparr>en_engine = ne, en_calls = (\<lambda>_. None), en_failed = None, en_started = False, en_ran = []\<rparr>"

fun en_run :: "build \<Rightarrow> string \<Rightarrow> (nat \<Rightarrow> nat) \<Rightarrow> EngSys \<Rightarrow> en_event list \<Rightarrow> EngSys option" where
  "en_run b buf grow s [] = Some s"
| "en_run b buf grow s (ev # evs) =
     (case en_do b buf grow s ev of None \<Rightarrow> None | Some t \<Rightarrow> en_run b buf grow t evs)"

section \<open>Alone, a call is the function\<close>

lemma run_events:
  "k \<le> length (dg_callbacks (ne_startDelegator ne)) \<Longrightarrow>
   run_start (Suc (length (dg_callbacks (ne_startDelegator ne)) - k)) b can_spawn buf (StEvent k) ne =
     Some (bind_res (invoke_all (drop k (dg_callbacks (ne_startDelegator ne))) () (ne_state ne)) (\<lambda>es.
       Inr (ne\<lparr>ne_state := es\<rparr>)))"
proof (induction "length (dg_callbacks (ne_startDelegator ne)) - k" arbitrary: k ne)
  case (Suc n)
  let ?fs = "dg_callbacks (ne_startDelegator ne)"
  from Suc.hyps(2) have k: "k < length ?fs" and n: "n = length ?fs - Suc k" by auto
  show ?case
  proof (cases "(?fs ! k) () (ne_state ne)")
    case (Inl e)
    with k show ?thesis by (simp flip: Cons_nth_drop_Suc)
  next
    case (Inr es)
    have "run_start (Suc (length ?fs - Suc k)) b can_spawn buf (StEvent (Suc k)) (ne\<lparr>ne_state := es\<rparr>) =
        Some (bind_res (invoke_all (drop (Suc k) ?fs) () es) (\<lambda>es. Inr (ne\<lparr>ne_state := es\<rparr>)))"
      using Suc.hyps(1)[of "ne\<lparr>ne_state := es\<rparr>" "Suc k"] k n by simp
    moreover have "length ?fs - k = Suc (length ?fs - Suc k)" using k by simp
    ultimately show ?thesis using k Inr by (simp flip: Cons_nth_drop_Suc)
  qed
qed simp

lemma run_spawns:
  "i \<le> length (ne_threads ne) \<Longrightarrow>
   run_start (Suc (length (ne_threads ne) - i) + m) b can_spawn buf (StSpawn i) ne =
     (case start_threads b can_spawn buf i (drop i (ne_threads ne)) of
        Inl e \<Rightarrow> Some (Inl e)
      | Inr ts \<Rightarrow> run_start m b can_spawn buf StStore (ne\<lparr>ne_threads := take i (ne_threads ne) @ ts\<rparr>))"
proof (induction "length (ne_threads ne) - i" arbitrary: i ne)
  case (Suc n)
  let ?ts = "ne_threads ne"
  from Suc.hyps(2) have i: "i < length ?ts" and n: "n = length ?ts - Suc i" by auto
  show ?case
  proof (cases "Thread_Start b can_spawn buf (?ts ! i) (thread_name i) (Some ())")
    case (Inl e)
    with i show ?thesis by (simp flip: Cons_nth_drop_Suc)
  next
    case (Inr t)
    have "run_start (Suc (length ?ts - Suc i) + m) b can_spawn buf (StSpawn (Suc i)) (ne\<lparr>ne_threads := ?ts[i := t]\<rparr>) =
        (case start_threads b can_spawn buf (Suc i) (drop (Suc i) ?ts) of
           Inl e \<Rightarrow> Some (Inl e)
         | Inr ts \<Rightarrow> run_start m b can_spawn buf StStore (ne\<lparr>ne_threads := take i ?ts @ t # ts\<rparr>))"
      using Suc.hyps(1)[of "ne\<lparr>ne_threads := ?ts[i := t]\<rparr>" "Suc i"] i n
      by (simp add: take_Suc_conv_app_nth cong: sum.case_cong)
    moreover have "length ?ts - i = Suc (length ?ts - Suc i)" using i by simp
    ultimately show ?thesis using i Inr
      by (cases "start_threads b can_spawn buf (Suc i) (drop (Suc i) ?ts)") (simp_all flip: Cons_nth_drop_Suc)
  qed
qed simp

lemma run_start_alone:
  "run_start (length (ne_threads ne) + length (dg_callbacks (ne_startDelegator ne)) + 4) b can_spawn buf StCheck ne =
     Some (NetEngine_Start b can_spawn buf ne)"
proof -
  let ?n = "length (ne_threads ne)" and ?k = "length (dg_callbacks (ne_startDelegator ne))"
  have store: "run_start (Suc (Suc ?k)) b can_spawn buf StStore (ne\<lparr>ne_threads := ts\<rparr>) =
      Some (bind_res (Delegate_Invoke (ne_startDelegator ne) () ((ne_state ne)\<lparr>es_isRun := True\<rparr>)) (\<lambda>es.
        Inr (ne\<lparr>ne_threads := ts, ne_state := es\<rparr>)))" for ts
    using run_events[of 0 "ne\<lparr>ne_threads := ts, ne_state := (ne_state ne)\<lparr>es_isRun := True\<rparr>\<rparr>" b can_spawn buf]
    by (simp add: Delegate_Invoke_def)
  have "run_start (Suc ?n + Suc (Suc ?k)) b can_spawn buf (StSpawn 0) ne =
      (case start_threads b can_spawn buf 0 (ne_threads ne) of
         Inl e \<Rightarrow> Some (Inl e)
       | Inr ts \<Rightarrow> run_start (Suc (Suc ?k)) b can_spawn buf StStore (ne\<lparr>ne_threads := ts\<rparr>))"
    using run_spawns[of 0 ne "Suc (Suc ?k)" b can_spawn buf]
    by (simp del: run_start.simps cong: sum.case_cong)
  then have "run_start (Suc ?n + Suc (Suc ?k)) b can_spawn buf (StSpawn 0) ne =
      Some (bind_res (start_threads b can_spawn buf 0 (ne_threads ne)) (\<lambda>threads.
        bind_res (Delegate_Invoke (ne_startDelegator ne) () ((ne_state ne)\<lparr>es_isRun := True\<rparr>)) (\<lambda>es.
        Inr (ne\<lparr>ne_threads := threads, ne_state := es\<rparr>))))"
    unfolding store by (cases "start_threads b can_spawn buf 0 (ne_threads ne)") simp_all
  moreover have "run_start (Suc m) b can_spawn buf StCheck ne =
      (case ASSERT b (0 < ?n) ''threadCount is zero'' (Inr ()) of
         Inl e \<Rightarrow> Some (Inl e)
       | Inr _ \<Rightarrow> run_start m b can_spawn buf (StSpawn 0) ne)" for m
    by (cases b) (simp_all add: ASSERT_def Assert_def)
  moreover have "?n + ?k + 4 = Suc (Suc ?n + Suc (Suc ?k))" by simp
  ultimately have "run_start (?n + ?k + 4) b can_spawn buf StCheck ne =
      (case ASSERT b (0 < ?n) ''threadCount is zero'' (Inr ()) of
         Inl e \<Rightarrow> Some (Inl e)
       | Inr _ \<Rightarrow> Some (bind_res (start_threads b can_spawn buf 0 (ne_threads ne)) (\<lambda>threads.
           bind_res (Delegate_Invoke (ne_startDelegator ne) () ((ne_state ne)\<lparr>es_isRun := True\<rparr>)) (\<lambda>es.
           Inr (ne\<lparr>ne_threads := threads, ne_state := es\<rparr>)))))"
    by (simp only:)
  then show ?thesis
    by (cases b) (simp_all add: NetEngine_Start_def ASSERT_def Assert_def del: run_start.simps)
qed

lemma run_stop_events:
  "k \<le> length (dg_callbacks (ne_stopDelegator ne)) \<Longrightarrow>
   run_stop (Suc (length (dg_callbacks (ne_stopDelegator ne)) - k) + m) self (SpEvent k) ne =
     (case invoke_all (drop k (dg_callbacks (ne_stopDelegator ne))) () (ne_state ne) of
        Inl e \<Rightarrow> Some (Inl e)
      | Inr es \<Rightarrow> run_stop m self (SpJoin 0) (ne\<lparr>ne_state := es\<rparr>))"
proof (induction "length (dg_callbacks (ne_stopDelegator ne)) - k" arbitrary: k ne)
  case (Suc n)
  let ?fs = "dg_callbacks (ne_stopDelegator ne)"
  from Suc.hyps(2) have k: "k < length ?fs" and n: "n = length ?fs - Suc k" by auto
  show ?case
  proof (cases "(?fs ! k) () (ne_state ne)")
    case (Inl e)
    with k show ?thesis by (simp flip: Cons_nth_drop_Suc)
  next
    case (Inr es)
    have "run_stop (Suc (length ?fs - Suc k) + m) self (SpEvent (Suc k)) (ne\<lparr>ne_state := es\<rparr>) =
        (case invoke_all (drop (Suc k) ?fs) () es of
           Inl e \<Rightarrow> Some (Inl e)
         | Inr es \<Rightarrow> run_stop m self (SpJoin 0) (ne\<lparr>ne_state := es\<rparr>))"
      using Suc.hyps(1)[of "ne\<lparr>ne_state := es\<rparr>" "Suc k"] k n by (simp cong: sum.case_cong)
    moreover have "length ?fs - k = Suc (length ?fs - Suc k)" using k by simp
    ultimately show ?thesis using k Inr by (simp flip: Cons_nth_drop_Suc)
  qed
qed simp

lemma run_joins:
  "i \<le> length (ne_threads ne) \<Longrightarrow>
   run_stop (Suc (length (ne_threads ne) - i)) (Outsider c) (SpJoin i) ne =
     map_option (\<lambda>ts. Inr (ne\<lparr>ne_threads := take i (ne_threads ne) @ ts\<rparr>))
       (join_threads False (drop i (ne_threads ne)))"
proof (induction "length (ne_threads ne) - i" arbitrary: i ne)
  case (Suc n)
  let ?ts = "ne_threads ne"
  from Suc.hyps(2) have i: "i < length ?ts" and n: "n = length ?ts - Suc i" by auto
  show ?case
  proof (cases "Thread_Join (?ts ! i)")
    case None
    with i show ?thesis by (simp flip: Cons_nth_drop_Suc)
  next
    case (Some t)
    have "run_stop (Suc (length ?ts - Suc i)) (Outsider c) (SpJoin (Suc i)) (ne\<lparr>ne_threads := ?ts[i := t]\<rparr>) =
        map_option (\<lambda>ts. Inr (ne\<lparr>ne_threads := take i ?ts @ t # ts\<rparr>)) (join_threads False (drop (Suc i) ?ts))"
      using Suc.hyps(1)[of "ne\<lparr>ne_threads := ?ts[i := t]\<rparr>" "Suc i"] i n
      by (simp add: take_Suc_conv_app_nth)
    moreover have "length ?ts - i = Suc (length ?ts - Suc i)" using i by simp
    ultimately show ?thesis using i Some
      by (cases "join_threads False (drop (Suc i) ?ts)") (simp_all flip: Cons_nth_drop_Suc)
  qed
qed simp

lemma join_threads_returned_alone:
  "join_threads True ts = join_threads False (map worker_returns ts)"
  by (induction ts) (simp_all split: option.split)

text \<open>While the caller waits in a join, the workers return.\<close>

lemma run_stop_alone:
  assumes "es_isRun (ne_state ne)"
    and "\<And>es. Delegate_Invoke (ne_stopDelegator ne) () ((ne_state ne)\<lparr>es_isRun := False\<rparr>) = Inr es \<Longrightarrow>
           RunThreadWorker_returns es"
  shows "run_stop (length (ne_threads ne) + length (dg_callbacks (ne_stopDelegator ne)) + 3) (Outsider c) SpExchange
      (ne\<lparr>ne_threads := map worker_returns (ne_threads ne)\<rparr>) = NetEngine_Stop ne"
proof -
  let ?n = "length (ne_threads ne)" and ?k = "length (dg_callbacks (ne_stopDelegator ne))"
  let ?ne = "ne\<lparr>ne_threads := map worker_returns (ne_threads ne), ne_state := (ne_state ne)\<lparr>es_isRun := False\<rparr>\<rparr>"
  have "run_stop (Suc ?k + Suc ?n) (Outsider c) (SpEvent 0) ?ne = NetEngine_Stop ne"
  proof (cases "Delegate_Invoke (ne_stopDelegator ne) () ((ne_state ne)\<lparr>es_isRun := False\<rparr>)")
    case (Inl e)
    with assms(1) run_stop_events[of 0 ?ne "Suc ?n" "Outsider c"] show ?thesis
      by (simp add: NetEngine_Stop_def Delegate_Invoke_def)
  next
    case (Inr es)
    with assms run_stop_events[of 0 ?ne "Suc ?n" "Outsider c"] run_joins[of 0 "?ne\<lparr>ne_state := es\<rparr>" c] show ?thesis
      by (simp add: NetEngine_Stop_def Delegate_Invoke_def join_threads_returned_alone)
  qed
  moreover have "run_stop (Suc m) (Outsider c) SpExchange (ne\<lparr>ne_threads := map worker_returns (ne_threads ne)\<rparr>) =
      run_stop m (Outsider c) (SpEvent 0) ?ne" for m
    using assms(1) by simp
  moreover have "?n + ?k + 3 = Suc (Suc ?k + Suc ?n)" by simp
  ultimately show ?thesis by (simp only:)
qed

section \<open>Stages\<close>

text \<open>Where the one call of \<^verbatim>\<open>Start\<close> is, and where the call of \<^verbatim>\<open>Stop\<close> that cleared the flag is.\<close>

datatype start_stage = NotStarted | StartAt caller start_pc | StartDone

datatype stop_stage = NotStopped | StopAt caller stop_pc | StopDone

fun start_of :: "call_pc option \<Rightarrow> start_pc option" where
  "start_of (Some (InStart p)) = Some p"
| "start_of _ = None"

fun stop_of :: "call_pc option \<Rightarrow> stop_pc option" where
  "stop_of (Some (InStop q)) = (if q = SpExchange then None else Some q)"
| "stop_of _ = None"

fun starter :: "start_stage \<Rightarrow> caller \<Rightarrow> start_pc option" where
  "starter (StartAt d p) c = (if c = d then Some p else None)"
| "starter _ c = None"

fun stopper :: "stop_stage \<Rightarrow> caller \<Rightarrow> stop_pc option" where
  "stopper (StopAt d q) c = (if c = d then Some q else None)"
| "stopper _ c = None"

definition calls_ok :: "(caller \<Rightarrow> call_pc option) \<Rightarrow> start_stage \<Rightarrow> stop_stage \<Rightarrow> bool" where
  "calls_ok calls sa so \<longleftrightarrow> finite (dom calls) \<and>
     (\<forall>c. start_of (calls c) = starter sa c) \<and> (\<forall>c. stop_of (calls c) = stopper so c)"

fun stored :: "start_stage \<Rightarrow> bool" where
  "stored NotStarted \<longleftrightarrow> False"
| "stored (StartAt c (StEvent k)) \<longleftrightarrow> True"
| "stored (StartAt c p) \<longleftrightarrow> False"
| "stored StartDone \<longleftrightarrow> True"

fun before_event :: "start_stage \<Rightarrow> bool" where
  "before_event (StartAt c (StEvent k)) \<longleftrightarrow> k = 0"
| "before_event StartDone \<longleftrightarrow> False"
| "before_event _ \<longleftrightarrow> True"

text \<open>Whether the thread with number \<open>i\<close> is joinable.\<close>

fun spawned :: "start_stage \<Rightarrow> nat \<Rightarrow> bool" where
  "spawned NotStarted i \<longleftrightarrow> False"
| "spawned (StartAt c StCheck) i \<longleftrightarrow> False"
| "spawned (StartAt c (StSpawn j)) i \<longleftrightarrow> i < j"
| "spawned _ i \<longleftrightarrow> True"

fun up :: "start_stage \<Rightarrow> stop_stage \<Rightarrow> nat \<Rightarrow> bool" where
  "up sa (StopAt c (SpJoin j)) i \<longleftrightarrow> j \<le> i"
| "up sa StopDone i \<longleftrightarrow> False"
| "up sa _ i \<longleftrightarrow> spawned sa i"

fun ran_ok :: "stop_stage \<Rightarrow> nat list \<Rightarrow> bool" where
  "ran_ok NotStopped rs \<longleftrightarrow> rs = []"
| "ran_ok (StopAt c (SpEvent k)) rs \<longleftrightarrow> rs = [0..<k] \<and> k \<le> 2"
| "ran_ok _ rs \<longleftrightarrow> rs = [0, 1]"

definition stage_ok :: "bool \<Rightarrow> nat \<Rightarrow> NetEngine \<Rightarrow> nat list \<Rightarrow> bool \<Rightarrow> start_stage \<Rightarrow> stop_stage \<Rightarrow> bool" where
  "stage_ok bind_ok n ne rs began sa so \<longleftrightarrow>
     (began \<longleftrightarrow> sa \<noteq> NotStarted) \<and> (so \<noteq> NotStopped \<longrightarrow> stored sa) \<and>
     (es_isRun (ne_state ne) \<longleftrightarrow> stored sa \<and> so = NotStopped) \<and>
     0 < n \<and> length (ne_threads ne) = n \<and> (\<forall>i<n. joinable (th_thread (ne_threads ne ! i)) \<longleftrightarrow> up sa so i) \<and>
     ran_ok so rs \<and> (io_stopped (ne_state ne) \<longleftrightarrow> rs \<noteq> []) \<and>
     (before_event sa \<longrightarrow> \<not> ac_open (ne_state ne)) \<and>
     ne_startDelegator ne = \<lparr>dg_callbacks = [StartEngineEvent bind_ok]\<rparr> \<and>
     ne_stopDelegator ne = \<lparr>dg_callbacks = [BoostNetEngine_StopEngineEvent, StopEngineEvent]\<rparr>"

definition en_inv :: "bool \<Rightarrow> nat \<Rightarrow> EngSys \<Rightarrow> bool" where
  "en_inv bind_ok n s \<longleftrightarrow>
     (\<exists>sa so. calls_ok (en_calls s) sa so \<and> stage_ok bind_ok n (en_engine s) (en_ran s) (en_started s) sa so) \<and>
     (\<forall>e. en_failed s = Some e \<longrightarrow> (\<exists>m. e = Thrown m))"

definition en_init :: "bool \<Rightarrow> nat \<Rightarrow> EngSys \<Rightarrow> bool" where
  "en_init bind_ok n s \<longleftrightarrow> (\<exists>ne. s = en_new ne \<and> stage_ok bind_ok n ne [] False NotStarted NotStopped)"

lemma en_invI:
  "calls_ok (en_calls s) sa so \<Longrightarrow> stage_ok bind_ok n (en_engine s) (en_ran s) (en_started s) sa so \<Longrightarrow>
   en_failed s = None \<Longrightarrow> en_inv bind_ok n s"
  unfolding en_inv_def by auto

lemma en_init_inv: "en_init bind_ok n s \<Longrightarrow> en_inv bind_ok n s"
  unfolding en_init_def en_inv_def
  by (elim exE conjE, intro conjI exI[of _ NotStarted] exI[of _ NotStopped]) (auto simp: en_new_def calls_ok_def)

lemma calls_ok_at:
  "calls_ok calls sa so \<Longrightarrow> calls c = pc \<Longrightarrow> start_of pc = starter sa c \<and> stop_of pc = stopper so c"
  by (auto simp: calls_ok_def)

lemma starter_Some: "starter sa c = Some p \<longleftrightarrow> sa = StartAt c p"
  by (cases sa) auto

lemma stopper_Some: "stopper so c = Some q \<longleftrightarrow> so = StopAt c q"
  by (cases so) auto

lemma calls_ok_start:
  "calls_ok calls NotStarted so \<Longrightarrow> calls c = None \<Longrightarrow> calls_ok (calls(c \<mapsto> InStart p)) (StartAt c p) so"
  using calls_ok_at[of calls NotStarted so c None] by (auto simp: calls_ok_def)

lemma calls_ok_stop:
  "calls_ok calls sa so \<Longrightarrow> calls c = None \<Longrightarrow> calls_ok (calls(c \<mapsto> InStop SpExchange)) sa so"
  using calls_ok_at[of calls sa so c None] by (auto simp: calls_ok_def)

text \<open>The stage after a statement of \<^verbatim>\<open>Start\<close>, and of \<^verbatim>\<open>Stop\<close> past the exchange.\<close>

definition start_at :: "caller \<Rightarrow> start_pc option \<Rightarrow> start_stage" where
  "start_at c nx = (case nx of None \<Rightarrow> StartDone | Some p \<Rightarrow> StartAt c p)"

definition stop_at :: "caller \<Rightarrow> stop_pc option \<Rightarrow> stop_stage" where
  "stop_at c nx = (case nx of None \<Rightarrow> StopDone | Some q \<Rightarrow> StopAt c q)"

lemma stage_at_simps [simp]:
  "start_at c None = StartDone" "start_at c (Some p) = StartAt c p"
  "stop_at c None = StopDone" "stop_at c (Some q) = StopAt c q"
  by (simp_all add: start_at_def stop_at_def)

lemma calls_ok_start_at:
  assumes "calls_ok calls sa so" "calls c = Some (InStart p)"
  shows "sa = StartAt c p" "calls_ok (calls(c := map_option InStart nx)) (start_at c nx) so"
proof -
  note at = calls_ok_at[OF assms]
  then show sa: "sa = StartAt c p" by (metis start_of.simps(1) starter_Some)
  with assms(1) at show "calls_ok (calls(c := map_option InStart nx)) (start_at c nx) so"
    by (cases nx) (auto simp: calls_ok_def)
qed

lemma calls_ok_stop_at:
  assumes "calls_ok calls sa so" "calls c = Some (InStop q)" "q \<noteq> SpExchange" "nx \<noteq> Some SpExchange"
  shows "so = StopAt c q" "calls_ok (calls(c := map_option InStop nx)) sa (stop_at c nx)"
proof -
  note at = calls_ok_at[OF assms(1,2)]
  with assms(3) show so: "so = StopAt c q" by (metis stop_of.simps(1) stopper_Some)
  with assms at show "calls_ok (calls(c := map_option InStop nx)) sa (stop_at c nx)"
    by (cases nx) (auto simp: calls_ok_def)
qed

lemma calls_ok_exchange:
  assumes "calls_ok calls sa so" "calls c = Some (InStop SpExchange)"
  shows "calls_ok (calls(c := None)) sa so"
    and "so = NotStopped \<Longrightarrow> calls_ok (calls(c \<mapsto> InStop (SpEvent 0))) sa (StopAt c (SpEvent 0))"
  using assms calls_ok_at[OF assms] by (auto simp: calls_ok_def)

section \<open>Every step keeps the stage\<close>

lemma Thread_Start_joinable:
  assumes "Thread_Start b can_spawn buf t name (Some w) = Inr t'" shows "joinable (th_thread t')"
  using assms by (cases b) (auto simp: Thread_Start_def joinable_def ASSERT_def Assert_def split: if_splits)

lemma Thread_Start_fails:
  assumes "Thread_Start b can_spawn buf t name (Some w) = Inl e" "name \<noteq> []" "\<not> joinable (th_thread t)"
  shows "\<not> can_spawn \<and> (\<exists>m. e = Thrown m)"
  using assms by (cases b) (auto simp: Thread_Start_def joinable_def ASSERT_def Assert_def split: if_splits)

lemma Thread_Join_joinable: "Thread_Join t = Some t' \<Longrightarrow> \<not> joinable (th_thread t')"
  by (auto simp: Thread_Join_def joinable_def split: std_thread.splits)

lemma StartListening_flags:
  "StartListening bind_ok es = Inr es' \<Longrightarrow> es_isRun es' = es_isRun es \<and> io_stopped es' = io_stopped es"
  using AcceptSession_flags[of "es\<lparr>ac_open := True\<rparr>"] by (auto simp: StartListening_def split: if_splits)

lemma StartListening_fails:
  "StartListening bind_ok es = Inl e \<Longrightarrow> (\<exists>m. e = Thrown m) \<and> (\<not> ac_open es \<longrightarrow> \<not> bind_ok)"
  by (auto simp: StartListening_def split: if_splits)

lemma up_running: "stored sa \<Longrightarrow> spawned sa i"
  by (cases sa) (auto elim: stored.elims)

text \<open>From the store on, what the starting call does is seen in the acceptor only.\<close>

lemma up_stored: "stored sa \<Longrightarrow> stored sb \<Longrightarrow> up sa so i = up sb so i"
  by (cases "(sa, so, i)" rule: up.cases) (auto simp: up_running)

lemma stage_after_store:
  assumes "stage_ok bind_ok n ne rs began sa so" "stored sa" "stored sb" "\<not> before_event sb"
    and "es_isRun es = es_isRun (ne_state ne)" "io_stopped es = io_stopped (ne_state ne)"
  shows "stage_ok bind_ok n (ne\<lparr>ne_state := es\<rparr>) rs began sb so"
proof -
  have "sa \<noteq> NotStarted" "sb \<noteq> NotStarted" using assms(2,3) by auto
  with assms up_stored[OF assms(2,3), of so] show ?thesis by (simp add: stage_ok_def)
qed

lemma stage_start_step:
  assumes st: "stage_ok bind_ok n ne rs began (StartAt c p) so"
    and step: "start_block b can_spawn buf p ne = Inr (ne', nx)"
  shows "stage_ok bind_ok n ne' rs began (start_at c nx) so"
proof (cases p)
  case StCheck
  with step have "ne' = ne" "nx = Some (StSpawn 0)"
    by (cases b; auto simp: ASSERT_def Assert_def split: if_splits)+
  with st StCheck show ?thesis by (cases so) (auto simp: stage_ok_def)
next
  case (StSpawn i)
  with st have so: "so = NotStopped" and len: "length (ne_threads ne) = n" by (auto simp: stage_ok_def)
  show ?thesis
  proof (cases "i < n")
    case True
    with step StSpawn len obtain t where t: "Thread_Start b can_spawn buf (ne_threads ne ! i) (thread_name i) (Some ()) = Inr t"
      and ne': "ne' = ne\<lparr>ne_threads := (ne_threads ne)[i := t]\<rparr>" "nx = Some (StSpawn (Suc i))"
      by (auto simp: bind_res_def split: sum.splits)
    from Thread_Start_joinable[OF t] True st StSpawn so len show ?thesis
      by (auto simp: stage_ok_def ne' nth_list_update less_Suc_eq)
  next
    case False
    with step StSpawn len have "ne' = ne" "nx = Some StStore" by auto
    with st StSpawn so False show ?thesis by (auto simp: stage_ok_def)
  qed
next
  case StStore
  with st have "so = NotStopped" by (auto simp: stage_ok_def)
  with st step StStore show ?thesis by (auto simp: stage_ok_def)
next
  case (StEvent k)
  show ?thesis
  proof (cases "k = 0")
    case True
    with step StEvent st have "StartListening bind_ok (ne_state ne) = Inr (ne_state ne')" "nx = Some (StEvent 1)"
      "ne' = ne\<lparr>ne_state := ne_state ne'\<rparr>"
      by (auto simp: stage_ok_def bind_res_def StartEngineEvent_def split: sum.splits)
    then show ?thesis
      using stage_after_store[OF st _ _ _ , of "StartAt c (StEvent 1)" "ne_state ne'"] StEvent
        StartListening_flags[of bind_ok "ne_state ne" "ne_state ne'"] by simp
  next
    case False
    with step StEvent st have "ne' = ne" "nx = None" by (auto simp: stage_ok_def)
    then show ?thesis
      using stage_after_store[OF st, of StartDone "ne_state ne"] StEvent by simp
  qed
qed

lemma stage_stop_step:
  assumes st: "stage_ok bind_ok n ne rs began sa (StopAt c q)" and q: "q \<noteq> SpExchange"
    and step: "stop_block c q ne = Some (Inr (ne', nx))"
  shows "stage_ok bind_ok n ne' (rs @ event_run (InStop q) ne) began sa (stop_at c nx)" "nx \<noteq> Some SpExchange"
proof -
  have sa: "stored sa" and len: "length (ne_threads ne) = n"
    and fs: "dg_callbacks (ne_stopDelegator ne) = [BoostNetEngine_StopEngineEvent, StopEngineEvent]"
    using st by (auto simp: stage_ok_def)
  have "stage_ok bind_ok n ne' (rs @ event_run (InStop q) ne) began sa (stop_at c nx) \<and> nx \<noteq> Some SpExchange"
  proof (cases q)
    case (SpEvent k)
    with st have rs: "rs = [0..<k]" "k \<le> 2" by (auto simp: stage_ok_def)
    consider "k = 0" | "k = 1" | "k = 2" using rs(2) by linarith
    then show ?thesis
    proof cases
      case 1
      with step SpEvent fs have "ne' = ne\<lparr>ne_state := (ne_state ne)\<lparr>io_stopped := True, io_guard := False\<rparr>\<rparr>"
        "nx = Some (SpEvent 1)" by (auto simp: BoostNetEngine_StopEngineEvent_def)
      with st SpEvent rs 1 fs up_running[OF sa] show ?thesis by (simp add: stage_ok_def)
    next
      case 2
      with step SpEvent fs have "ne' = ne\<lparr>ne_state := StopListening (ne_state ne)\<rparr>" "nx = Some (SpEvent 2)"
        by (auto simp: StopEngineEvent_def numeral_2_eq_2)
      moreover have "[0..<2] = [0, 1 :: nat]" by (simp add: numeral_2_eq_2)
      ultimately show ?thesis using st SpEvent rs 2 fs StopListening_facts[of "ne_state ne"] up_running[OF sa]
        by (simp add: stage_ok_def)
    next
      case 3
      with step SpEvent fs have "ne' = ne" "nx = Some (SpJoin 0)" by auto
      moreover have "[0..<2] = [0, 1 :: nat]" by (simp add: numeral_2_eq_2)
      ultimately show ?thesis using st SpEvent rs 3 fs up_running[OF sa] by (simp add: stage_ok_def)
    qed
  next
    case (SpJoin i)
    show ?thesis
    proof (cases "i < n")
      case True
      with step SpJoin len obtain t where t: "Thread_Join (ne_threads ne ! i) = Some t"
        and ne': "ne' = ne\<lparr>ne_threads := (ne_threads ne)[i := t]\<rparr>" "nx = Some (SpJoin (Suc i))"
        by (auto split: if_splits)
      from Thread_Join_joinable[OF t] True st SpJoin len show ?thesis
        by (auto simp: stage_ok_def ne' nth_list_update)
    next
      case False
      with step SpJoin len have "ne' = ne" "nx = None" by auto
      with st SpJoin False show ?thesis by (auto simp: stage_ok_def)
    qed
  qed (use q in simp)
  then show "stage_ok bind_ok n ne' (rs @ event_run (InStop q) ne) began sa (stop_at c nx)" "nx \<noteq> Some SpExchange"
    by simp_all
qed

lemma stage_exchange:
  assumes "stage_ok bind_ok n ne rs began sa so" "es_isRun (ne_state ne)"
  shows "so = NotStopped"
    "stage_ok bind_ok n (ne\<lparr>ne_state := (ne_state ne)\<lparr>es_isRun := False\<rparr>\<rparr>) rs began sa (StopAt c (SpEvent 0))"
  using assms by (auto simp: stage_ok_def)

lemma thread_name_ne: "thread_name i \<noteq> []"
  by (simp add: thread_name_def)

lemma stage_start_fails:
  assumes st: "stage_ok bind_ok n ne rs began (StartAt c p) so"
    and step: "start_block b can_spawn buf p ne = Inl e"
  shows "(\<exists>m. e = Thrown m) \<and> \<not> (can_spawn \<and> bind_ok)"
proof (cases p)
  case StCheck
  with step st show ?thesis by (cases b) (auto simp: ASSERT_def Assert_def stage_ok_def)
next
  case (StSpawn i)
  with st have so: "so = NotStopped" by (auto simp: stage_ok_def)
  from step StSpawn have i: "i < length (ne_threads ne)"
    and e: "Thread_Start b can_spawn buf (ne_threads ne ! i) (thread_name i) (Some ()) = Inl e"
    by (auto simp: bind_res_def split: if_splits sum.splits)
  have "\<not> joinable (th_thread (ne_threads ne ! i))"
    using st StSpawn so i by (auto simp: stage_ok_def)
  with Thread_Start_fails[OF e thread_name_ne] show ?thesis by blast
next
  case (StEvent k)
  from step StEvent st have "k = 0" "StartListening bind_ok (ne_state ne) = Inl e"
    by (auto simp: bind_res_def stage_ok_def StartEngineEvent_def split: if_splits sum.splits)
  with StartListening_fails[of bind_ok "ne_state ne" e] st StEvent show ?thesis
    by (auto simp: stage_ok_def)
qed (use step in auto)

lemma stage_stop_fails:
  assumes "stage_ok bind_ok n ne rs began sa (StopAt c q)" "stop_block c q ne = Some (Inl e)"
  shows "(\<exists>m. e = Thrown m) \<and> (\<exists>i. c = Worker i)"
proof (cases q)
  case (SpEvent k)
  moreover have "k = 0 \<or> k = 1 \<or> \<not> k < 2" by linarith
  ultimately show ?thesis using assms
    by (auto simp: stage_ok_def BoostNetEngine_StopEngineEvent_def StopEngineEvent_def)
qed (use assms in \<open>auto split: if_splits\<close>)

lemma run_handler_flags: "same_flags es (run_handler grow h es)"
  by (auto simp: run_handler_def CompleteAcception_def retry_handler_def Let_def AcceptSession_flags
      ReleaseSession_facts(2) split: handler.split option.split)

lemma accept_do_flags:
  assumes "accept_do grow a ev = Some a'" "ev \<noteq> AcStop"
  shows "same_flags (as_state a) (as_state a')"
  using assms by (cases ev) (auto simp: run_handler_flags split: list.splits if_splits)

lemma stage_same_flags:
  "stage_ok bind_ok n ne rs began sa so \<Longrightarrow> same_flags (ne_state ne) es \<Longrightarrow>
   stage_ok bind_ok n (ne\<lparr>ne_state := es\<rparr>) rs began sa so"
  by (simp add: stage_ok_def)

lemma worker_returns_joinable [simp]: "joinable (th_thread (worker_returns t)) = joinable (th_thread t)"
  by (auto simp: worker_returns_def joinable_def split: std_thread.split)

lemma stage_returns:
  "stage_ok bind_ok n ne rs began sa so \<Longrightarrow>
   stage_ok bind_ok n (ne\<lparr>ne_threads := (ne_threads ne)[i := worker_returns (ne_threads ne ! i)]\<rparr>) rs began sa so"
  by (cases "i < length (ne_threads ne)") (auto simp: stage_ok_def nth_list_update)

lemma may_call_None: "may_call s c \<Longrightarrow> en_calls s c = None"
  by (cases c) auto

text \<open>A statement of a call: the stages after it.\<close>

lemma advance_stage:
  assumes calls: "calls_ok calls sa so" and c: "calls c = Some pc"
    and st: "stage_ok bind_ok n ne rs began sa so"
    and step: "call_block b can_spawn buf c pc ne = Some (Inr (ne', nx))"
  shows "\<exists>sb sp. calls_ok (calls(c := nx)) sb sp \<and> stage_ok bind_ok n ne' (rs @ event_run pc ne) began sb sp"
proof (cases pc)
  case (InStart p)
  with step obtain nx' where s: "start_block b can_spawn buf p ne = Inr (ne', nx')" "nx = map_option InStart nx'"
    by (cases "start_block b can_spawn buf p ne") auto
  with calls_ok_start_at(1)[OF calls, of c p] calls_ok_start_at(2)[OF calls, of c p nx'] c InStart stage_start_step[of bind_ok n ne rs began c p so b can_spawn buf ne' nx'] st
  show ?thesis by auto
next
  case (InStop q)
  with step obtain nx' where s: "stop_block c q ne = Some (Inr (ne', nx'))" "nx = map_option InStop nx'"
    by (cases "stop_block c q ne"; cases "the (stop_block c q ne)") auto
  show ?thesis
  proof (cases "q = SpExchange")
    case True
    note ex = calls_ok_exchange[OF calls, of c]
    show ?thesis
    proof (cases "es_isRun (ne_state ne)")
      case True
      with s \<open>q = SpExchange\<close> have "ne' = ne\<lparr>ne_state := (ne_state ne)\<lparr>es_isRun := False\<rparr>\<rparr>" "nx = Some (InStop (SpEvent 0))"
        by auto
      with stage_exchange(1)[OF st True] stage_exchange(2)[OF st True, of c] ex(2) c InStop \<open>q = SpExchange\<close> show ?thesis by auto
    next
      case False
      with s \<open>q = SpExchange\<close> have "ne' = ne" "nx = None" by auto
      with st ex(1) c InStop \<open>q = SpExchange\<close> show ?thesis by auto
    qed
  next
    case False
    with calls_ok_stop_at(1)[OF calls, of c q None] c InStop have "so = StopAt c q" by simp
    with stage_stop_step[of bind_ok n ne rs began sa c q ne' nx'] calls_ok_stop_at(2)[OF calls, of c q nx']
      s st False c InStop show ?thesis by auto
  qed
qed

lemma advance_fails:
  assumes calls: "calls_ok calls sa so" and c: "calls c = Some pc"
    and st: "stage_ok bind_ok n ne rs began sa so"
    and step: "call_block b can_spawn buf c pc ne = Some (Inl e)"
  shows "(\<exists>m. e = Thrown m) \<and> (can_spawn \<and> bind_ok \<longrightarrow> (\<exists>i. c = Worker i))"
proof (cases pc)
  case (InStart p)
  with step have s: "start_block b can_spawn buf p ne = Inl e"
    by (cases "start_block b can_spawn buf p ne") auto
  with stage_start_fails[of bind_ok n ne rs began c p so b can_spawn buf e] calls_ok_start_at(1)[OF calls, of c p] c InStart st
  show ?thesis by auto
next
  case (InStop q)
  with step have s: "stop_block c q ne = Some (Inl e)"
    by (cases "stop_block c q ne"; cases "the (stop_block c q ne)") auto
  then have "q \<noteq> SpExchange" by auto
  with stage_stop_fails[of bind_ok n ne rs began sa c q e] calls_ok_stop_at(1)[OF calls, of c q None] c InStop s st
  show ?thesis by auto
qed

lemma en_do_inv:
  assumes inv: "en_inv bind_ok n s" and step: "en_do b buf grow s ev = Some t"
    and once: "\<And>c. ev = EnStart c \<Longrightarrow> \<not> en_started s"
  shows "en_inv bind_ok n t"
proof -
  obtain sa so where calls: "calls_ok (en_calls s) sa so"
    and st: "stage_ok bind_ok n (en_engine s) (en_ran s) (en_started s) sa so"
    using inv unfolding en_inv_def by blast
  have alive: "en_failed s = None" using step by (cases ev) (auto split: if_splits simp: Let_def)
  show ?thesis
  proof (cases ev)
    case (EnStart c)
    with step have c: "en_calls s c = None"
      and t: "t = s\<lparr>en_calls := (en_calls s)(c \<mapsto> InStart StCheck), en_started := True\<rparr>"
      by (auto split: if_splits dest: may_call_None)
    have "\<not> en_started s" using once EnStart by blast
    then have sa: "sa = NotStarted" using st by (simp add: stage_ok_def)
    have "stage_ok bind_ok n (en_engine s) (en_ran s) True (StartAt c StCheck) so"
      using st sa by (cases so) (auto simp: stage_ok_def)
    with calls_ok_start[of "en_calls s" so c StCheck] calls sa c alive show ?thesis
      unfolding t by (intro en_invI[of _ "StartAt c StCheck" so]) simp_all
  next
    case (EnStop c)
    with step have c: "en_calls s c = None" and t: "t = s\<lparr>en_calls := (en_calls s)(c \<mapsto> InStop SpExchange)\<rparr>"
      by (auto split: if_splits dest: may_call_None)
    from calls_ok_stop[OF calls c] st alive show ?thesis
      unfolding t by (intro en_invI[of _ sa so]) simp_all
  next
    case (EnAdvance c can_spawn)
    with step alive obtain pc where pc: "en_calls s c = Some pc" by (auto split: option.splits)
    show ?thesis
    proof (cases "call_block b can_spawn buf c pc (en_engine s)")
      case None
      with step EnAdvance pc alive show ?thesis by simp
    next
      case (Some r)
      show ?thesis
      proof (cases r)
        case (Inl e)
        with step EnAdvance pc alive Some have t: "t = s\<lparr>en_failed := Some e\<rparr>" by simp
        have "\<exists>m. e = Thrown m" using advance_fails[OF calls pc st] Some Inl by blast
        with calls st show ?thesis unfolding en_inv_def t by auto
      next
        case (Inr x)
        obtain ne' nx where x: "x = (ne', nx)" by force
        with step EnAdvance pc alive Some Inr have
          t: "t = s\<lparr>en_engine := ne', en_calls := (en_calls s)(c := nx), en_ran := en_ran s @ event_run pc (en_engine s)\<rparr>"
          by simp
        from advance_stage[OF calls pc st] Some Inr x obtain sb sp where "calls_ok ((en_calls s)(c := nx)) sb sp"
          "stage_ok bind_ok n ne' (en_ran s @ event_run pc (en_engine s)) (en_started s) sb sp" by blast
        with alive show ?thesis unfolding t by (intro en_invI[of _ sb sp]) simp_all
      qed
    qed
  next
    case (EnReturns i)
    with step have t: "t = s\<lparr>en_engine := (en_engine s)\<lparr>ne_threads := (ne_threads (en_engine s))
        [i := worker_returns (ne_threads (en_engine s) ! i)]\<rparr>\<rparr>"
      by (auto simp: Let_def split: if_splits)
    show ?thesis unfolding t using stage_returns[OF st, of i] calls alive by (intro en_invI[of _ sa so]) simp_all
  next
    case (EnWorld w)
    with step obtain a where a: "accept_do grow \<lparr>as_state = ne_state (en_engine s), as_phase = 0, as_connected = []\<rparr> w = Some a"
      "w \<noteq> AcStop" "t = s\<lparr>en_engine := (en_engine s)\<lparr>ne_state := as_state a\<rparr>\<rparr>"
      by (auto split: if_splits)
    with accept_do_flags[OF a(1,2)] stage_same_flags[OF st, of "as_state a"] calls alive show ?thesis
      by (intro en_invI[of _ sa so]) simp_all
  qed
qed

interpretation engine_sys: invariant_system "en_init bind_ok n" "en_step b buf grow" "en_inv bind_ok n"
  for bind_ok :: bool and n :: nat and b :: build and buf :: string and grow :: "nat \<Rightarrow> nat"
proof
  show "en_init bind_ok n s \<Longrightarrow> en_inv bind_ok n s" for s by (rule en_init_inv)
  show "en_inv bind_ok n s \<Longrightarrow> en_step b buf grow s t \<Longrightarrow> en_inv bind_ok n t" for s t
    by (erule en_stepE) (rule en_do_inv)
qed

lemma server_en_init:
  assumes "0 < ioThreadCount" "0 < sessionCount"
    and "BoostNetEngineServer_new b0 grow0 bind_ok (Some e) ioThreadCount sessionCount create h = Inr (ne, h')"
  shows "en_init bind_ok (unat ioThreadCount) (en_new ne)"
proof -
  have "0 < unat ioThreadCount" using assms(1) by (simp add: word_nat)
  moreover obtain pool where "ne = \<lparr>ne_state = engine_state_new sessionCount pool,
      ne_startDelegator = \<lparr>dg_callbacks = [StartEngineEvent bind_ok]\<rparr>,
      ne_stopDelegator = \<lparr>dg_callbacks = [BoostNetEngine_StopEngineEvent, StopEngineEvent]\<rparr>,
      ne_threads = replicate (unat ioThreadCount) Thread_new\<rparr>"
    by (rule server_new_eq[OF assms(1,2), of b0 grow0 bind_ok e create h]) (use assms(3) in simp)
  ultimately have "stage_ok bind_ok (unat ioThreadCount) ne [] False NotStarted NotStopped"
    by (simp add: stage_ok_def engine_state_new_def Thread_new_def joinable_def)
  then show ?thesis unfolding en_init_def by blast
qed

section \<open>Every call comes to its end\<close>

fun call_rank :: "nat \<Rightarrow> call_pc \<Rightarrow> nat" where
  "call_rank n (InStart StCheck) = 3 * n + 10"
| "call_rank n (InStart (StSpawn i)) = 3 * (n - i) + 8"
| "call_rank n (InStart StStore) = 7"
| "call_rank n (InStart (StEvent k)) = (if k = 0 then 6 else 5)"
| "call_rank n (InStop SpExchange) = n + 10"
| "call_rank n (InStop (SpEvent k)) = n + 4 + (2 - k)"
| "call_rank n (InStop (SpJoin i)) = n - i + 1"

definition rank_of :: "nat \<Rightarrow> call_pc option \<Rightarrow> nat" where
  "rank_of n pc = (case pc of None \<Rightarrow> 0 | Some p \<Rightarrow> call_rank n p)"

definition calls_rank :: "nat \<Rightarrow> (caller \<Rightarrow> call_pc option) \<Rightarrow> nat" where
  "calls_rank n calls = (\<Sum>c\<in>dom calls. rank_of n (calls c))"

definition running_count :: "NetEngine \<Rightarrow> nat" where
  "running_count ne = length (filter (running \<circ> th_thread) (ne_threads ne))"

definition en_rank :: "nat \<Rightarrow> EngSys \<Rightarrow> nat" where
  "en_rank n s = calls_rank n (en_calls s) + running_count (en_engine s)"

lemma calls_rank_upd:
  assumes "finite (dom calls)" "calls c = Some pc"
  shows "calls_rank n (calls(c := nx)) + call_rank n pc = calls_rank n calls + rank_of n nx"
proof -
  let ?rest = "\<Sum>d\<in>dom calls - {c}. rank_of n (calls d)"
  have "calls_rank n calls = call_rank n pc + ?rest"
    using assms by (simp add: calls_rank_def sum.remove[of _ c] domIff rank_of_def)
  moreover have "calls_rank n (calls(c := nx)) = rank_of n nx + ?rest"
  proof -
    have "(\<Sum>d\<in>dom calls - {c}. rank_of n ((calls(c := nx)) d)) = ?rest" by (rule sum.cong) auto
    with assms(1) show ?thesis
      by (cases nx) (simp_all add: calls_rank_def rank_of_def sum.insert_remove)
  qed
  ultimately show ?thesis by simp
qed

lemma filter_update_le: "length (filter P (xs[i := x])) \<le> Suc (length (filter P xs))"
proof (induction xs arbitrary: i)
  case (Cons y ys)
  show ?case
  proof (cases i)
    case (Suc j)
    with Cons[of j] show ?thesis by simp
  qed simp
qed simp

lemma filter_update_lt:
  "i < length xs \<Longrightarrow> P (xs ! i) \<Longrightarrow> \<not> P x \<Longrightarrow> length (filter P (xs[i := x])) < length (filter P xs)"
proof (induction xs arbitrary: i)
  case (Cons y ys)
  then show ?case by (cases i) auto
qed simp

lemma filter_update_leq:
  "\<not> P x \<Longrightarrow> length (filter P (xs[i := x])) \<le> length (filter P xs)"
proof (induction xs arbitrary: i)
  case (Cons y ys)
  show ?case
  proof (cases i)
    case (Suc j)
    with Cons show ?thesis by simp
  qed (use Cons.prems in simp)
qed simp

text \<open>A statement brings its call nearer to its end by more than the threads it starts.\<close>

lemma start_block_rank:
  assumes st: "stage_ok bind_ok n ne rs began (StartAt c p) so"
    and step: "start_block b True buf p ne = Inr (ne', nx)"
  shows "rank_of n (map_option InStart nx) + running_count ne' < call_rank n (InStart p) + running_count ne"
proof (cases p)
  case StCheck
  with step have "ne' = ne" "nx = Some (StSpawn 0)"
    by (cases b; auto simp: ASSERT_def Assert_def split: if_splits)+
  with StCheck show ?thesis by (simp add: rank_of_def)
next
  case (StSpawn i)
  from st have len: "length (ne_threads ne) = n" by (simp add: stage_ok_def)
  show ?thesis
  proof (cases "i < n")
    case True
    with step StSpawn len obtain t where
      ne': "ne' = ne\<lparr>ne_threads := (ne_threads ne)[i := t]\<rparr>" "nx = Some (StSpawn (Suc i))"
      by (auto simp: bind_res_def split: sum.splits)
    have "running_count ne' \<le> Suc (running_count ne)"
      unfolding running_count_def ne' using filter_update_le[of _ "ne_threads ne" i t] by simp
    with True StSpawn ne'(2) show ?thesis by (simp add: rank_of_def)
  next
    case False
    with step StSpawn len show ?thesis by (auto simp: rank_of_def)
  qed
next
  case (StEvent k)
  with step st show ?thesis
    by (cases "k = 0") (auto simp: stage_ok_def rank_of_def running_count_def bind_res_def split: sum.splits)
qed (use step in \<open>auto simp: rank_of_def running_count_def\<close>)

lemma stop_block_rank:
  assumes step: "stop_block c q ne = Some (Inr (ne', nx))" and len: "length (ne_threads ne) = n"
    and two: "length (dg_callbacks (ne_stopDelegator ne)) = 2"
  shows "rank_of n (map_option InStop nx) + running_count ne' < call_rank n (InStop q) + running_count ne"
proof (cases q)
  case SpExchange
  with step show ?thesis by (auto simp: rank_of_def running_count_def split: if_splits)
next
  case (SpEvent k)
  show ?thesis
  proof (cases "k < 2")
    case True
    with step SpEvent two show ?thesis
      by (auto simp: rank_of_def running_count_def bind_res_def split: sum.splits)
  next
    case False
    with step SpEvent two show ?thesis by (auto simp: rank_of_def)
  qed
next
  case (SpJoin i)
  show ?thesis
  proof (cases "i < n")
    case True
    with step SpJoin len obtain t where t: "Thread_Join (ne_threads ne ! i) = Some t"
      and ne': "ne' = ne\<lparr>ne_threads := (ne_threads ne)[i := t]\<rparr>" "nx = Some (SpJoin (Suc i))"
      by (auto split: if_splits)
    have "\<not> running (th_thread t)" using Thread_Join_joinable[OF t] by (cases "th_thread t") (auto simp: joinable_def)
    then have "running_count ne' \<le> running_count ne"
      unfolding running_count_def ne' using filter_update_leq[of "running \<circ> th_thread" t "ne_threads ne" i] by simp
    with True SpJoin ne'(2) show ?thesis by (simp add: rank_of_def)
  next
    case False
    with step SpJoin len show ?thesis by (auto simp: rank_of_def)
  qed
qed

lemma call_block_rank:
  assumes calls: "calls_ok calls sa so" and c: "calls c = Some pc"
    and st: "stage_ok bind_ok n ne rs began sa so"
    and step: "call_block b True buf c pc ne = Some (Inr (ne', nx))"
  shows "calls_rank n (calls(c := nx)) + running_count ne' < calls_rank n calls + running_count ne"
proof -
  have "rank_of n nx + running_count ne' < call_rank n pc + running_count ne"
  proof (cases pc)
    case (InStart p)
    with step obtain nx' where "start_block b True buf p ne = Inr (ne', nx')" "nx = map_option InStart nx'"
      by (cases "start_block b True buf p ne") auto
    with start_block_rank[of bind_ok n ne rs began c p so b buf ne' nx'] calls_ok_start_at(1)[OF calls, of c p] c InStart st
    show ?thesis by auto
  next
    case (InStop q)
    with step obtain nx' where "stop_block c q ne = Some (Inr (ne', nx'))" "nx = map_option InStop nx'"
      by (cases "stop_block c q ne"; cases "the (stop_block c q ne)") auto
    with stop_block_rank[of c q ne ne' nx' n] InStop st show ?thesis
      by (simp add: stage_ok_def numeral_2_eq_2)
  qed
  moreover have "finite (dom calls)" using calls by (simp add: calls_ok_def)
  ultimately show ?thesis using calls_rank_upd[of calls c pc n nx] c by simp
qed

fun progress :: "en_event \<Rightarrow> bool" where
  "progress (EnAdvance c can_spawn) \<longleftrightarrow> can_spawn"
| "progress (EnReturns i) \<longleftrightarrow> True"
| "progress _ \<longleftrightarrow> False"

lemma blocked_join:
  assumes "call_block b can_spawn buf c pc ne = None"
  shows "\<exists>i. pc = InStop (SpJoin i) \<and> running_worker ne i"
proof (cases pc)
  case (InStop q)
  with assms have "stop_block c q ne = None" by simp
  then obtain i where "q = SpJoin i" "i < length (ne_threads ne)" "Thread_Join (ne_threads ne ! i) = None"
    by (cases q) (auto split: if_splits)
  with InStop show ?thesis
    by (auto simp: running_worker_def Thread_Join_def split: std_thread.splits)
qed (use assms in simp)

lemma en_progress:
  assumes inv: "en_inv True n s" and alive: "en_failed s = None"
    and outside: "\<forall>i. en_calls s (Worker i) = None" and some: "en_calls s c = Some pc"
  shows "\<exists>ev t. progress ev \<and> en_do b buf grow s ev = Some t \<and> en_failed t = None \<and>
    (\<forall>i. en_calls t (Worker i) = None) \<and> en_rank n t < en_rank n s"
proof -
  obtain sa so where calls: "calls_ok (en_calls s) sa so"
    and st: "stage_ok True n (en_engine s) (en_ran s) (en_started s) sa so"
    using inv unfolding en_inv_def by blast
  let ?ne = "en_engine s"
  have c: "c \<noteq> Worker i" for i using some outside by auto
  show ?thesis
  proof (cases "call_block b True buf c pc ?ne")
    case None
    then obtain i where i: "pc = InStop (SpJoin i)" "running_worker ?ne i" using blocked_join by blast
    then have "so = StopAt c (SpJoin i)" using calls_ok_stop_at(1)[OF calls, of c "SpJoin i" None] some by simp
    then have "RunThreadWorker_returns (ne_state ?ne)"
      using st by (simp add: stage_ok_def RunThreadWorker_returns_def)
    moreover have "running_count (?ne\<lparr>ne_threads := (ne_threads ?ne)[i := worker_returns (ne_threads ?ne ! i)]\<rparr>) <
        running_count ?ne"
      using i(2) filter_update_lt[of i "ne_threads ?ne" "running \<circ> th_thread" "worker_returns (ne_threads ?ne ! i)"]
      by (cases "th_thread (ne_threads ?ne ! i)") (auto simp: running_count_def running_worker_def worker_returns_def)
    ultimately show ?thesis using i(2) alive outside
      by (intro exI[of _ "EnReturns i"]) (simp add: Let_def en_rank_def)
  next
    case (Some r)
    show ?thesis
    proof (cases r)
      case (Inl e)
      with Some advance_fails[OF calls some st, of b True buf e] c show ?thesis by simp
    next
      case (Inr x)
      obtain ne' nx where x: "x = (ne', nx)" by force
      from call_block_rank[OF calls some st, of b buf ne' nx] Some Inr x
      have "calls_rank n ((en_calls s)(c := nx)) + running_count ne' < en_rank n s" by (simp add: en_rank_def)
      with Some Inr x alive some outside c show ?thesis
        by (intro exI[of _ "EnAdvance c True"]) (auto simp: en_rank_def)
    qed
  qed
qed

lemma en_completes:
  assumes "en_inv True n s" "en_failed s = None" "\<forall>i. en_calls s (Worker i) = None"
  shows "\<exists>evs t. en_run b buf grow s evs = Some t \<and> list_all progress evs \<and> en_failed t = None \<and> en_calls t = (\<lambda>_. None)"
  using assms
proof (induction "en_rank n s" arbitrary: s rule: less_induct)
  case less
  show ?case
  proof (cases "en_calls s = (\<lambda>_. None)")
    case True
    with less.prems(2) show ?thesis by (intro exI[of _ "[]"]) simp
  next
    case False
    then obtain c pc where "en_calls s c = Some pc" by (auto simp: fun_eq_iff)
    from en_progress[OF less.prems this, of b buf grow] obtain ev u where
      u: "progress ev" "en_do b buf grow s ev = Some u" "en_failed u = None" "\<forall>i. en_calls u (Worker i) = None"
        "en_rank n u < en_rank n s" by blast
    have "en_inv True n u" using en_do_inv[OF less.prems(1) u(2)] u(1) by (cases ev) auto
    from less.hyps[OF u(5) this u(3,4)] obtain evs t where
      "en_run b buf grow u evs = Some t" "list_all progress evs" "en_failed t = None" "en_calls t = (\<lambda>_. None)" by blast
    with u(1,2) show ?thesis by (intro exI[of _ "ev # evs"]) auto
  qed
qed

lemma ran_ok_cases:
  assumes "ran_ok so rs" shows "rs \<in> {[], [0], [0, 1]}"
proof -
  have "[0..<k] \<in> {[], [0], [0, 1]}" if "k \<le> 2" for k
    using that by (auto simp: numeral_2_eq_2 le_Suc_eq)
  with assms show ?thesis by (cases "(so, rs)" rule: ran_ok.cases) auto
qed

section \<open>Properties\<close>

text \<open>A call past the exchange that cleared the flag.\<close>

definition stopping :: "EngSys \<Rightarrow> caller \<Rightarrow> bool" where
  "stopping s c \<longleftrightarrow> stop_of (en_calls s c) \<noteq> None"

text \<open>A call that may still start threads.\<close>

definition spawning :: "EngSys \<Rightarrow> caller \<Rightarrow> bool" where
  "spawning s c \<longleftrightarrow> (case start_of (en_calls s c) of None \<Rightarrow> False | Some (StEvent k) \<Rightarrow> False | _ \<Rightarrow> True)"

text \<open>
  C12: (component \<^verbatim>\<open>NetEngine\<close>, invariant) A server whose \<^verbatim>\<open>Start\<close> is called once can be stopped by any
  number of threads at any time. However the calls, the workers, the network and the timer
  interleave: nothing fails but by an exception of the system or of a thread that joins itself;
  the two stop events are run at most once each and in order, by one call; the threads are
  joined only after both, by that call, and only when none is being started any more; while the
  flag is set every thread has been started and no stop event was run; and when the call that
  runs them is through, every thread is joined, the flag clear and the context stopped.
\<close>
theorem engine_start_stop_threads:
  assumes "0 < ioThreadCount" "0 < sessionCount"
    and "BoostNetEngineServer_new b0 grow0 bind_ok (Some e) ioThreadCount sessionCount create h = Inr (ne, h')"
    and "reach (\<lambda>x. x = en_new ne) (en_step b buf grow) s"
  shows "(\<forall>e. en_failed s = Some e \<longrightarrow> (\<exists>m. e = Thrown m)) \<and>
    en_ran s \<in> {[], [0], [0, 1]} \<and>
    (\<forall>c d. stopping s c \<and> stopping s d \<longrightarrow> c = d) \<and>
    (\<forall>c i. en_calls s c = Some (InStop (SpJoin i)) \<longrightarrow> en_ran s = [0, 1] \<and> (\<forall>d. \<not> spawning s d)) \<and>
    (es_isRun (ne_state (en_engine s)) \<longrightarrow>
       list_all (joinable \<circ> th_thread) (ne_threads (en_engine s)) \<and> en_ran s = []) \<and>
    (en_ran s = [0, 1] \<and> (\<forall>c. \<not> stopping s c) \<longrightarrow>
       \<not> list_ex (joinable \<circ> th_thread) (ne_threads (en_engine s)) \<and>
       \<not> es_isRun (ne_state (en_engine s)) \<and> io_stopped (ne_state (en_engine s)))"
proof -
  have inv: "en_inv bind_ok (unat ioThreadCount) s"
    using engine_sys.reach_inv[OF reach_trans[OF reach_init assms(4)]] server_en_init[OF assms(1-3)] by blast
  then obtain sa so where calls: "calls_ok (en_calls s) sa so"
    and st: "stage_ok bind_ok (unat ioThreadCount) (en_engine s) (en_ran s) (en_started s) sa so"
    unfolding en_inv_def by blast
  let ?ts = "ne_threads (en_engine s)"
  have who: "stopping s c \<longleftrightarrow> (\<exists>q. so = StopAt c q)" for c
    using calls by (auto simp: calls_ok_def stopping_def stopper_Some)
  have late: "stored sa \<Longrightarrow> \<not> spawning s d" for d
    using calls by (cases sa rule: stored.cases) (auto simp: calls_ok_def spawning_def)
  have "en_ran s \<in> {[], [0], [0, 1]}"
    using st ran_ok_cases[of so "en_ran s"] unfolding stage_ok_def by blast
  moreover have "en_ran s = [0, 1] \<and> (\<forall>d. \<not> spawning s d)" if "en_calls s c = Some (InStop (SpJoin i))" for c i
  proof -
    have "so = StopAt c (SpJoin i)" using calls_ok_stop_at(1)[OF calls that, of None] by simp
    with st late show ?thesis by (simp add: stage_ok_def)
  qed
  moreover have "list_all (joinable \<circ> th_thread) ?ts \<and> en_ran s = []" if "es_isRun (ne_state (en_engine s))"
  proof -
    from that st have "stored sa" "so = NotStopped" by (auto simp: stage_ok_def)
    with st up_running[of sa] show ?thesis by (auto simp: stage_ok_def list_all_length)
  qed
  moreover have "\<not> list_ex (joinable \<circ> th_thread) ?ts \<and> \<not> es_isRun (ne_state (en_engine s)) \<and>
      io_stopped (ne_state (en_engine s))" if "en_ran s = [0, 1]" "\<forall>c. \<not> stopping s c"
  proof -
    from that st who have "so = StopDone" by (cases so) (auto simp: stage_ok_def)
    with st that(1) show ?thesis by (auto simp: stage_ok_def list_ex_length)
  qed
  moreover have "\<forall>c d. stopping s c \<and> stopping s d \<longrightarrow> c = d" using who by auto
  ultimately show ?thesis using inv unfolding en_inv_def by blast
qed

text \<open>A server with one worker and one session.\<close>

definition small_server :: "(NetEngine \<times> string list) res" where
  "small_server = BoostNetEngineServer_new Debug Suc True (Some 9) 1 1 (\<lambda>_. Factory_Create id (Factory_new ''s'')) []"

lemma small_server_eq:
  obtains ne pool where "small_server = Inr (ne, [''s''])" "ls0_stack pool = [Some 0]"
    "ne = \<lparr>ne_state = engine_state_new 1 pool, ne_startDelegator = \<lparr>dg_callbacks = [StartEngineEvent True]\<rparr>,
       ne_stopDelegator = \<lparr>dg_callbacks = [BoostNetEngine_StopEngineEvent, StopEngineEvent]\<rparr>,
       ne_threads = [Thread_new]\<rparr>"
proof -
  have "(0 :: UINT32) < 1" by simp
  then show thesis
    by (rule server_new_eq[of 1 1 Debug Suc True 9 "\<lambda>_. Factory_Create id (Factory_new ''s'')" "[]", rotated])
      (auto simp: small_server_def Factory_Create_def Factory_new_def intro: that)
qed

definition start_up :: "en_event list" where
  "start_up = EnStart (Outsider 0) # replicate 6 (EnAdvance (Outsider 0) True)"

lemmas en_eval = en_new_def start_up_def numeral_eq_Suc Let_def running_worker_def joinable_def
  Thread_Start_def Thread_new_def ASSERT_def Assert_def thread_name_ne Thread_Join_def worker_returns_def
  StartEngineEvent_def StartListening_def AcceptSession_def IsRunning_def TakeBoostSession_def TakeSession_cases
  async_accept_def BoostNetEngine_StopEngineEvent_def StopEngineEvent_def StopListening_def cancel_timer_def
  RunThreadWorker_returns_def engine_state_new_def stopping_def

lemma en_run_reachable:
  "reach init (en_step b buf grow) s \<Longrightarrow> en_run b buf grow s evs = Some t \<Longrightarrow>
   list_all (\<lambda>ev. case ev of EnStart c \<Rightarrow> False | _ \<Rightarrow> True) evs \<Longrightarrow> reach init (en_step b buf grow) t"
proof (induction evs arbitrary: s)
  case (Cons ev evs)
  then obtain u where "en_do b buf grow s ev = Some u" "en_run b buf grow u evs = Some t"
    by (auto split: option.splits)
  with Cons show ?case by (auto intro!: Cons.IH[of u] reach_step[of init _ s u] en_stepI)
qed simp

lemma en_started_reachable:
  assumes "en_do b buf grow (en_new ne) (EnStart c) = Some s" "en_run b buf grow s evs = Some t"
    "list_all (\<lambda>ev. case ev of EnStart c \<Rightarrow> False | _ \<Rightarrow> True) evs"
  shows "reach (\<lambda>x. x = en_new ne) (en_step b buf grow) t"
proof -
  have "en_step b buf grow (en_new ne) s" using assms(1) by (rule en_stepI) (simp add: en_new_def)
  then have "reach (\<lambda>x. x = en_new ne) (en_step b buf grow) s" by (rule reach_step[OF reach_init, rotated]) simp
  from en_run_reachable[OF this assms(2,3)] show ?thesis .
qed

lemma engine_start_stop_threads_witness:
  "\<exists>ne s. small_server = Inr (ne, [''s'']) \<and>
     en_run Debug (replicate 16 NUL) Suc (en_new ne)
       (start_up @ EnStop (Outsider 1) # replicate 2 (EnAdvance (Outsider 1) True)) = Some s \<and>
     stopping s (Outsider 1) \<and> en_ran s = [0] \<and> (\<forall>d. stopping s d \<longrightarrow> d = Outsider 1)"
proof -
  obtain ne pool where ne: "small_server = Inr (ne, [''s''])" "ls0_stack pool = [Some 0]"
    "ne = \<lparr>ne_state = engine_state_new 1 pool, ne_startDelegator = \<lparr>dg_callbacks = [StartEngineEvent True]\<rparr>,
       ne_stopDelegator = \<lparr>dg_callbacks = [BoostNetEngine_StopEngineEvent, StopEngineEvent]\<rparr>,
       ne_threads = [Thread_new]\<rparr>" using small_server_eq .
  let ?evs = "replicate 6 (EnAdvance (Outsider 0) True) @ EnStop (Outsider 1) # replicate 2 (EnAdvance (Outsider 1) True)"
  have "\<exists>r s. en_do Debug (replicate 16 NUL) Suc (en_new ne) (EnStart (Outsider 0)) = Some r \<and>
      en_run Debug (replicate 16 NUL) Suc r ?evs = Some s \<and> stopping s (Outsider 1) \<and> en_ran s = [0]"
    using ne(2) by (simp add: ne(3) en_eval)
  then obtain r s where s: "en_do Debug (replicate 16 NUL) Suc (en_new ne) (EnStart (Outsider 0)) = Some r"
    "en_run Debug (replicate 16 NUL) Suc r ?evs = Some s" "stopping s (Outsider 1)" "en_ran s = [0]" by blast
  have "reach (\<lambda>x. x = en_new ne) (en_step Debug (replicate 16 NUL) Suc) s"
    using en_started_reachable[OF s(1,2)] by (simp add: numeral_eq_Suc)
  with engine_start_stop_threads[of 1 1 Debug Suc True 9 "\<lambda>_. Factory_Create id (Factory_new ''s'')" "[]" ne "[''s'']"
      Debug "replicate 16 NUL" Suc s] ne(1) s(3)
  have "\<forall>d. stopping s d \<longrightarrow> d = Outsider 1" unfolding small_server_def by auto
  moreover have "start_up @ EnStop (Outsider 1) # replicate 2 (EnAdvance (Outsider 1) True) = EnStart (Outsider 0) # ?evs"
    by (simp add: start_up_def)
  moreover have "en_run Debug (replicate 16 NUL) Suc (en_new ne) (EnStart (Outsider 0) # ?evs) = Some s"
    by (simp only: en_run.simps s(1,2) option.case)
  ultimately show ?thesis using ne(1) s(3,4) by metis
qed




end
