(* ===== verification/Profile_Model.thy ===== *)
theory Profile_Model
  imports Prelude
begin

text \<open>
  \<^verbatim>\<open>Verify/Profile.h\<close>: what its macros make of the statements they are put before, with and
  without \<^verbatim>\<open>__PROFILE__\<close>. The sampler and the two functions they expand to are declared there and
  defined nowhere, so they are parameters, functions on the data of the profile \<open>'p\<close>, which the
  program proper, with its data \<open>'v\<close>, does not touch.
\<close>

section \<open>Statements\<close>

text \<open>How a statement ends: at its end, by a jump of the enclosing loop, or leaving the function.\<close>

datatype completion = Falls | Breaks | Continues | Returns | Throws

type_synonym 's stmt = "'s \<Rightarrow> 's \<times> completion"

definition on_program :: "'v stmt \<Rightarrow> ('v \<times> 'p) stmt" where
  "on_program body s = (case body (fst s) of (v, c) \<Rightarrow> ((v, snd s), c))"

section \<open>The macros\<close>

text \<open>
  \<^verbatim>\<open>if (bool once = true) for (ProfileSampler sampler(name); once; once = false)\<close> before the
  statement. The sampler is destroyed however the loop ends.
\<close>

function once_loop :: "'s stmt \<Rightarrow> bool \<Rightarrow> 's stmt" where
  "once_loop body False s = (s, Falls)"
| "once_loop body True s =
     (case body s of
        (t, Falls) \<Rightarrow> once_loop body False t
      | (t, Continues) \<Rightarrow> once_loop body False t
      | (t, Breaks) \<Rightarrow> (t, Falls)
      | (t, c) \<Rightarrow> (t, c))"
  by pat_completeness auto

termination
  by (relation "measure (\<lambda>(_, once, _). if once then 1 else 0)") auto

definition BLOCK_PROFILE ::
    "bool \<Rightarrow> (string \<Rightarrow> 'p \<Rightarrow> 'p) \<Rightarrow> ('p \<Rightarrow> 'p) \<Rightarrow> string \<Rightarrow> ('v \<times> 'p) stmt \<Rightarrow> ('v \<times> 'p) stmt" where
  "BLOCK_PROFILE profile ctor dtor name body s =
     (if profile
      then (case once_loop body True (apsnd (ctor name) s) of (t, c) \<Rightarrow> (apsnd dtor t, c))
      else body s)"

text \<open>The sampler of a function lives for the rest of its scope.\<close>

definition FUNCTION_PROFILE ::
    "bool \<Rightarrow> (string \<Rightarrow> 'p \<Rightarrow> 'p) \<Rightarrow> ('p \<Rightarrow> 'p) \<Rightarrow> string \<Rightarrow> ('v \<times> 'p) stmt \<Rightarrow> ('v \<times> 'p) stmt" where
  "FUNCTION_PROFILE profile ctor dtor functionName rest s =
     (if profile
      then (case rest (apsnd (ctor functionName) s) of (t, c) \<Rightarrow> (apsnd dtor t, c))
      else rest s)"

definition PROFILE_SAMPLE_START ::
    "bool \<Rightarrow> (string \<Rightarrow> bool \<Rightarrow> 'p \<Rightarrow> 'p) \<Rightarrow> string \<Rightarrow> bool \<Rightarrow> 'v \<times> 'p \<Rightarrow> 'v \<times> 'p" where
  "PROFILE_SAMPLE_START profile ProfileStart fileName bCachedProfile s =
     (if profile then apsnd (ProfileStart fileName bCachedProfile) s else s)"

definition PROFILE_SAMPLE_END :: "bool \<Rightarrow> ('p \<Rightarrow> 'p) \<Rightarrow> 'v \<times> 'p \<Rightarrow> 'v \<times> 'p" where
  "PROFILE_SAMPLE_END profile ProfileEnd s = (if profile then apsnd ProfileEnd s else s)"

section \<open>A loop around a profiled block\<close>

partial_function (option) while_true :: "'s stmt \<Rightarrow> 's \<Rightarrow> ('s \<times> completion) option" where
  "while_true body s =
     (case body s of
        (t, Falls) \<Rightarrow> while_true body t
      | (t, Continues) \<Rightarrow> while_true body t
      | (t, Breaks) \<Rightarrow> Some (t, Falls)
      | (t, c) \<Rightarrow> Some (t, c))"

lemma while_true_returns: "while_true body s = Some r \<Longrightarrow> \<exists>u. snd (body u) \<notin> {Falls, Continues}"
proof (erule while_true.raw_induct[where P = "\<lambda>body s r. \<exists>u. snd (body u) \<notin> {Falls, Continues}", rotated])
  fix loop :: "'a stmt \<Rightarrow> 'a \<Rightarrow> ('a \<times> completion) option" and body s r
  assume IH: "\<And>body s r. loop body s = Some r \<Longrightarrow> \<exists>u. snd (body u) \<notin> {Falls, Continues}"
    and r: "(case body s of (t, Falls) \<Rightarrow> loop body t | (t, Continues) \<Rightarrow> loop body t
      | (t, Breaks) \<Rightarrow> Some (t, Falls) | (t, c) \<Rightarrow> Some (t, c)) = Some r"
  obtain t c where t: "body s = (t, c)" by (metis surj_pair)
  show "\<exists>u. snd (body u) \<notin> {Falls, Continues}"
  proof (cases "c \<in> {Falls, Continues}")
    case True
    with r t have "loop body t = Some r" by auto
    then show ?thesis by (rule IH)
  next
    case False
    with t show ?thesis by (metis snd_conv)
  qed
qed

lemma while_true_endless:
  assumes "\<And>s. snd (body s) \<in> {Falls, Continues}"
  shows "while_true body s = None"
  using while_true_returns[of body s] assms by (cases "while_true body s") auto

lemma BLOCK_PROFILE_on:
  assumes "body v = (v', c)"
  shows "BLOCK_PROFILE True ctor dtor name (on_program body) (v, p) =
    ((v', dtor (ctor name p)), if c = Breaks \<or> c = Continues then Falls else c)"
  using assms by (cases c) (simp_all add: BLOCK_PROFILE_def on_program_def)

section \<open>Properties\<close>

text \<open>
  A block that ends at its end, returns or throws does the
  same to the program with and without \<^verbatim>\<open>__PROFILE__\<close>, and is sampled exactly once, from before
  its first statement to after its last; so does every function and whatever stands between
  start and end. But \<^verbatim>\<open>break\<close> and \<^verbatim>\<open>continue\<close> in a profiled block leave the macro's own loop and
  not the one around it: a loop that is left by a \<^verbatim>\<open>break\<close> in such a block never ends in a build
  with profiling.
\<close>
theorem block_profile_transparent:
  assumes "body v = (v', c)"
  shows "BLOCK_PROFILE False ctor dtor name (on_program body) (v, p) = ((v', p), c) \<and>
    BLOCK_PROFILE True ctor dtor name (on_program body) (v, p) =
      ((v', dtor (ctor name p)), if c = Breaks \<or> c = Continues then Falls else c) \<and>
    FUNCTION_PROFILE False ctor dtor name (on_program body) (v, p) = ((v', p), c) \<and>
    FUNCTION_PROFILE True ctor dtor name (on_program body) (v, p) = ((v', dtor (ctor name p)), c) \<and>
    fst (PROFILE_SAMPLE_START profile start file cached (v, p)) = v \<and>
    fst (PROFILE_SAMPLE_END profile finish (v, p)) = v \<and>
    (c = Breaks \<longrightarrow>
       while_true (BLOCK_PROFILE False ctor dtor name (on_program body)) (v, p) = Some ((v', p), Falls)) \<and>
    ((\<forall>u. snd (body u) = Breaks) \<longrightarrow>
       while_true (BLOCK_PROFILE True ctor dtor name (on_program body)) (v, p) = None)"
proof -
  have plain: "BLOCK_PROFILE False ctor dtor name (on_program body) (v, p) = ((v', p), c)"
    using assms by (simp add: BLOCK_PROFILE_def on_program_def)
  have "while_true (BLOCK_PROFILE False ctor dtor name (on_program body)) (v, p) = Some ((v', p), Falls)"
    if "c = Breaks"
    using while_true.simps[of "BLOCK_PROFILE False ctor dtor name (on_program body)" "(v, p)"]
    unfolding plain that prod.case completion.case .
  moreover have "while_true (BLOCK_PROFILE True ctor dtor name (on_program body)) (v, p) = None"
    if "\<forall>u. snd (body u) = Breaks"
  proof (rule while_true_endless)
    fix s :: "'a \<times> 'b"
    obtain u q where s: "s = (u, q)" by (cases s)
    have "body u = (fst (body u), Breaks)" using that by (metis prod.collapse)
    then have "BLOCK_PROFILE True ctor dtor name (on_program body) (u, q) =
        ((fst (body u), dtor (ctor name q)), Falls)"
      using BLOCK_PROFILE_on[of body u "fst (body u)" Breaks ctor dtor name q] by simp
    then show "snd (BLOCK_PROFILE True ctor dtor name (on_program body) s) \<in> {Falls, Continues}"
      by (simp add: s)
  qed
  moreover have "FUNCTION_PROFILE False ctor dtor name (on_program body) (v, p) = ((v', p), c)"
    "FUNCTION_PROFILE True ctor dtor name (on_program body) (v, p) = ((v', dtor (ctor name p)), c)"
    using assms by (simp_all add: FUNCTION_PROFILE_def on_program_def)
  moreover have "fst (PROFILE_SAMPLE_START profile start file cached (v, p)) = v"
    "fst (PROFILE_SAMPLE_END profile finish (v, p)) = v"
    by (simp_all add: PROFILE_SAMPLE_START_def PROFILE_SAMPLE_END_def)
  ultimately show ?thesis
    using plain BLOCK_PROFILE_on[of body v v' c ctor dtor name p, OF assms] by blast
qed

lemma block_profile_transparent_witness:
  "BLOCK_PROFILE True (\<lambda>n p. p @ [n]) (\<lambda>p. p @ [''end'']) ''tick'' (on_program (\<lambda>v :: nat. (v + 1, Breaks))) (3, []) =
     ((4, [''tick'', ''end'']), Falls) \<and>
   while_true (BLOCK_PROFILE True (\<lambda>n p. p @ [n]) (\<lambda>p. p @ [''end'']) ''tick''
     (on_program (\<lambda>v :: nat. (v + 1, Breaks)))) (3, []) = None"
proof -
  have "(\<lambda>v :: nat. (v + 1, Breaks)) 3 = (4, Breaks)" by simp
  from block_profile_transparent[of "\<lambda>v :: nat. (v + 1, Breaks)", OF this, of "\<lambda>n p. p @ [n]" "\<lambda>p. p @ [''end'']" "''tick''" "[]"]
  show ?thesis by simp
qed

end
