(* ===== verification/Back_Trace.thy ===== *)
theory Back_Trace
  imports Prelude
begin

text \<open>
  \<^verbatim>\<open>Verify/BackTrace\<close>, both platforms: what \<^verbatim>\<open>PrintBackTrace\<close> prints, frame by frame. The system
  is an argument: where \<^verbatim>\<open>/proc/self/exe\<close> points to, what a command prints when it runs, and the
  frames the unwinder steps over. The name of the executable is a static array, so it is state
  that survives the call. \<^verbatim>\<open>ResolveAddr\<close> asserts, and a failed assertion prints a back trace, so
  the depth of these nested calls is the fuel.
\<close>

section \<open>Linux\<close>

definition kModuleNameLen :: nat where
  "kModuleNameLen = 512"

definition kBufSize :: nat where
  "kBufSize = 512"

record BtState =
  bt_moduleName :: string

definition bt_start :: BtState where
  "bt_start = \<lparr>bt_moduleName = replicate kModuleNameLen NUL\<rparr>"

text \<open>
  \<open>be_frames d\<close> are the frames of the call at nesting depth \<open>d\<close>: the name the unwinder has for
  the function, empty if it has none, and the instruction pointer.
\<close>

record BtEnv =
  be_exe :: "string option"
  be_popen :: "string \<Rightarrow> string option"
  be_frames :: "nat \<Rightarrow> (string \<times> UINT64) list"

text \<open>\<open>None\<close>: the fuel is used up. Otherwise the outcome, the static state and what was printed.\<close>

type_synonym 'a bt = "('a res \<times> BtState \<times> string) option"

text \<open>
  \<^verbatim>\<open>readlink\<close> copies as much of the target as fits and adds no terminator; \<^verbatim>\<open>at\<close> throws on an
  index past the array, and \<open>-1\<close> becomes one.
\<close>

definition read_module_name :: "string option \<Rightarrow> BtState \<Rightarrow> unit res \<times> BtState" where
  "read_module_name exe st =
     (case exe of
        None \<Rightarrow> (Inl (Thrown ''std::out_of_range''), st)
      | Some target \<Rightarrow>
          (let kNameLen = min (length target) kModuleNameLen;
               buf = take kNameLen target @ drop kNameLen (bt_moduleName st)
           in if kNameLen < kModuleNameLen
              then (Inr (), st\<lparr>bt_moduleName := buf[kNameLen := NUL]\<rparr>)
              else (Inl (Thrown ''std::out_of_range''), st\<lparr>bt_moduleName := buf\<rparr>)))"

text \<open>\<^verbatim>\<open>fgets\<close> with room for \<open>k\<close> characters: the line or the part of it that fits, and the rest.\<close>

fun fgets_line :: "nat \<Rightarrow> string \<Rightarrow> string \<times> string" where
  "fgets_line 0 s = ([], s)"
| "fgets_line (Suc k) [] = ([], [])"
| "fgets_line (Suc k) (c # cs) =
     (if c = CHR 0x0A then ([c], cs)
      else (case fgets_line k cs of (l, r) \<Rightarrow> (c # l, r)))"

lemma fgets_line_append: "fgets_line k s = (l, r) \<Longrightarrow> l @ r = s"
  by (induction k s arbitrary: l r rule: fgets_line.induct) (auto split: if_splits prod.splits)

lemma fgets_line_nonempty: "fgets_line (Suc k) (c # cs) = (l, r) \<Longrightarrow> l \<noteq> []"
  by (auto split: if_splits prod.splits)

text \<open>The loop of \<^verbatim>\<open>ResolveAddr\<close>: the text is appended as a C string.\<close>

function fgets_loop :: "string \<Rightarrow> string \<Rightarrow> string" where
  "fgets_loop s outSourcePosition =
     (if s = [] then outSourcePosition
      else case fgets_line (kBufSize - 1) s of
             (l, r) \<Rightarrow> fgets_loop r (outSourcePosition @ c_str l))"
  by pat_completeness auto

termination
proof (relation "measure (\<lambda>(s, _). length s)", simp)
  fix s out l r
  assume "s \<noteq> []" and e: "(l, r) = fgets_line (kBufSize - 1) s"
  then obtain c cs where "s = c # cs" by (cases s) auto
  with e have "l \<noteq> []" using fgets_line_nonempty[of 510 c cs l r] by (simp add: kBufSize_def)
  moreover have "l @ r = s" using fgets_line_append[OF e[symmetric]] .
  ultimately show "((r, out @ c_str l), (s, out)) \<in> measure (\<lambda>(s, _). length s)" by auto
qed

declare fgets_loop.simps [simp del]

definition query_position :: "BtEnv \<Rightarrow> BtState \<Rightarrow> UINT64 \<Rightarrow> (bool \<times> string) res" where
  "query_position env st addr =
     (if NUL \<notin> set (bt_moduleName st) then Inl OutOfBounds
      else
        (let command = ''addr2line -f -C -e '' @ c_str (bt_moduleName st) @ '' 0x'' @ to_hex addr
         in case be_popen env command of
              None \<Rightarrow> Inr (False, [])
            | Some output \<Rightarrow>
                (let outSourcePosition = fgets_loop output []
                 in Inr (take 2 outSourcePosition \<noteq> ''??'', outSourcePosition))))"

text \<open>\<open>report\<close> is the back trace that a failed assertion prints.\<close>

definition ResolveAddr :: "(BtState \<Rightarrow> unit bt) \<Rightarrow> build \<Rightarrow> BtEnv \<Rightarrow> BtState \<Rightarrow> UINT64 \<Rightarrow> (bool \<times> string) bt" where
  "ResolveAddr report b env st addr =
     (if bt_moduleName st ! 0 = NUL then
        (if be_exe env = None \<and> b = Debug then
           (case report st of
              None \<Rightarrow> None
            | Some (Inl e, st, out) \<Rightarrow> Some (Inl e, st, out)
            | Some (Inr _, st, out) \<Rightarrow> Some (Inl (AssertFailed ''readlink failed''), st, out))
         else
           (case read_module_name (be_exe env) st of
              (Inl e, st) \<Rightarrow> Some (Inl e, st, [])
            | (Inr _, st) \<Rightarrow> Some (query_position env st addr, st, [])))
      else Some (query_position env st addr, st, []))"

definition to_hex_long :: "UINT64 \<Rightarrow> string" where
  "to_hex_long w = (if sint w < 0 then ''-0x'' @ to_hex (- w) else ''0x'' @ to_hex w)"

text \<open>What is printed for a frame; the unwinder's name goes through an array of 256 characters.\<close>

definition frame_text :: "nat \<Rightarrow> string \<Rightarrow> UINT64 \<Rightarrow> bool \<Rightarrow> string \<Rightarrow> string" where
  "frame_text frameNumber name ipValue found debugInfo =
     (if found then ''['' @ to_string frameNumber @ '']: '' @ debugInfo
      else ''['' @ to_string frameNumber @ '']: '' @ c_str (take 255 name) @ '' (IP: '' @
        to_hex_long ipValue @ '')'' @ [CHR 0x0A])"

fun frame_loop ::
    "(BtState \<Rightarrow> unit bt) \<Rightarrow> build \<Rightarrow> BtEnv \<Rightarrow> nat \<Rightarrow> (string \<times> UINT64) list \<Rightarrow> BtState \<Rightarrow> string \<Rightarrow> unit bt" where
  "frame_loop report b env frameNumber [] st out =
     Some (Inr (), st, out @ ''----- BackTrace End ------'' @ [CHR 0x0A])"
| "frame_loop report b env frameNumber ((name, ipValue) # frames) st out =
     (case ResolveAddr report b env st ipValue of
        None \<Rightarrow> None
      | Some (Inl e, st, o1) \<Rightarrow> Some (Inl e, st, out @ o1)
      | Some (Inr (found, debugInfo), st, o1) \<Rightarrow>
          frame_loop report b env (Suc frameNumber) frames st
            (out @ o1 @ frame_text frameNumber name ipValue found debugInfo))"

definition bt_header :: string where
  "bt_header = ''[FrameNo]: (Function Name) (SourceFile:Line)'' @ [CHR 0x0A] @
     ''----- BackTrace Start ------'' @ [CHR 0x0A]"

primrec PrintBackTrace :: "nat \<Rightarrow> build \<Rightarrow> BtEnv \<Rightarrow> nat \<Rightarrow> BtState \<Rightarrow> unit bt" where
  "PrintBackTrace 0 b env depth st = None"
| "PrintBackTrace (Suc fuel) b env depth st =
     frame_loop (PrintBackTrace fuel b env (Suc depth)) b env 0 (be_frames env depth) st bt_header"

section \<open>Windows\<close>

text \<open>
  The frames are at most one hundred. The symbol is allocated once and keeps the last name that
  was found, while the record of the line is a new variable for every frame; neither call's
  failure is looked at.
\<close>

record WinEnv =
  we_malloc :: bool
  we_SymFromAddr :: "UINT64 \<Rightarrow> string option"
  we_SymGetLine :: "UINT64 \<Rightarrow> (string \<times> nat) option"
  we_UnDecorate :: "string \<Rightarrow> string"

fun win_frames :: "WinEnv \<Rightarrow> nat \<Rightarrow> UINT64 list \<Rightarrow> string option \<Rightarrow> string \<Rightarrow> string res" where
  "win_frames env index [] symbol out = Inr out"
| "win_frames env index (a # stack) symbol out =
     (let symbol = (case we_SymFromAddr env a of None \<Rightarrow> symbol | Some n \<Rightarrow> Some (take 255 n))
      in case (symbol, we_SymGetLine env a) of
           (Some n, Some (file, line)) \<Rightarrow>
             win_frames env (Suc index) stack symbol
               (out @ ''['' @ to_string index @ '']: '' @ take 1023 (we_UnDecorate env n) @ ''()'' @ [CHR 0x0A] @
                file @ '':'' @ to_string line @ [CHR 0x0A])
         | _ \<Rightarrow> Inl Indeterminate)"

definition PrintBackTrace_win32 :: "WinEnv \<Rightarrow> UINT64 list \<Rightarrow> string res" where
  "PrintBackTrace_win32 env stack =
     (if \<not> we_malloc env then Inl NullDeref else win_frames env 0 (take 100 stack) None [])"

section \<open>Lemmas\<close>

lemma fgets_loop_reads_all: "NUL \<notin> set s \<Longrightarrow> fgets_loop s out = out @ s"
proof (induction s out rule: fgets_loop.induct)
  case (1 s out)
  show ?case
  proof (cases "s = []")
    case True
    then show ?thesis by (simp add: fgets_loop.simps)
  next
    case False
    obtain l r where lr: "fgets_line (kBufSize - 1) s = (l, r)" by force
    then have s: "s = l @ r" using fgets_line_append by metis
    with 1(2) have "NUL \<notin> set l" "NUL \<notin> set r" by auto
    with 1(1)[OF False lr[symmetric]] False lr s show ?thesis
      by (subst fgets_loop.simps) (simp add: c_str_id)
  qed
qed

text \<open>The static name is either still to be read or the path of the executable.\<close>

definition module_ok :: "string \<Rightarrow> BtState \<Rightarrow> bool" where
  "module_ok target st \<longleftrightarrow> length (bt_moduleName st) = kModuleNameLen \<and>
     (bt_moduleName st ! 0 = NUL \<or> NUL \<in> set (bt_moduleName st) \<and> c_str (bt_moduleName st) = target)"

definition position_of :: "BtEnv \<Rightarrow> string \<Rightarrow> UINT64 \<Rightarrow> bool \<times> string" where
  "position_of env target addr =
     (case be_popen env (''addr2line -f -C -e '' @ target @ '' 0x'' @ to_hex addr) of
        None \<Rightarrow> (False, [])
      | Some output \<Rightarrow> (take 2 output \<noteq> ''??'', output))"

definition well_behaved :: "BtEnv \<Rightarrow> string \<Rightarrow> bool" where
  "well_behaved env target \<longleftrightarrow> be_exe env = Some target \<and> target \<noteq> [] \<and> length target < kModuleNameLen \<and>
     NUL \<notin> set target \<and> (\<forall>command output. be_popen env command = Some output \<longrightarrow> NUL \<notin> set output)"

lemma read_module_name_ok:
  assumes "well_behaved env target" "module_ok target st"
  shows "\<exists>st'. read_module_name (be_exe env) st = (Inr (), st') \<and> module_ok target st' \<and>
    bt_moduleName st' ! 0 \<noteq> NUL \<and> NUL \<in> set (bt_moduleName st') \<and> c_str (bt_moduleName st') = target"
proof -
  let ?n = "length target"
  from assms have n: "?n < kModuleNameLen" "length (bt_moduleName st) = kModuleNameLen" "NUL \<notin> set target"
    "target \<noteq> []" by (auto simp: well_behaved_def module_ok_def)
  then obtain z zs where d: "drop ?n (bt_moduleName st) = z # zs"
    by (metis Cons_nth_drop_Suc)
  have buf: "(target @ drop ?n (bt_moduleName st))[?n := NUL] = target @ NUL # zs"
    by (simp add: d list_update_append)
  have "length (target @ drop ?n (bt_moduleName st)) = kModuleNameLen" using n by simp
  then have len: "length (target @ NUL # zs) = kModuleNameLen" unfolding d by simp
  have "target ! 0 \<noteq> NUL" using n(3,4) by (metis length_greater_0_conv nth_mem)
  then show ?thesis
    using assms n buf len
    by (auto simp: read_module_name_def well_behaved_def module_ok_def Let_def nth_append c_str_append_NUL min_def)
qed

lemma query_position_ok:
  assumes "well_behaved env target" "NUL \<in> set (bt_moduleName st)" "c_str (bt_moduleName st) = target"
  shows "query_position env st addr = Inr (position_of env target addr)"
  using assms
  by (auto simp: query_position_def position_of_def Let_def well_behaved_def fgets_loop_reads_all split: option.split)

lemma ResolveAddr_ok:
  assumes "well_behaved env target" "module_ok target st"
  shows "\<exists>st'. ResolveAddr report b env st addr = Some (Inr (position_of env target addr), st', []) \<and>
    module_ok target st'"
proof (cases "bt_moduleName st ! 0 = NUL")
  case True
  from read_module_name_ok[OF assms] obtain st' where st': "read_module_name (be_exe env) st = (Inr (), st')"
    "module_ok target st'" "NUL \<in> set (bt_moduleName st')" "c_str (bt_moduleName st') = target" by blast
  from assms(1) have "be_exe env = Some target" by (simp add: well_behaved_def)
  with True st' query_position_ok[OF assms(1) st'(3,4)] show ?thesis by (simp add: ResolveAddr_def)
next
  case False
  with assms(2) have "NUL \<in> set (bt_moduleName st)" "c_str (bt_moduleName st) = target"
    by (auto simp: module_ok_def)
  from query_position_ok[OF assms(1) this] False assms(2) show ?thesis by (auto simp: ResolveAddr_def)
qed

text \<open>The reference: one entry for each frame, numbered from \<open>i\<close>.\<close>

fun trace_of :: "BtEnv \<Rightarrow> string \<Rightarrow> nat \<Rightarrow> (string \<times> UINT64) list \<Rightarrow> string" where
  "trace_of env target i [] = ''----- BackTrace End ------'' @ [CHR 0x0A]"
| "trace_of env target i ((name, ip) # frames) =
     (case position_of env target ip of (found, info) \<Rightarrow>
        frame_text i name ip found info @ trace_of env target (Suc i) frames)"

lemma frame_loop_ok:
  assumes "well_behaved env target" "module_ok target st"
  shows "\<exists>st'. frame_loop report b env i frames st out = Some (Inr (), st', out @ trace_of env target i frames) \<and>
    module_ok target st'"
  using assms(2)
proof (induction frames arbitrary: i st out)
  case (Cons f frames)
  obtain name ip where f: "f = (name, ip)" by force
  obtain st' where r: "ResolveAddr report b env st ip = Some (Inr (position_of env target ip), st', [])"
    and ok: "module_ok target st'"
    using ResolveAddr_ok[OF assms(1) Cons.prems] by blast
  obtain found info where p: "position_of env target ip = (found, info)" by force
  from Cons.IH[OF ok, of "Suc i" "out @ frame_text i name ip found info"] show ?case
    by (simp add: f r p)
qed simp

lemma module_ok_start: "module_ok target bt_start"
  by (simp add: module_ok_def bt_start_def kModuleNameLen_def)

lemma PrintBackTrace_ok:
  assumes "well_behaved env target" "module_ok target st"
  shows "\<exists>st'. PrintBackTrace (Suc n) b env d st =
      Some (Inr (), st', bt_header @ trace_of env target 0 (be_frames env d)) \<and> module_ok target st'"
  using frame_loop_ok[OF assms] by simp

section \<open>Properties\<close>


definition demo_env :: BtEnv where
  "demo_env = \<lparr>be_exe = Some ''/srv/app'',
     be_popen = (\<lambda>command. Some (if command = ''addr2line -f -C -e /srv/app 0x1f'' then ''main'' else ''??'')),
     be_frames = (\<lambda>_. [(''f'', 31), (''g'', 5)])\<rparr>"

lemma demo_well_behaved: "well_behaved demo_env ''/srv/app''"
  by (simp add: well_behaved_def demo_env_def kModuleNameLen_def NUL_def)


lemma readlink_fails_recursion:
  assumes "be_exe env = None" "\<forall>d. be_frames env d \<noteq> []" "bt_moduleName st ! 0 = NUL"
  shows "PrintBackTrace n Debug env d st = None"
proof (induction n arbitrary: d)
  case (Suc n)
  obtain name ip frames where "be_frames env d = (name, ip) # frames"
    using assms(2) by (metis list.exhaust surj_pair)
  with Suc.IH[of "Suc d"] assms show ?case by (simp add: ResolveAddr_def)
qed simp

text \<open>
  Three ways to get no back trace. A path that fills the
  array of 512 characters: the first frame throws \<^verbatim>\<open>std::out_of_range\<close> out of the printing, and
  any later call reads past the end of the array. A path that cannot be read: with assertions
  the failed assertion prints a back trace whose first frame fails the same assertion, without
  end; without them it throws. And a command that prints nothing counts as a position found, so
  that the unwinder's name is not printed.
\<close>
theorem backtrace_failures:
  assumes "\<forall>d. be_frames env d \<noteq> []"
  shows "(\<forall>target. be_exe env = Some target \<and> kModuleNameLen \<le> length target \<and> NUL \<notin> set target \<longrightarrow>
      (\<exists>st. PrintBackTrace (Suc n) b env d bt_start = Some (Inl (Thrown ''std::out_of_range''), st, bt_header) \<and>
        PrintBackTrace (Suc n) b env d' st = Some (Inl OutOfBounds, st, bt_header))) \<and>
    (be_exe env = None \<longrightarrow>
      PrintBackTrace n Debug env d bt_start = None \<and>
      PrintBackTrace (Suc n) NoDebug env d bt_start =
        Some (Inl (Thrown ''std::out_of_range''), bt_start, bt_header)) \<and>
    (\<forall>target name ip frames. well_behaved env target \<and> be_frames env d = (name, ip) # frames \<and>
        (\<forall>command. be_popen env command = Some []) \<longrightarrow>
      (\<exists>st. PrintBackTrace (Suc n) b env d bt_start =
        Some (Inr (), st, bt_header @ ''[0]: '' @ trace_of env target 1 frames)))"
proof -
  have frames: "\<exists>name ip fs. be_frames env d = (name, ip) # fs" for d
    using assms by (metis list.exhaust surj_pair)
  obtain name ip fs name' ip' fs' where f: "be_frames env d = (name, ip) # fs"
    "be_frames env d' = (name', ip') # fs'"
    using frames[of d] frames[of d'] by blast
  have start: "bt_moduleName bt_start ! 0 = NUL"
    by (simp add: bt_start_def kModuleNameLen_def)
  have long: "\<exists>st. PrintBackTrace (Suc n) b env d bt_start = Some (Inl (Thrown ''std::out_of_range''), st, bt_header) \<and>
        PrintBackTrace (Suc n) b env d' st = Some (Inl OutOfBounds, st, bt_header)"
    if "be_exe env = Some target" "kModuleNameLen \<le> length target" "NUL \<notin> set target" for target
  proof -
    let ?st = "\<lparr>bt_moduleName = take kModuleNameLen target\<rparr>"
    have "read_module_name (be_exe env) bt_start = (Inl (Thrown ''std::out_of_range''), ?st)"
      using that by (simp add: read_module_name_def bt_start_def min_def)
    then have one: "PrintBackTrace (Suc n) b env d bt_start = Some (Inl (Thrown ''std::out_of_range''), ?st, bt_header)"
      using start that(1) by (simp add: f ResolveAddr_def)
    have "target \<noteq> []" using that(2) by (auto simp: kModuleNameLen_def)
    then have "target ! 0 \<noteq> NUL" using that(3) by (metis length_greater_0_conv nth_mem)
    moreover have "NUL \<notin> set (take kModuleNameLen target)" using that(3) by (meson in_set_takeD)
    ultimately have "PrintBackTrace (Suc n) b env d' ?st = Some (Inl OutOfBounds, ?st, bt_header)"
      by (simp add: f ResolveAddr_def query_position_def kModuleNameLen_def)
    with one show ?thesis by blast
  qed
  have unreadable: "PrintBackTrace (Suc n) NoDebug env d bt_start =
        Some (Inl (Thrown ''std::out_of_range''), bt_start, bt_header)" if "be_exe env = None"
    using start that by (simp add: f ResolveAddr_def read_module_name_def)
  have silent: "\<exists>st. PrintBackTrace (Suc n) b env d bt_start =
        Some (Inr (), st, bt_header @ ''[0]: '' @ trace_of env target 1 fs)"
    if "well_behaved env target" "\<forall>command. be_popen env command = Some []" for target
  proof -
    have "trace_of env target 0 (be_frames env d) = ''[0]: '' @ trace_of env target 1 fs"
      using that(2) by (simp add: f position_of_def frame_text_def to_string_0)
    with PrintBackTrace_ok[OF that(1) module_ok_start] show ?thesis by metis
  qed
  show ?thesis
    using long unreadable silent readlink_fails_recursion[OF _ assms start] f(1) by auto
qed

lemma backtrace_failures_witness:
  "\<exists>st. PrintBackTrace 1 NoDebug \<lparr>be_exe = Some (replicate 512 CHR ''x''), be_popen = \<lambda>_. None,
       be_frames = \<lambda>_. [(''f'', 1)]\<rparr> 0 bt_start = Some (Inl (Thrown ''std::out_of_range''), st, bt_header)"
proof -
  let ?env = "\<lparr>be_exe = Some (replicate 512 CHR ''x''), be_popen = \<lambda>_. None, be_frames = \<lambda>_. [(''f'', 1)]\<rparr>"
  have "\<forall>d. be_frames ?env d \<noteq> []" by simp
  from backtrace_failures[OF this, of 0 NoDebug 0 0]
  have "\<exists>st. PrintBackTrace (Suc 0) NoDebug ?env 0 bt_start = Some (Inl (Thrown ''std::out_of_range''), st, bt_header)"
    by (auto simp: kModuleNameLen_def NUL_def simp del: PrintBackTrace.simps)
  then show ?thesis by (simp only: One_nat_def)
qed

text \<open>On Windows the trace returns exactly if every frame has a line and the first one a symbol.\<close>

lemma win_frames_returns:
  "is_ok (win_frames env i stack symbol out) \<longleftrightarrow>
     (\<forall>a\<in>set stack. we_SymGetLine env a \<noteq> None) \<and>
     (stack \<noteq> [] \<and> symbol = None \<longrightarrow> we_SymFromAddr env (hd stack) \<noteq> None)"
proof (induction env i stack symbol out rule: win_frames.induct)
  case (2 env i a stack symbol out)
  then show ?case
    by (cases "we_SymFromAddr env a"; cases symbol; cases "we_SymGetLine env a") (auto simp: Let_def)
qed simp

lemma PrintBackTrace_win32_returns:
  "is_ok (PrintBackTrace_win32 env stack) \<longleftrightarrow> we_malloc env \<and>
     (\<forall>a\<in>set (take 100 stack). we_SymGetLine env a \<noteq> None) \<and>
     (stack \<noteq> [] \<longrightarrow> we_SymFromAddr env (hd stack) \<noteq> None)"
  by (auto simp: PrintBackTrace_win32_def win_frames_returns hd_take)

end
