(* ===== verification/Signal_Handler.thy ===== *)
theory Signal_Handler
  imports Prelude
begin

text \<open>
  \<^verbatim>\<open>Verify/SignalHandler\<close>, both platforms: the dispositions \<^verbatim>\<open>InitSignal\<close> installs, the shutdown
  flag and the handlers. A signal of the system does what its disposition says; a signal with
  the default disposition ends the process, and \<^verbatim>\<open>_exit\<close> ends it without a core dump. The
  Windows runtime puts the default disposition back when it calls a handler; on Linux a
  handler stays.
\<close>

section \<open>The process\<close>

datatype platform = Linux | Windows

datatype signal = SIGINT | SIGTERM | SIGABRT | SIGSEGV | SIGPIPE | SIGHUP

datatype disposition = SIG_DFL | SIG_IGN | OnSIGINT | OnSIGTERM | OnSIGABRT | OnSIGSEGV

datatype fate = Alive | Exited int | Killed signal

record Proc =
  m_shutdownRequested :: bool
  pr_disposition :: "signal \<Rightarrow> disposition"
  pr_console_handler :: bool
  pr_fate :: fate

definition proc_start :: Proc where
  "proc_start = \<lparr>m_shutdownRequested = True, pr_disposition = (\<lambda>_. SIG_DFL),
     pr_console_handler = False, pr_fate = Alive\<rparr>"

definition IsShutdownRequested :: "Proc \<Rightarrow> bool" where
  "IsShutdownRequested p = m_shutdownRequested p"

section \<open>Registration\<close>

definition set_signal :: "signal \<Rightarrow> disposition \<Rightarrow> Proc \<Rightarrow> Proc" where
  "set_signal sig h p =
     (if pr_fate p = Alive then p\<lparr>pr_disposition := (pr_disposition p)(sig := h)\<rparr> else p)"

definition SetConsoleCtrlHandler :: "Proc \<Rightarrow> Proc" where
  "SetConsoleCtrlHandler p = (if pr_fate p = Alive then p\<lparr>pr_console_handler := True\<rparr> else p)"

definition store_shutdown :: "bool \<Rightarrow> Proc \<Rightarrow> Proc" where
  "store_shutdown v p = (if pr_fate p = Alive then p\<lparr>m_shutdownRequested := v\<rparr> else p)"

text \<open>The statements of \<^verbatim>\<open>InitSignal\<close>; a signal can arrive between any two of them.\<close>

definition InitSignal_linux :: "(Proc \<Rightarrow> Proc) list" where
  "InitSignal_linux =
     [set_signal SIGINT OnSIGINT, set_signal SIGTERM OnSIGTERM, set_signal SIGABRT OnSIGABRT,
      set_signal SIGSEGV OnSIGSEGV, set_signal SIGPIPE SIG_IGN, store_shutdown False]"

definition InitSignal_window :: "(Proc \<Rightarrow> Proc) list" where
  "InitSignal_window =
     [set_signal SIGINT OnSIGINT, set_signal SIGTERM OnSIGTERM, set_signal SIGABRT OnSIGABRT,
      set_signal SIGSEGV OnSIGSEGV, SetConsoleCtrlHandler, store_shutdown False]"

definition InitSignal :: "platform \<Rightarrow> (Proc \<Rightarrow> Proc) list" where
  "InitSignal os = (case os of Linux \<Rightarrow> InitSignal_linux | Windows \<Rightarrow> InitSignal_window)"

definition run_steps :: "(Proc \<Rightarrow> Proc) list \<Rightarrow> Proc \<Rightarrow> Proc" where
  "run_steps steps p = fold (\<lambda>f. f) steps p"

section \<open>Delivery\<close>

definition handle_SIGINT :: "Proc \<Rightarrow> Proc" where
  "handle_SIGINT p = p\<lparr>m_shutdownRequested := True\<rparr>"

definition handle_SIGTERM :: "Proc \<Rightarrow> Proc" where
  "handle_SIGTERM p = p\<lparr>m_shutdownRequested := True\<rparr>"

definition handle_SIGABRT :: "Proc \<Rightarrow> Proc" where
  "handle_SIGABRT p = p\<lparr>pr_fate := Exited 1\<rparr>"

definition handle_SIGSEGV :: "Proc \<Rightarrow> Proc" where
  "handle_SIGSEGV p = p\<lparr>pr_fate := Exited 1\<rparr>"

text \<open>The handlers of the Windows file.\<close>

definition handle_SIGINT_window :: "Proc \<Rightarrow> Proc" where
  "handle_SIGINT_window p = p\<lparr>m_shutdownRequested := True\<rparr>"

definition handle_SIGTERM_window :: "Proc \<Rightarrow> Proc" where
  "handle_SIGTERM_window p = p\<lparr>m_shutdownRequested := True\<rparr>"

definition handle_SIGABRT_window :: "Proc \<Rightarrow> Proc" where
  "handle_SIGABRT_window p = p\<lparr>pr_fate := Exited 1\<rparr>"

definition handle_SIGSEGV_window :: "Proc \<Rightarrow> Proc" where
  "handle_SIGSEGV_window p = p\<lparr>pr_fate := Exited 1\<rparr>"

definition deliver_signal :: "platform \<Rightarrow> signal \<Rightarrow> Proc \<Rightarrow> Proc" where
  "deliver_signal os sig p =
     (if pr_fate p \<noteq> Alive then p
      else let q = (if os = Windows then p\<lparr>pr_disposition := (pr_disposition p)(sig := SIG_DFL)\<rparr> else p)
           in case pr_disposition p sig of
                SIG_DFL \<Rightarrow> p\<lparr>pr_fate := Killed sig\<rparr>
              | SIG_IGN \<Rightarrow> p
              | OnSIGINT \<Rightarrow> (if os = Windows then handle_SIGINT_window q else handle_SIGINT q)
              | OnSIGTERM \<Rightarrow> (if os = Windows then handle_SIGTERM_window q else handle_SIGTERM q)
              | OnSIGABRT \<Rightarrow> (if os = Windows then handle_SIGABRT_window q else handle_SIGABRT q)
              | OnSIGSEGV \<Rightarrow> (if os = Windows then handle_SIGSEGV_window q else handle_SIGSEGV q))"

text \<open>Console events of Windows; the handler's result tells the system whether it took the event.\<close>

datatype ctrl_type = CTRL_C_EVENT | CTRL_BREAK_EVENT | CTRL_CLOSE_EVENT | CTRL_LOGOFF_EVENT | CTRL_SHUTDOWN_EVENT

definition ConsoleCtrlHandler :: "ctrl_type \<Rightarrow> Proc \<Rightarrow> bool \<times> Proc" where
  "ConsoleCtrlHandler ctrlType p =
     (case ctrlType of
        CTRL_LOGOFF_EVENT \<Rightarrow> (False, p)
      | _ \<Rightarrow> (True, deliver_signal Windows SIGINT p))"

lemmas signal_defs = run_steps_def InitSignal_def InitSignal_linux_def InitSignal_window_def set_signal_def
  SetConsoleCtrlHandler_def store_shutdown_def deliver_signal_def Let_def
  handle_SIGINT_def handle_SIGTERM_def handle_SIGABRT_def handle_SIGSEGV_def
  handle_SIGINT_window_def handle_SIGTERM_window_def handle_SIGABRT_window_def handle_SIGSEGV_window_def
  IsShutdownRequested_def

text \<open>What \<^verbatim>\<open>InitSignal\<close> leaves behind.\<close>

definition installed :: "platform \<Rightarrow> Proc \<Rightarrow> bool" where
  "installed os p \<longleftrightarrow> pr_fate p = Alive \<and>
     pr_disposition p SIGINT = OnSIGINT \<and> pr_disposition p SIGTERM = OnSIGTERM \<and>
     pr_disposition p SIGABRT = OnSIGABRT \<and> pr_disposition p SIGSEGV = OnSIGSEGV \<and>
     (if os = Linux then pr_disposition p SIGPIPE = SIG_IGN else pr_console_handler p)"

lemma InitSignal_installs:
  "pr_fate p = Alive \<Longrightarrow>
   installed os (run_steps (InitSignal os) p) \<and> \<not> IsShutdownRequested (run_steps (InitSignal os) p)"
  by (cases os) (simp_all add: signal_defs installed_def)

lemma linux_signals_keep:
  assumes "installed Linux p" "set sigs \<subseteq> {SIGINT, SIGTERM, SIGPIPE}"
  shows "installed Linux (fold (deliver_signal Linux) sigs p) \<and>
    (IsShutdownRequested (fold (deliver_signal Linux) sigs p) \<longleftrightarrow>
       IsShutdownRequested p \<or> SIGINT \<in> set sigs \<or> SIGTERM \<in> set sigs)"
  using assms
proof (induction sigs arbitrary: p)
  case (Cons sig sigs)
  let ?q = "deliver_signal Linux sig p"
  have q: "installed Linux ?q \<and> (IsShutdownRequested ?q \<longleftrightarrow> IsShutdownRequested p \<or> sig \<in> {SIGINT, SIGTERM})"
    using Cons.prems by (auto simp: installed_def signal_defs)
  then have "installed Linux ?q" by simp
  from Cons.IH[OF this] Cons.prems(2) q show ?case by auto
qed simp

section \<open>Properties\<close>

text \<open>
  The flag is set until \<^verbatim>\<open>InitSignal\<close> clears it. On
  Linux any later sequence of \<^verbatim>\<open>SIGINT\<close>, \<^verbatim>\<open>SIGTERM\<close> and \<^verbatim>\<open>SIGPIPE\<close> leaves the process alive with
  the flag set exactly if one of the first two arrived. On either platform the first of these
  two sets the flag, while \<^verbatim>\<open>SIGABRT\<close> and \<^verbatim>\<open>SIGSEGV\<close> end the process with exit code 1, so
  that the system writes no core dump; on Windows a second \<^verbatim>\<open>SIGINT\<close> kills the process.
\<close>
theorem signals_request_shutdown:
  assumes "set sigs \<subseteq> {SIGINT, SIGTERM, SIGPIPE}"
  shows "IsShutdownRequested proc_start \<and>
    (let p = run_steps (InitSignal Linux) proc_start; q = fold (deliver_signal Linux) sigs p in
      \<not> IsShutdownRequested p \<and> pr_fate q = Alive \<and>
      (IsShutdownRequested q \<longleftrightarrow> SIGINT \<in> set sigs \<or> SIGTERM \<in> set sigs)) \<and>
    (let p = run_steps (InitSignal os) proc_start in
      IsShutdownRequested (deliver_signal os SIGINT p) \<and> IsShutdownRequested (deliver_signal os SIGTERM p) \<and>
      pr_fate (deliver_signal os SIGABRT p) = Exited 1 \<and> pr_fate (deliver_signal os SIGSEGV p) = Exited 1) \<and>
    pr_fate (deliver_signal Windows SIGINT (deliver_signal Windows SIGINT
      (run_steps (InitSignal Windows) proc_start))) = Killed SIGINT"
proof -
  have "pr_fate proc_start = Alive" by (simp add: proc_start_def)
  note i = InitSignal_installs[OF this]
  have "IsShutdownRequested proc_start"
    by (simp add: proc_start_def IsShutdownRequested_def)
  moreover have "let p = run_steps (InitSignal os) proc_start in
      IsShutdownRequested (deliver_signal os SIGINT p) \<and> IsShutdownRequested (deliver_signal os SIGTERM p) \<and>
      pr_fate (deliver_signal os SIGABRT p) = Exited 1 \<and> pr_fate (deliver_signal os SIGSEGV p) = Exited 1"
    using i[of os] unfolding Let_def
    by (auto simp: installed_def deliver_signal_def Let_def handle_SIGINT_def handle_SIGTERM_def
        handle_SIGABRT_def handle_SIGSEGV_def handle_SIGINT_window_def handle_SIGTERM_window_def handle_SIGABRT_window_def handle_SIGSEGV_window_def
        IsShutdownRequested_def)
  moreover have "pr_fate (deliver_signal Windows SIGINT (deliver_signal Windows SIGINT
      (run_steps (InitSignal Windows) proc_start))) = Killed SIGINT"
    using i[of Windows] by (auto simp: installed_def deliver_signal_def Let_def handle_SIGINT_def handle_SIGINT_window_def)
  ultimately show ?thesis
    using linux_signals_keep[of "run_steps (InitSignal Linux) proc_start" sigs] i[of Linux] assms
    by (auto simp: Let_def installed_def)
qed

lemma signals_request_shutdown_witness:
  "IsShutdownRequested (fold (deliver_signal Linux) [SIGPIPE, SIGTERM, SIGPIPE]
     (run_steps (InitSignal Linux) proc_start))"
  using signals_request_shutdown[of "[SIGPIPE, SIGTERM, SIGPIPE]" Linux] by (simp add: Let_def)

text \<open>
  \<^verbatim>\<open>InitSignal\<close> clears the flag after it has registered
  the handlers. A \<^verbatim>\<open>SIGTERM\<close> that arrives after the \<open>k\<close>-th of its six statements kills the
  process while the handler is not registered (\<open>k < 2\<close>), is lost without a trace while the
  flag is still to be cleared (\<open>2 \<le> k < 6\<close>), and requests the shutdown afterwards.
\<close>
theorem signal_lost_during_init:
  assumes "k \<le> 6"
  shows "(let p = run_steps (drop k (InitSignal os))
                   (deliver_signal os SIGTERM (run_steps (take k (InitSignal os)) proc_start))
    in (pr_fate p = (if k < 2 then Killed SIGTERM else Alive)) \<and>
       (IsShutdownRequested p \<longleftrightarrow> k < 2 \<or> k = 6))"
proof -
  from assms consider "k = 0" | "k = 1" | "k = 2" | "k = 3" | "k = 4" | "k = 5" | "k = 6"
    by linarith
  then show ?thesis
    by cases (cases os; simp add: signal_defs proc_start_def)+
qed

lemma signal_lost_during_init_witness:
  "\<not> IsShutdownRequested (run_steps (drop 4 (InitSignal Linux))
     (deliver_signal Linux SIGTERM (run_steps (take 4 (InitSignal Linux)) proc_start)))"
  using signal_lost_during_init[of 4 Linux] by (simp add: Let_def)

end
