(* ===== verification/Spec2Isabelle.thy ===== *)
theory Spec2Isabelle
  imports Ring_Buffer_Test Lock_Threads Unlocked_Objects Stop_Watch_Test Logger_Model Packet_Model Session_Drain
    Session_Strand Accepted_Sessions Engine_Lifetime Engine_Threads Profile_Model Application
begin

text \<open>
  TuxBase-MMO: the server base library and the network engine.

  What the program is. \<^verbatim>\<open>src/01_Server/Src/01_ServerBase\<close> is a base library (buffers, locked
  containers, delegates, serial numbers, stop watch, threads, logger, assertions, signals);
  \<^verbatim>\<open>src/01_Server/Src/02_ServerEngine\<close> builds a network engine on it with Boost.Asio: an
  engine owns a pool of sessions and worker threads, an acceptor takes a session from the
  pool for each connection, a session queues what is to be sent and writes it with one write
  at a time, and packets are parsed from a receive buffer and dispatched by their id. The
  applications under \<^verbatim>\<open>03_ServerApp\<close> and \<^verbatim>\<open>04_DummyClient\<close> only set the signals up and, the server,
  construct an engine; \<^verbatim>\<open>99_Test\<close> tests the ring buffer and the stop watch. The paths below are
  relative to the first two directories.

  Conventions (theory \<open>Prelude\<close>). Integer types are words of their width, so arithmetic wraps
  as in the code; the code's pointers are an \<open>addr option\<close>, or an index where they point into
  an array. A function that can fail returns \<open>error + 'a\<close>. \<^verbatim>\<open>ASSERT\<close> and \<^verbatim>\<open>CRASH\<close> of
  \<^verbatim>\<open>Verify/Assert.h\<close> are \<open>ASSERT\<close> and \<open>Crash\<close>; \<open>ASSERT\<close> takes the build as an argument: \<open>Debug\<close> is
  the build that defines \<^verbatim>\<open>DEBUG\<close>, in which a failed assertion ends the process, and in
  \<open>NoDebug\<close> it is nothing. Where undefined behaviour would follow, a definition returns an
  error of its own (\<open>NullDeref\<close>, \<open>OutOfBounds\<close>, \<open>Indeterminate\<close>, \<open>Dangling\<close>), so that a theorem about a result also says that
  it does not happen. Spans are an offset and a size in the array they view.

  The interfaces (theory \<open>Contracts\<close>). \<open>invariant_system\<close> is a step relation with an inductive
  invariant, interpreted on the ring buffer with its handles (\<open>ring_sys\<close>), on the sessions
  (\<open>session_sys\<close>), on sessions with their owners (\<open>owned_sys\<close>) and on either executor (\<open>strand_sys\<close>), on the acceptor, handler by handler (\<open>accept_sys\<close>) and access by access
  (\<open>at_sys\<close>), and on the calls of an engine (\<open>engine_sys\<close>). \<open>simulation\<close> relates a system to one it
  refines: a session on a strand to one without (\<open>strand_plain\<close>), and a session whose handlers
  begin and end to one that closes its socket in one step (\<open>sd_session\<close>). \<open>byte_fifo\<close> is a byte queue with a put that
  may refuse and a get that may deliver less than asked for; both buffers provide it
  (\<open>ring_bytes\<close>, \<open>recv_bytes\<close>). \<open>lock_pool\<close> is what the two locked containers share, with its
  extensions \<open>fifo_pool\<close> and \<open>lifo_pool\<close> (\<open>lock_queue\<close>, \<open>lock_stack\<close>, \<open>bounded_stack\<close>).
  \<open>locked_object\<close> in \<open>Mutex_Model\<close> is an object whose operations take a mutex; it gives an
  \<open>invariant_system\<close> and is interpreted on the four containers (\<open>queue_threads\<close>,
  \<open>stack_threads\<close>, \<open>queue0_threads\<close>, \<open>stack0_threads\<close>), and on a serial generator and a ring
  buffer under a mutex of their users (\<open>serial_threads\<close>, \<open>ring_threads\<close>).
  \<open>object_factory\<close> in \<open>Delegate_Factory\<close> is the interface of \<^verbatim>\<open>DataStruct/Factory.h\<close>, on which the
  session pool rests (\<open>made_objects\<close>).

  The components, in the order of the theories.

  \<open>Ring_Buffer\<close>, \<open>Ring_Buffer_Inv\<close>, \<open>Ring_Buffer_System\<close>, \<open>Ring_Buffer_Props\<close>:
  \<^verbatim>\<open>DataStruct/RingBuffer\<close>. The record \<open>RingBuffer\<close> has the members of the class; a member
  function \<^verbatim>\<open>f\<close> of it is \<open>RingBuffer_f\<close>, one of a handle \<open>RingBufferReader_f\<close> or \<open>RingBufferWriter_f\<close>,
  the destructor \<open>_delete\<close>. \<open>rb_wf\<close>, \<open>wr_ok\<close> and \<open>rd_ok\<close> are the invariants of buffer and handles,
  \<open>rb_contents\<close> the unread bytes. \<open>rb_step\<close> lets a client make any of the calls in any order, on
  the one live reader and the one live writer the class allows. Shown: bytes come out in the
  order they went in, none twice and none lost; regions of reader and writer are disjoint and
  inside the array; no assertion fires; assertions only observe; when a reservation succeeds
  and what size it has; block-wise use; and the limits (data across the end of the array is
  read in two pieces, the full flag and the tail skip can outlive their reason, committing
  zero commits all, move assignment). The capacity is the code's 16384. \<open>Ring_Buffer_Test\<close> has
  the socket, the session and the three tests of \<^verbatim>\<open>RingBufferTest.cpp\<close>, which pass in both builds;
  the receiving loop, which would run on if the buffer had no room, is shown to end in them.

  \<open>Recv_Buffer\<close>: \<^verbatim>\<open>DataStruct/RecvBuffer\<close> and \<^verbatim>\<open>DataStruct/SendBuffer\<close>. Shown: a byte queue whatever the
  interleaving of receives, consumption and compaction; no call sequence that respects the
  sizes the buffer reports asserts; a compaction makes the promised room if it can at all.

  \<open>Lock_Queue\<close>, \<open>Lock_Stack\<close>: \<^verbatim>\<open>DataStruct/LockQueue\<close> and \<^verbatim>\<open>DataStruct/LockStack\<close>, the bounded and the
  unbounded class each. An operation is one step. Shown: order
  and conservation of the elements; capacity; the bounded queue refuses every element because
  its overflow check is inverted.

  \<open>Mutex_Model\<close>, \<open>Lock_Threads\<close>: the same operations access by access, in any number of threads
  that take the mutex for them. Shown: the containers are linearizable, so an operation may be
  taken as one step, which the theories before and after do; the order respects the calls, and
  no waiting thread is stuck. The fuel is the number of accesses of the longest operation, 4 for
  the bounded queue and 3 for the others, and by the laws of the locale it is enough.

  \<open>Unlocked_Objects\<close>: the ring buffer and the serial generator, which have no mutex, statement by
  statement in several threads (\<open>wr_access\<close>, \<open>cw_access\<close>, \<open>ar_access\<close>, \<open>cr_access\<close>, \<open>sg_access\<close>). Shown:
  the statements compose to the functions (16 are enough for the longest, 5 for the generator), so
  under a mutex they are linearizable; without one \<open>free_do\<close> reaches results that no order of
  the calls gives: a lost byte, a serial given twice.

  \<open>Delegate_Factory\<close>, \<open>Serial_Generator\<close>, \<open>Stop_Watch\<close>, \<open>Thread_Model\<close>, \<open>Logger_Model\<close>,
  \<open>Signal_Handler\<close>: the files of those names under \<^verbatim>\<open>DataStruct\<close>, \<^verbatim>\<open>Time\<close>, \<^verbatim>\<open>Threading\<close>, \<^verbatim>\<open>Logger\<close> and
  \<^verbatim>\<open>Verify\<close>. Clocks are arguments; \<open>Stop_Watch_Test\<close> has the five tests of \<^verbatim>\<open>StopWatchTest.cpp\<close>,
  with the rounding of floating point as a parameter. \<^verbatim>\<open>Thread::Join\<close> on a worker that never returns is \<open>None\<close>.
  \<^verbatim>\<open>LogSink::Log\<close> runs with fuel because a multi sink may contain itself; where the sinks form a
  tree of height at most \<open>n\<close>, fuel \<open>n\<close> is enough, as \<open>sink_tree_delivers\<close> shows.

  \<open>Packet_Model\<close>: \<^verbatim>\<open>EngineCommon/Packet\<close>. A message class of protobuf is its \<^verbatim>\<open>ParseFromArray\<close>, a
  parameter; a handler is a function on a state. Shown: the header survives the way through
  memory, a maximal packet always fits the receive buffer after a compaction, and the
  dispatcher keeps the first registration of an id and runs that.

  \<open>Boost_Session\<close>, \<open>Boost_Session_Inv\<close>, \<open>Boost_Session_Props\<close>: \<^verbatim>\<open>Boost/BoostSession\<close>. The session
  holds its mutex over blocks, so \<open>Send\<close>, \<open>FlushSendQueue\<close> and \<open>CompleteSend\<close> are composed of their
  blocks (\<open>Send_lock\<close>, \<open>Send_post\<close>, \<open>Flush_lock\<close>, ...). \<open>sy_step\<close> interleaves any number of threads
  between the blocks, with the executor running posted handlers and the operating system
  transmitting writes in pieces, completing or failing them. The invariant \<open>session_inv\<close> names
  the stage the one sending chain is in. Shown: at most one flush, write or completion is
  under way; until a write fails the transmitted bytes are a prefix of the accepted ones and
  what is missing is queued or under way; without failures everything accepted is sent by a
  finite run of events; blocks compose to the functions; after a failed write buffers may be
  dropped between others. The queue bound is the code's 1024 buffers.

  \<open>Session_Lifetime\<close>: the session with its owners, and the handlers that do not own it. Shown: with
  an owner nothing uses a destroyed session, and in which states the last owner may let go.

  \<open>Session_Drain\<close>: a session left to itself. Shown: every event takes the work left
  (\<open>session_work\<close>) down, and where none is possible everything has been sent, so it drains
  under every schedule.

  \<open>Session_Strand\<close>: the handlers on the executor of the socket, \<open>Plain\<close> as in the code or on a
  \<open>Strand\<close> as the notes under \<^verbatim>\<open>src/01_Server/Src/Doc\<close> have it. Shown: \<^verbatim>\<open>m_sendingBuffers\<close> needs no lock on either;
  without a strand a write and a close of the socket may meet, with one no two handlers do; either
  refines \<open>Boost_Session\<close>. A call of \<^verbatim>\<open>CloseSocket\<close> from outside stays one step, and a continuation
  of a write in pieces is the transmission itself.

  \<open>Net_Engine\<close>, \<open>Boost_Acceptor\<close>, \<open>Engine_Props\<close>: \<^verbatim>\<open>EngineCommon/NetEngine\<close>, the engine and server of
  \<^verbatim>\<open>Boost/BoostNetEngine\<close> and \<^verbatim>\<open>Boost/BoostAcceptor\<close>. \<open>EngineState\<close> is what event callbacks reach:
  the pool, the running flag, the \<^verbatim>\<open>io_context\<close> and the acceptor with its timer. A handler is one
  step of \<open>accept_step\<close>; connections, timer, cancellation and the stopping thread interleave.
  Shown: pool, pending accept, ready handlers and connections share the sessions out without
  loss or duplicate; one start and stop of a server step by step, with every worker
  joined and a second stop without effect; the ways in which sessions are lost to the server
  for good. \<open>to_string\<close> of thread numbers has its
  digits by fuel 10, enough for every 32-bit number.

  \<open>Net_Client\<close>: the client of \<^verbatim>\<open>Boost/BoostNetEngine\<close>: its checks and its retry handlers over one
  timer.

  \<open>Acceptor_Threads\<close>: the acceptor again, now with the single accesses of a handler to the flag,
  the pool, the timer and the acceptor as the steps (\<open>acc_block\<close>), so that any number of threads
  and the statements of \<^verbatim>\<open>NetEngine::Stop\<close> interleave inside the handlers. Shown: the blocks
  compose to the handlers (six blocks are enough for the longest) and the statements of \<^verbatim>\<open>Stop\<close> to
  its events; no session is lost and the
  accept loop neither broken nor doubled, now under these interleavings; a stop comes to rest,
  by a measure that every step decreases; and the race of \<^verbatim>\<open>close\<close> with \<^verbatim>\<open>async_accept\<close>.

  \<open>Accepted_Sessions\<close>: the acceptor and the sessions with their owners. Shown: what becomes of a
  session a connection was accepted into, and of the server when every session has been.

  \<open>Engine_Lifetime\<close>: the order in which the members of engine, server and client are constructed
  and destroyed, and who owns an engine. Shown: which use of a member is outside its lifetime;
  an engine lives as long as a session that was never connected.

  \<open>Profile_Model\<close>: the macros of \<^verbatim>\<open>Verify/Profile.h\<close>, with statements that may break, continue,
  return or throw. Shown: profiling does not change what a block does, unless it breaks or
  continues a loop around it.

  \<open>Engine_Threads\<close>: \<^verbatim>\<open>NetEngine::Start\<close> and \<^verbatim>\<open>NetEngine::Stop\<close> statement by statement (\<open>start_block\<close>,
  \<open>stop_block\<close>), in any number of calling threads, with workers, network and handlers in between.
  Shown: alone, the statements compose to the functions of \<open>Net_Engine\<close>; one call stops the engine,
  completely; every call returns, by a rank that the statements and the returning workers
  decrease; and when a stop is lost or incomplete. A callback of a delegate is one statement.

  \<open>Back_Trace\<close>, \<open>Application\<close>: \<^verbatim>\<open>Verify/BackTrace\<close>, the full \<^verbatim>\<open>Verify/Assert.cpp\<close> and the two \<^verbatim>\<open>main\<close>
  functions. A failed assertion inside the back trace prints a back trace, so \<open>PrintBackTrace\<close> has
  the depth of this nesting as fuel; depth 1 is enough when the path of the executable can be
  read and fits, and with assertions and no path no depth is. Shown: what is printed, the ways to get no trace, that
  \<^verbatim>\<open>Assert\<close> and \<^verbatim>\<open>Crash\<close> refine the outcomes the other theories use, and how the applications end.

  This theory adds the property that crosses the whole send and receive path: packets, the
  session, the network and the receive buffer.

  Not modelled: what \<^verbatim>\<open>ProfileSampler\<close>, \<^verbatim>\<open>ProfileStart\<close> and \<^verbatim>\<open>ProfileEnd\<close> do, which \<^verbatim>\<open>Verify/Profile.h\<close>
  declares and nothing defines, the precompiled headers, the message descriptions and the
  build files. Except for sessions and engines, copying, moving and destroying where the code leaves
  them to the compiler has no definitions of its own. The receive functions of a session have
  empty bodies, and so have their models. Of Boost, protobuf, fmt, googletest, the unwinder, the
  operating system and the C++ runtime only what the code relies on is there, as parameters or
  as the pending operations of the models.

  There is more in the notes under \<^verbatim>\<open>src/01_Server/Src/Doc\<close> than in the code: a receive path, a packet queue with a
  content thread behind it, the return of closed sessions. These have no definition in the source
  and none here. A delegate whose callbacks subscribe or clear while it is being called changes
  the vector its loop runs over, which C++ leaves undefined; the model of \<open>Delegate_Invoke\<close> is the
  call without that. Interleavings are of statements, blocks or single accesses, as each theory
  says, and sequentially consistent; on the mutexes and the atomic flag of the code this is what
  C++ promises, while an unsynchronised access is a data race already, so that a schedule that
  loses something is one of the things that can happen and not all of them.
\<close>

section \<open>Packets across a session and a receive buffer\<close>

text \<open>A packet as the sender lays it out in a send buffer: the header and the body.\<close>

definition packet_block :: "PacketHeader \<times> BYTE list \<Rightarrow> BYTE list" where
  "packet_block p = header_bytes (fst p) @ snd p"

definition packet_buffer :: "PacketHeader \<times> BYTE list \<Rightarrow> SendBuffer" where
  "packet_buffer p = \<lparr>sb_data = packet_block p\<rparr>"

lemma packet_buffers_bytes:
  "buffers_bytes (map (\<lambda>p. Some (packet_buffer p)) ps) = concat (map packet_block ps)"
  by (simp add: buffers_bytes_def packet_buffer_def span_bytes_def SendBuffer_GetSpan_def comp_def)

lemma wire_is_prefix:
  assumes "session_reachable s" "\<not> sy_failed s"
  shows "\<exists>rest. buffers_bytes (sy_accepted s) = sw_wire (sy_world s) @ rest"
proof -
  obtain st where "flow_ok s st" "data_ok s st" using reachable_stage[OF assms(1)] .
  with assms(2) show ?thesis by (auto simp: data_ok_def)
qed

text \<open>What a receiver still has to see of a stream of packets after the first \<open>k\<close>.\<close>

lemma next_packet:
  assumes "concat (map packet_block ps) = concat (map packet_block (take k ps)) @ readable @ rest"
    and "readable \<noteq> []"
  shows "k < length ps \<and> (\<exists>later. packet_block (ps ! k) @ later = readable @ rest)"
proof -
  have "concat (map packet_block ps) = concat (map packet_block (take k ps)) @ concat (map packet_block (drop k ps))"
    by (metis append_take_drop_id concat_append map_append)
  with assms(1) have d: "concat (map packet_block (drop k ps)) = readable @ rest" by simp
  with assms(2) have "drop k ps \<noteq> []" by auto
  then have "k < length ps" by simp
  with d show ?thesis by (auto simp flip: Cons_nth_drop_Suc)
qed

text \<open>
  C3: (components \<^verbatim>\<open>BoostSession\<close>, \<^verbatim>\<open>SendBuffer\<close>, \<^verbatim>\<open>RecvBuffer\<close>, \<^verbatim>\<open>Packet\<close>, roundtrip) Packets arrive
  as they were sent. Let a session without failed write have accepted some packets, each in a
  send buffer of its own, let the network deliver any part of what was transmitted to a receive
  buffer in pieces of any size, and let the receiver have consumed the first \<open>k\<close> packets. As
  soon as four bytes are readable, \<^verbatim>\<open>ParsePacketHeader\<close> yields the header of the next packet,
  and as soon as its size is readable, these bytes are that packet, header and body.
\<close>
theorem packets_cross_the_wire:
  assumes "session_reachable s" "\<not> sy_failed s"
    and "sy_accepted s = map (\<lambda>p. Some (packet_buffer p)) ps"
    and "RecvBuffer_new Debug c m = Inr rv"
    and "byte_run (rv_put b) (rv_get b) rv ops = (ins, outs, t)"
    and "sw_wire (sy_world s) = ins @ flying"
    and "outs = concat (map packet_block (take k ps))" "4 \<le> length (rv_readable t)"
  shows "k < length ps \<and> ParsePacketHeader t = Inr (fst (ps ! k)) \<and>
    (length (packet_block (ps ! k)) \<le> length (rv_readable t) \<longrightarrow>
       take (length (packet_block (ps ! k))) (rv_readable t) = packet_block (ps ! k))"
proof -
  from rv_new_wf[OF assms(4)] have wf: "rv_wf rv" "rv_readable rv = []" by auto
  from recv_bytes.run_conserves[OF wf(1) assms(5)] wf(2)
  have t: "rv_wf t" "outs @ rv_readable t = ins" by auto
  obtain rest where "buffers_bytes (sy_accepted s) = sw_wire (sy_world s) @ rest"
    using wire_is_prefix[OF assms(1,2)] by blast
  then have "concat (map packet_block ps) =
      concat (map packet_block (take k ps)) @ rv_readable t @ flying @ rest"
    using assms(3,6,7) t(2) by (simp add: packet_buffers_bytes)
  moreover have "rv_readable t \<noteq> []" using assms(8) by auto
  ultimately obtain later where k: "k < length ps"
    "packet_block (ps ! k) @ later = rv_readable t @ flying @ rest"
    using next_packet by blast
  then have "take 4 (rv_readable t) = take 4 (packet_block (ps ! k) @ later)"
    using assms(8) by simp
  then have "take 4 (rv_readable t) = header_bytes (fst (ps ! k))"
    by (simp add: packet_block_def)
  then have "ParsePacketHeader t = Inr (fst (ps ! k))"
    using ParsePacketHeader_eq[OF t(1)] assms(8) by (simp add: memcpy_header_bytes)
  moreover have "take (length (packet_block (ps ! k))) (rv_readable t) = packet_block (ps ! k)"
    if "length (packet_block (ps ! k)) \<le> length (rv_readable t)"
    using k(2) that by (metis append_eq_conv_conj append_eq_append_conv_if)
  ultimately show ?thesis using k(1) by blast
qed

text \<open>Two packets: both are accepted, written as one block, received whole, and the first consumed.\<close>

lemma packets_cross_the_wire_witness:
  "\<exists>s rv ins t. sy_run connected (map (EvSend \<circ> packet_buffer) [(\<lparr>ph_size = 5, ph_id = 7\<rparr>, [1]), (\<lparr>ph_size = 6, ph_id = 8\<rparr>, [2, 3])] @
       [EvThread (InSend False True), EvTask RunFlushSendQueue, EvThread InFlush, EvTransmit 0 11]) = Some s \<and>
     RecvBuffer_new Debug 16 8 = Inr rv \<and>
     byte_run (rv_put Debug) (rv_get Debug) rv [Put [5, 0, 7, 0, 1, 6], Put [0, 8, 0, 2, 3], Get 5] = (ins, [5, 0, 7, 0, 1], t) \<and>
     ParsePacketHeader t = Inr \<lparr>ph_size = 6, ph_id = 8\<rparr> \<and> take 6 (rv_readable t) = [6, 0, 8, 0, 2, 3]"
proof -
  let ?ps = "[(\<lparr>ph_size = 5, ph_id = 7\<rparr>, [1]), (\<lparr>ph_size = 6, ph_id = 8\<rparr>, [2, 3])] :: (PacketHeader \<times> BYTE list) list"
  let ?evs = "map (EvSend \<circ> packet_buffer) ?ps @
      [EvThread (InSend False True), EvTask RunFlushSendQueue, EvThread InFlush, EvTransmit 0 11]"
  let ?ops = "[Put [5, 0, 7, 0, 1, 6], Put [0, 8, 0, 2, 3], Get 5]"
  have blocks: "packet_block (?ps ! 0) = [5, 0, 7, 0, 1]" "packet_block (?ps ! 1) = [6, 0, 8, 0, 2, 3]"
    by code_simp+
  have "\<exists>s. sy_run connected ?evs = Some s \<and> \<not> sy_failed s \<and>
      sy_accepted s = map (\<lambda>p. Some (packet_buffer p)) ?ps \<and> sw_wire (sy_world s) = [5, 0, 7, 0, 1, 6, 0, 8, 0, 2, 3]"
    using blocks by (simp add: session_eval packet_buffer_def)
  then obtain s where s: "sy_run connected ?evs = Some s" "\<not> sy_failed s"
    "sy_accepted s = map (\<lambda>p. Some (packet_buffer p)) ?ps" "sw_wire (sy_world s) = [5, 0, 7, 0, 1, 6, 0, 8, 0, 2, 3]"
    by blast
  obtain rv where rv: "RecvBuffer_new Debug 16 8 = Inr rv"
    by (simp add: RecvBuffer_new_def word_nat)
  obtain ins outs t where run: "byte_run (rv_put Debug) (rv_get Debug) rv ?ops = (ins, outs, t)"
    by (metis prod_cases3)
  have "map_sum id (\<lambda>rv. case byte_run (rv_put Debug) (rv_get Debug) rv ?ops of
         (ins, outs, t) \<Rightarrow> (ins, outs, length (rv_readable t))) (RecvBuffer_new Debug 16 8) =
      Inr ([5, 0, 7, 0, 1, 6, 0, 8, 0, 2, 3], [5, 0, 7, 0, 1], 6)"
    by code_simp
  with rv run have t: "ins = [5, 0, 7, 0, 1, 6, 0, 8, 0, 2, 3]" "outs = [5, 0, 7, 0, 1]" "length (rv_readable t) = 6"
    by auto
  have "ParsePacketHeader t = Inr (fst (?ps ! 1)) \<and> take 6 (rv_readable t) = packet_block (?ps ! 1)"
    using packets_cross_the_wire[OF sy_run_reachable[OF connected_reachable s(1)] s(2,3) rv run, of "[]" 1]
      s(4) t blocks by simp
  with s(1) rv run t(2) blocks show ?thesis by auto
qed

end
